(* ===== verification/Prelude.thy ===== *)
theory Prelude
  imports Main "HOL-Library.Word" "HOL-Library.AList"
begin

text \<open>
  Shared vocabulary of the development: Rust's machine integers as words, \<open>Result\<close> as a
  sum with the propagation operator \<open>?\<close> as a bind, the checked, saturating and wrapping
  arithmetic of the standard library, \<open>to_be_bytes\<close>/\<open>from_be_bytes\<close> and their little
  endian forms, the lexicographic order of byte slices, decimal and hexadecimal formatting,
  and the facts about lists and association lists that several components use.
\<close>

unbundle bit_operations_syntax

named_theorems result_simps \<open>unfolding the Result combinators\<close>
named_theorems codec_defs \<open>encoders and decoders of the canonical codec\<close>
named_theorems wf_defs \<open>well-formedness predicates of the data model\<close>

section \<open>Machine types\<close>

type_synonym u8 = "8 word"
type_synonym u16 = "16 word"
type_synonym u32 = "32 word"
type_synonym u64 = "64 word"
type_synonym u128 = "128 word"
type_synonym i64 = "64 word"
type_synonym usize = nat
type_synonym bytes = "u8 list"

text \<open>
  The fixed-size array \<open>[u8; 32]\<close> is the 256-bit word whose big-endian bytes it holds; the
  type carries the length, and \<open>to_be_bytes\<close> below gives the bytes back.
\<close>

type_synonym bytes32 = "256 word"

section \<open>Results\<close>

type_synonym ('e, 'a) result = "'e + 'a"

definition bindR :: "('e, 'a) result \<Rightarrow> ('a \<Rightarrow> ('e, 'b) result) \<Rightarrow> ('e, 'b) result" where
  "bindR m f = (case m of Inl e \<Rightarrow> Inl e | Inr x \<Rightarrow> f x)"

definition map_err :: "('e \<Rightarrow> 'f) \<Rightarrow> ('e, 'a) result \<Rightarrow> ('f, 'a) result" where
  "map_err f m = (case m of Inl e \<Rightarrow> Inl (f e) | Inr x \<Rightarrow> Inr x)"

definition ok_or :: "'e \<Rightarrow> 'a option \<Rightarrow> ('e, 'a) result" where
  "ok_or e m = (case m of None \<Rightarrow> Inl e | Some x \<Rightarrow> Inr x)"

definition ensure :: "bool \<Rightarrow> 'e \<Rightarrow> ('e, unit) result" where
  "ensure b e = (if b then Inr () else Inl e)"

fun is_ok :: "('e, 'a) result \<Rightarrow> bool" where
  "is_ok (Inl _) = False"
| "is_ok (Inr _) = True"

lemma bindR_simps [simp]:
  "bindR (Inl e) f = Inl e" "bindR (Inr x) f = f x"
  by (simp_all add: bindR_def)

lemma map_err_simps [simp]:
  "map_err f (Inl e) = Inl (f e)" "map_err f (Inr x) = Inr x"
  by (simp_all add: map_err_def)

lemma ok_or_simps [simp]:
  "ok_or e None = Inl e" "ok_or e (Some x) = Inr x"
  by (simp_all add: ok_or_def)

lemma bindR_eq_Inr [simp]: "bindR m f = Inr y \<longleftrightarrow> (\<exists>x. m = Inr x \<and> f x = Inr y)"
  by (cases m) auto

lemma bindR_eq_Inl: "bindR m f = Inl e \<longleftrightarrow> m = Inl e \<or> (\<exists>x. m = Inr x \<and> f x = Inl e)"
  by (cases m) auto

lemma map_err_eq_Inr [simp]: "map_err f m = Inr y \<longleftrightarrow> m = Inr y"
  by (cases m) auto

lemma ok_or_eq_Inr [simp]: "ok_or e m = Inr y \<longleftrightarrow> m = Some y"
  by (cases m) auto

lemma ok_or_eq_Inl [simp]: "ok_or e m = Inl e' \<longleftrightarrow> m = None \<and> e' = e"
  by (cases m) auto

lemma ensure_eq_Inr [simp]: "ensure b e = Inr u \<longleftrightarrow> b"
  by (simp add: ensure_def)

lemma ensure_simps [simp]: "ensure True e = Inr ()" "ensure False e = Inl e"
  by (simp_all add: ensure_def)

lemma ensure_eq_Inl [simp]: "ensure b e = Inl e' \<longleftrightarrow> \<not> b \<and> e' = e"
  by (auto simp: ensure_def)

lemma map_err_eq_Inl: "map_err f m = Inl e \<longleftrightarrow> (\<exists>e'. m = Inl e' \<and> e = f e')"
  by (cases m) auto

lemma bindR_assoc: "bindR (bindR m f) g = bindR m (\<lambda>x. bindR (f x) g)"
  by (cases m) simp_all

lemma bindR_cong [fundef_cong]:
  "m = m' \<Longrightarrow> (\<And>x. m' = Inr x \<Longrightarrow> f x = g x) \<Longrightarrow> bindR m f = bindR m' g"
  by (cases m') auto

lemma is_ok_map_err [simp]: "is_ok (map_err f m) \<longleftrightarrow> is_ok m"
  by (cases m) simp_all

lemma is_ok_bindR: "is_ok m \<Longrightarrow> (\<And>x. m = Inr x \<Longrightarrow> is_ok (f x)) \<Longrightarrow> is_ok (bindR m f)"
  by (cases m) simp_all

lemma not_is_ok_iff: "\<not> is_ok r \<longleftrightarrow> (\<exists>e. r = Inl e)"
  by (cases r) auto

lemma is_ok_iff: "is_ok r \<longleftrightarrow> (\<exists>x. r = Inr x)"
  by (cases r) auto

lemmas [result_simps] = bindR_def map_err_def ok_or_def ensure_def

text \<open>A \<open>for\<close> loop whose body can return early: a monadic fold over the list.\<close>

fun foldR :: "('a \<Rightarrow> 's \<Rightarrow> ('e, 's) result) \<Rightarrow> 'a list \<Rightarrow> 's \<Rightarrow> ('e, 's) result" where
  "foldR f [] s = Inr s"
| "foldR f (x # xs) s = bindR (f x s) (foldR f xs)"

lemma foldR_append: "foldR f (xs @ ys) s = bindR (foldR f xs s) (foldR f ys)"
proof (induction xs arbitrary: s)
  case (Cons x xs)
  then show ?case by (cases "f x s") simp_all
qed simp

lemma foldR_simulation:
  assumes step: "\<And>x w w'. f x w = Inr w' \<Longrightarrow> v w' = g x (v w)"
    and run: "foldR f xs w = Inr w'"
  shows "v w' = fold g xs (v w)"
  using run by (induction xs arbitrary: w) (auto dest: step)

lemma foldR_is_ok: "(\<And>x w. is_ok (f x w)) \<Longrightarrow> is_ok (foldR f xs w)"
proof (induction xs arbitrary: w)
  case (Cons x xs)
  then show ?case by (auto intro!: is_ok_bindR)
qed simp

lemma foldR_invariant:
  assumes step: "\<And>x s s'. x \<in> set xs \<Longrightarrow> f x s = Inr s' \<Longrightarrow> P s \<Longrightarrow> P s'"
    and run: "foldR f xs s = Inr s'" and init: "P s"
  shows "P s'"
  using run init step by (induction xs arbitrary: s) auto

lemma fold_concat_map: "fold f (concat (map g xs)) s = fold (\<lambda>x. fold f (g x)) xs s"
  by (induction xs arbitrary: s) simp_all

text \<open>\<open>iter().enumerate()\<close>.\<close>

definition enumerate_from :: "nat \<Rightarrow> 'a list \<Rightarrow> (nat \<times> 'a) list" where
  "enumerate_from k xs = zip [k..<k + length xs] xs"

lemma enumerate_from_simps [simp]:
  "enumerate_from k [] = []"
  "enumerate_from k (x # xs) = (k, x) # enumerate_from (Suc k) xs"
proof -
  show "enumerate_from k [] = []" by (simp add: enumerate_from_def)
  have "[k..<k + length (x # xs)] = k # [Suc k..<Suc k + length xs]"
    using upt_conv_Cons [of k "k + length (x # xs)"] by (simp del: upt_Suc)
  then show "enumerate_from k (x # xs) = (k, x) # enumerate_from (Suc k) xs"
    by (simp add: enumerate_from_def)
qed

lemma length_enumerate_from [simp]: "length (enumerate_from k xs) = length xs"
  by (induction xs arbitrary: k) auto

lemma map_snd_enumerate_from [simp]: "map snd (enumerate_from k xs) = xs"
  by (induction xs arbitrary: k) auto

lemma map_snd_comp_enumerate_from: "map (\<lambda>p. f (snd p)) (enumerate_from k xs) = map f xs"
  by (induction xs arbitrary: k) auto

section \<open>Integer operations of the standard library\<close>

definition checked_add :: "'a::len word \<Rightarrow> 'a word \<Rightarrow> 'a word option" where
  "checked_add a b = (if unat a + unat b < 2 ^ LENGTH('a) then Some (a + b) else None)"

definition checked_sub :: "'a::len word \<Rightarrow> 'a word \<Rightarrow> 'a word option" where
  "checked_sub a b = (if b \<le> a then Some (a - b) else None)"

definition checked_mul :: "'a::len word \<Rightarrow> 'a word \<Rightarrow> 'a word option" where
  "checked_mul a b = (if unat a * unat b < 2 ^ LENGTH('a) then Some (a * b) else None)"

definition checked_div :: "'a::len word \<Rightarrow> 'a word \<Rightarrow> 'a word option" where
  "checked_div a b = (if b = 0 then None else Some (a div b))"

definition saturating_add :: "'a::len word \<Rightarrow> 'a word \<Rightarrow> 'a word" where
  "saturating_add a b = (if unat a + unat b < 2 ^ LENGTH('a) then a + b else - 1)"

definition saturating_sub :: "'a::len word \<Rightarrow> 'a word \<Rightarrow> 'a word" where
  "saturating_sub a b = (if b \<le> a then a - b else 0)"

definition saturating_mul :: "'a::len word \<Rightarrow> 'a word \<Rightarrow> 'a word" where
  "saturating_mul a b = (if unat a * unat b < 2 ^ LENGTH('a) then a * b else - 1)"

text \<open>Signed \<open>i64\<close> arithmetic on the two's complement reading.\<close>

definition checked_add_i64 :: "i64 \<Rightarrow> i64 \<Rightarrow> i64 option" where
  "checked_add_i64 a b =
     (if - (2 ^ 63) \<le> sint a + sint b \<and> sint a + sint b < 2 ^ 63 then Some (a + b) else None)"

definition checked_sub_i64 :: "i64 \<Rightarrow> i64 \<Rightarrow> i64 option" where
  "checked_sub_i64 a b =
     (if - (2 ^ 63) \<le> sint a - sint b \<and> sint a - sint b < 2 ^ 63 then Some (a - b) else None)"

text \<open>\<open>usize\<close> is a 64-bit unsigned integer; lengths and counters are naturals below \<open>2 ^ 64\<close>.\<close>

definition usize_checked_add :: "usize \<Rightarrow> usize \<Rightarrow> usize option" where
  "usize_checked_add a b = (if a + b < 2 ^ 64 then Some (a + b) else None)"

definition usize_saturating_add :: "usize \<Rightarrow> usize \<Rightarrow> usize" where
  "usize_saturating_add a b = min (a + b) (2 ^ 64 - 1)"

definition usize_saturating_sub :: "usize \<Rightarrow> usize \<Rightarrow> usize" where
  "usize_saturating_sub a b = a - b"

lemma unat_bound [simp]: "unat (x :: 'a::len word) < 2 ^ LENGTH('a)"
  by (rule unsigned_less)

lemma unat_of_nat_less [simp]: "n < 2 ^ LENGTH('a) \<Longrightarrow> unat (of_nat n :: 'a::len word) = n"
  by (simp add: unat_of_nat take_bit_nat_eq_self)

lemma unat_ucast_up:
  "LENGTH('a) \<le> LENGTH('b) \<Longrightarrow> unat (ucast (w :: 'a::len word) :: 'b::len word) = unat w"
proof -
  assume le: "LENGTH('a) \<le> LENGTH('b)"
  have "unat w < 2 ^ LENGTH('a)" by (rule unat_bound)
  also have "\<dots> \<le> 2 ^ LENGTH('b)" using le by (simp add: power_increasing)
  finally show ?thesis by (simp add: unsigned_ucast_eq take_bit_nat_eq_self)
qed

lemma unat_minus_one_word: "unat (- 1 :: 'a::len word) = 2 ^ LENGTH('a) - 1"
proof -
  have "uint (- 1 :: 'a word) = 2 ^ LENGTH('a) - 1"
    by (simp add: unsigned_minus_1_eq_mask mask_eq_exp_minus_1)
  then show ?thesis
    by (simp add: unat_eq_nat_uint nat_diff_distrib nat_power_eq)
qed

lemma checked_add_Some: "checked_add a b = Some c \<longleftrightarrow> unat c = unat a + unat b"
proof (cases "unat a + unat b < 2 ^ LENGTH('a)")
  case True
  then have "unat (a + b) = unat a + unat b" by (simp add: unat_word_ariths)
  with True show ?thesis by (auto simp: checked_add_def word_unat_eq_iff)
next
  case False
  then have "unat c \<noteq> unat a + unat b" using unat_bound [of c] by linarith
  with False show ?thesis by (simp add: checked_add_def)
qed

lemma checked_add_None: "checked_add a b = None \<longleftrightarrow> 2 ^ LENGTH('a) \<le> unat (a :: 'a::len word) + unat b"
  by (auto simp: checked_add_def)

lemma checked_sub_Some: "checked_sub a b = Some c \<longleftrightarrow> unat a = unat b + unat c"
  by (auto simp: checked_sub_def word_le_nat_alt unat_sub word_unat_eq_iff)

lemma checked_sub_None: "checked_sub a b = None \<longleftrightarrow> a < b"
  by (auto simp: checked_sub_def)

lemma unat_saturating_add:
  "unat (saturating_add a b) = min (unat a + unat b) (2 ^ LENGTH('a) - 1)" for a :: "'a::len word"
proof (cases "unat a + unat b < 2 ^ LENGTH('a)")
  case True
  then show ?thesis
    by (simp add: saturating_add_def unat_word_ariths)
next
  case False
  then show ?thesis
    by (simp add: saturating_add_def unat_minus_one_word)
qed

lemma unat_saturating_sub: "unat (saturating_sub a b) = unat a - unat b"
  by (auto simp: saturating_sub_def word_le_nat_alt unat_sub)

section \<open>Integers as bytes\<close>

fun nat_be :: "nat \<Rightarrow> nat \<Rightarrow> bytes" where
  "nat_be 0 x = []"
| "nat_be (Suc n) x = nat_be n (x div 256) @ [of_nat (x mod 256)]"

definition be_nat :: "bytes \<Rightarrow> nat" where
  "be_nat bs = foldl (\<lambda>acc b. acc * 256 + unat b) 0 bs"

definition to_be_bytes :: "'a::len word \<Rightarrow> bytes" where
  "to_be_bytes w = nat_be (LENGTH('a) div 8) (unat w)"

definition from_be_bytes :: "bytes \<Rightarrow> 'a::len word" where
  "from_be_bytes bs = of_nat (be_nat bs)"

definition to_le_bytes :: "'a::len word \<Rightarrow> bytes" where
  "to_le_bytes w = rev (to_be_bytes w)"

definition from_le_bytes :: "bytes \<Rightarrow> 'a::len word" where
  "from_le_bytes bs = from_be_bytes (rev bs)"

lemma length_nat_be [simp]: "length (nat_be n x) = n"
  by (induction n arbitrary: x) auto

lemma be_nat_Nil [simp]: "be_nat [] = 0"
  by (simp add: be_nat_def)

lemma be_nat_snoc [simp]: "be_nat (bs @ [b]) = be_nat bs * 256 + unat b"
  by (simp add: be_nat_def)

lemma be_nat_append: "be_nat (xs @ ys) = be_nat xs * 256 ^ length ys + be_nat ys"
proof (induction ys rule: rev_induct)
  case (snoc y ys)
  have "be_nat (xs @ ys @ [y]) = be_nat (xs @ ys) * 256 + unat y"
    using be_nat_snoc [of "xs @ ys" y] by simp
  with snoc show ?case by (simp add: algebra_simps)
qed simp

lemma be_nat_Cons: "be_nat (b # bs) = unat b * 256 ^ length bs + be_nat bs"
  using be_nat_append [of "[b]" bs] be_nat_snoc [of "[]" b] by simp

lemma be_nat_bound: "be_nat bs < 256 ^ length bs"
proof (induction bs rule: rev_induct)
  case (snoc b bs)
  have "unat b < 256" using unat_bound [of b] by simp
  with snoc show ?case by simp
qed simp

lemma unat_byte_of_nat [simp]: "unat (of_nat (x mod 256) :: u8) = x mod 256"
  by (simp add: unat_of_nat)

lemma be_nat_nat_be: "be_nat (nat_be n x) = x mod 256 ^ n"
proof (induction n arbitrary: x)
  case (Suc n)
  have "x mod 256 ^ Suc n = 256 * (x div 256 mod 256 ^ n) + x mod 256"
    by (simp add: mod_mult2_eq)
  with Suc show ?case by simp
qed simp

lemma nat_be_be_nat: "nat_be (length bs) (be_nat bs) = bs"
proof (induction bs rule: rev_induct)
  case (snoc b bs)
  have "unat b < 256" using unat_bound [of b] by simp
  then have "(be_nat bs * 256 + unat b) div 256 = be_nat bs"
    and "(be_nat bs * 256 + unat b) mod 256 = unat b"
    by simp_all
  with snoc show ?case by simp
qed simp

lemma length_to_be_bytes [simp]: "length (to_be_bytes (w :: 'a::len word)) = LENGTH('a) div 8"
  by (simp add: to_be_bytes_def)

lemma length_to_le_bytes [simp]: "length (to_le_bytes (w :: 'a::len word)) = LENGTH('a) div 8"
  by (simp add: to_le_bytes_def)

text \<open>The conversions are mutually inverse on widths that are whole numbers of bytes.\<close>

lemma pow_256_eq: "8 * n = m \<Longrightarrow> (256 :: nat) ^ n = 2 ^ m"
  by (metis (no_types, opaque_lifting) numeral_2_eq_2 power_mult semiring_norm(80)
      power_numeral Num.pow.simps Num.sqr.simps)

lemma from_to_be_bytes:
  assumes "8 * n = LENGTH('a)"
  shows "from_be_bytes (to_be_bytes (w :: 'a::len word)) = w"
proof -
  from assms have "LENGTH('a) div 8 = n" by simp
  moreover have "unat w < 256 ^ n"
    using assms by (simp add: pow_256_eq)
  ultimately show ?thesis
    by (simp add: from_be_bytes_def to_be_bytes_def be_nat_nat_be)
qed

lemma to_from_be_bytes:
  assumes "8 * n = LENGTH('a)" and "length bs = n"
  shows "to_be_bytes (from_be_bytes bs :: 'a::len word) = bs"
proof -
  have "be_nat bs < 2 ^ LENGTH('a)"
    using be_nat_bound [of bs] assms pow_256_eq [OF assms(1)] by simp
  then have "unat (of_nat (be_nat bs) :: 'a word) = be_nat bs"
    by (simp add: unat_of_nat take_bit_nat_eq_self)
  moreover have "LENGTH('a) div 8 = length bs" using assms by simp
  ultimately show ?thesis
    by (simp add: from_be_bytes_def to_be_bytes_def nat_be_be_nat)
qed

lemma from_to_be_simps [simp]:
  "from_be_bytes (to_be_bytes (a :: u16)) = a"
  "from_be_bytes (to_be_bytes (b :: u32)) = b"
  "from_be_bytes (to_be_bytes (c :: u64)) = c"
  "from_be_bytes (to_be_bytes (d :: u128)) = d"
  "from_be_bytes (to_be_bytes (e :: bytes32)) = e"
  using from_to_be_bytes [of 2 a] from_to_be_bytes [of 4 b] from_to_be_bytes [of 8 c]
    from_to_be_bytes [of 16 d] from_to_be_bytes [of 32 e]
  by simp_all

lemma to_from_be_simps [simp]:
  "length bs = 2 \<Longrightarrow> to_be_bytes (from_be_bytes bs :: u16) = bs"
  "length bs = 4 \<Longrightarrow> to_be_bytes (from_be_bytes bs :: u32) = bs"
  "length bs = 8 \<Longrightarrow> to_be_bytes (from_be_bytes bs :: u64) = bs"
  "length bs = 16 \<Longrightarrow> to_be_bytes (from_be_bytes bs :: u128) = bs"
  "length bs = 32 \<Longrightarrow> to_be_bytes (from_be_bytes bs :: bytes32) = bs"
  by (auto intro!: to_from_be_bytes)

section \<open>Byte slices in lexicographic order\<close>

datatype ordering = Less | Equal | Greater

fun lex_cmp :: "bytes \<Rightarrow> bytes \<Rightarrow> ordering" where
  "lex_cmp [] [] = Equal"
| "lex_cmp [] (b # bs) = Less"
| "lex_cmp (a # as) [] = Greater"
| "lex_cmp (a # as) (b # bs) =
     (if a < b then Less else if b < a then Greater else lex_cmp as bs)"

text \<open>On slices of equal length the lexicographic order is the order of the big-endian values.\<close>

lemma be_nat_Cons_less:
  assumes "length as = length bs" "a < b"
  shows "be_nat (a # as) < be_nat (b # bs)"
proof -
  have "Suc (unat a) \<le> unat b" using assms(2) by (simp add: word_less_nat_alt)
  then have "Suc (unat a) * 256 ^ length as \<le> unat b * 256 ^ length as" by (rule mult_le_mono1)
  with be_nat_bound [of as] show ?thesis
    using assms(1) by (simp add: be_nat_Cons)
qed

lemma lex_cmp_be_nat:
  "length as = length bs \<Longrightarrow>
   lex_cmp as bs = (if be_nat as < be_nat bs then Less
                    else if be_nat bs < be_nat as then Greater else Equal)"
proof (induction as bs rule: lex_cmp.induct)
  case (4 a as b bs)
  consider "a < b" | "b < a" | "a = b" by (rule linorder_cases)
  then show ?case
  proof cases
    case 1
    with be_nat_Cons_less [of as bs a b] 4 show ?thesis by simp
  next
    case 2
    with be_nat_Cons_less [of bs as b a] 4 show ?thesis by simp
  next
    case 3
    with 4 show ?thesis by (simp add: be_nat_Cons)
  qed
qed auto

lemma be_nat_to_be_bytes:
  "8 * n = LENGTH('a) \<Longrightarrow> be_nat (to_be_bytes (w :: 'a::len word)) = unat w"
proof -
  assume n: "8 * n = LENGTH('a)"
  then have "LENGTH('a) div 8 = n" by simp
  moreover have "unat w < 256 ^ n" using n by (simp add: pow_256_eq)
  ultimately show ?thesis
    by (simp add: to_be_bytes_def be_nat_nat_be)
qed

lemma lex_cmp_bytes32:
  "lex_cmp (to_be_bytes (a :: bytes32)) (to_be_bytes b) =
     (if a < b then Less else if b < a then Greater else Equal)"
  using be_nat_to_be_bytes [of 32 a] be_nat_to_be_bytes [of 32 b]
  by (simp add: lex_cmp_be_nat word_less_nat_alt)

section \<open>Text\<close>

text \<open>
  A Rust string is its sequence of UTF-8 bytes, as an Isabelle \<open>string\<close>: characters are
  8-bit values.
\<close>

definition str_bytes :: "string \<Rightarrow> bytes" where
  "str_bytes s = map (\<lambda>c. of_nat (of_char c)) s"

definition bytes_str :: "bytes \<Rightarrow> string" where
  "bytes_str bs = map (\<lambda>b. char_of (unat b)) bs"

lemma length_str_bytes [simp]: "length (str_bytes s) = length s"
  by (simp add: str_bytes_def)

lemma length_bytes_str [simp]: "length (bytes_str s) = length s"
  by (simp add: bytes_str_def)

lemma bytes_str_bytes [simp]: "bytes_str (str_bytes s) = s"
proof -
  have "unat (of_nat (of_char c) :: u8) = of_char c" for c :: char
    using nat_of_char_less_256 [of c] by (simp add: unat_of_nat)
  then show ?thesis by (simp add: bytes_str_def str_bytes_def o_def)
qed

lemma str_bytes_str [simp]: "str_bytes (bytes_str bs) = bs"
proof -
  have "(of_nat (of_char (char_of (unat b) :: char)) :: u8) = b" for b :: u8
    using unat_bound [of b] by simp
  then show ?thesis by (simp add: bytes_str_def str_bytes_def o_def)
qed

text \<open>Decimal and lower-case hexadecimal formatting (\<open>{}\<close>, \<open>{:02x}\<close>, \<open>{:#04x}\<close>).\<close>

definition hex_digit :: "nat \<Rightarrow> char" where
  "hex_digit d = (if d < 10 then char_of (48 + d) else char_of (87 + d))"

fun show_nat :: "nat \<Rightarrow> string" where
  "show_nat n = (if n < 10 then [hex_digit n] else show_nat (n div 10) @ [hex_digit (n mod 10)])"

declare show_nat.simps [simp del]

definition hex_u8 :: "u8 \<Rightarrow> string" where
  "hex_u8 b = [hex_digit (unat b div 16), hex_digit (unat b mod 16)]"

definition hex_bytes :: "bytes \<Rightarrow> string" where
  "hex_bytes bs = concat (map hex_u8 bs)"

definition fmt_hex_u8 :: "u8 \<Rightarrow> string" where
  "fmt_hex_u8 b = ''0x'' @ hex_u8 b"

section \<open>Lists and association lists\<close>

lemma split_at_append [simp]: "length xs = n \<Longrightarrow> take n (xs @ ys) = xs \<and> drop n (xs @ ys) = ys"
  by simp

lemma length4_conv: "length xs = 4 \<longleftrightarrow> (\<exists>a b c d. xs = [a, b, c, d])"
  by (simp add: eval_nat_numeral length_Suc_conv) blast

lemma take_drop_rejoin: "k = m + n \<Longrightarrow> take n (drop m xs) @ drop k xs = drop m xs"
  by (metis append_take_drop_id drop_drop add.commute)

lemma sum_list_map_mono:
  fixes f g :: "'a \<Rightarrow> nat"
  shows "(\<And>x. x \<in> set xs \<Longrightarrow> f x \<le> g x) \<Longrightarrow> sum_list (map f xs) \<le> sum_list (map g xs)"
  by (rule sum_list_mono) auto

lemma alist_delete_notin [simp]: "k \<notin> fst ` set (AList.delete k xs)"
  by (auto simp: AList.delete_eq)

lemma alist_update_fresh: "k \<notin> fst ` set xs \<Longrightarrow> AList.update k v xs = xs @ [(k, v)]"
  by (induction xs) auto

lemma alist_delete_sum:
  fixes f :: "'k \<times> 'v \<Rightarrow> nat"
  assumes "distinct (map fst xs)" "map_of xs k = Some v"
  shows "sum_list (map f xs) = f (k, v) + sum_list (map f (AList.delete k xs))"
  using assms
proof (induction xs)
  case (Cons p xs)
  show ?case
  proof (cases "fst p = k")
    case True
    with Cons.prems have "k \<notin> fst ` set xs" "p = (k, v)" by (auto simp: prod_eq_iff)
    moreover from this have "AList.delete k xs = xs" by (simp add: delete_id)
    ultimately show ?thesis by simp
  next
    case False
    with Cons show ?thesis by (cases p) auto
  qed
qed simp

lemma distinct_map_sorted_wrt: "sorted_wrt (\<lambda>x y. f x \<noteq> f y) xs \<Longrightarrow> distinct (map f xs)"
  by (induction xs) auto

end
