(* ===== verification/Primitives.thy ===== *)
theory Primitives
  imports Prelude
begin

text \<open>
  The crate \<open>aurion-primitives\<close>: the canonical codec trait (\<open>codec.rs\<close>), \<open>Hash256\<close>
  (\<open>hash.rs\<close>) and \<open>Quantum\<close> (\<open>quantum.rs\<close>). A decoder reads from the front of the cursor
  and returns the value with the rest of the cursor. The codec laws every implementation of
  the trait has to meet are the two locales \<open>codec\<close> and \<open>canonical_codec\<close>; their
  consequences are proved once, here, and every later data type interprets one of them.

  BLAKE3 and Ed25519 are third-party crates: they are the fields of the record \<open>crypto\<close>,
  an argument of every definition that hashes or verifies.
\<close>

section \<open>External cryptography\<close>

record 'vk crypto =
  blake3 :: "bytes \<Rightarrow> bytes32"
  vk_from_bytes :: "bytes \<Rightarrow> 'vk option"
  vk_verify_strict :: "'vk \<Rightarrow> bytes \<Rightarrow> bytes \<Rightarrow> bool"

text \<open>
  The smallest instance of the external cryptography: one digest for every message and a
  signature scheme that accepts every signature. It serves as the concrete argument on which
  the statements with hypotheses are evaluated.
\<close>

definition flat_crypto :: "unit crypto" where
  "flat_crypto = \<lparr>blake3 = (\<lambda>_. 0), vk_from_bytes = Some \<circ> (\<lambda>_. ()), vk_verify_strict = (\<lambda>_ _ _. True)\<rparr>"

text \<open>An instance whose digests tell messages of different lengths apart.\<close>

definition length_crypto :: "unit crypto" where
  "length_crypto = flat_crypto\<lparr>blake3 := (\<lambda>m. of_nat (length m))\<rparr>"

section \<open>The canonical codec\<close>

datatype codec_error = UnexpectedEof | TrailingBytes | InvalidData string

fun codec_error_display :: "codec_error \<Rightarrow> string" where
  "codec_error_display UnexpectedEof = ''unexpected end of buffer''"
| "codec_error_display TrailingBytes = ''trailing unconsumed bytes detected''"
| "codec_error_display (InvalidData msg) = ''invalid data representation: '' @ msg"

type_synonym 'a decoder = "bytes \<Rightarrow> (codec_error, 'a \<times> bytes) result"

definition decode_canonical :: "'a decoder \<Rightarrow> bytes \<Rightarrow> (codec_error, 'a) result" where
  "decode_canonical decode_from_cursor bs =
     bindR (decode_from_cursor bs) (\<lambda>(item, cursor).
       if cursor \<noteq> [] then Inl TrailingBytes else Inr item)"

text \<open>The recurring guard \<open>if cursor.len() < n\<close> followed by \<open>cursor.split_at(n)\<close>.\<close>

definition split_at_checked :: "nat \<Rightarrow> bytes decoder" where
  "split_at_checked n cursor =
     (if length cursor < n then Inl UnexpectedEof else Inr (take n cursor, drop n cursor))"

definition decode_be :: "'a::len word decoder" where
  "decode_be cursor =
     bindR (split_at_checked (LENGTH('a) div 8) cursor) (\<lambda>(bs, rest). Inr (from_be_bytes bs, rest))"

text \<open>A counted loop that decodes \<open>n\<close> items one after the other.\<close>

fun decode_n :: "'a decoder \<Rightarrow> nat \<Rightarrow> 'a list decoder" where
  "decode_n dec 0 cursor = Inr ([], cursor)"
| "decode_n dec (Suc n) cursor =
     bindR (dec cursor) (\<lambda>(x, rest). bindR (decode_n dec n rest) (\<lambda>(xs, rest'). Inr (x # xs, rest')))"

lemma split_at_checked_append [simp]:
  "length xs = n \<Longrightarrow> split_at_checked n (xs @ rest) = Inr (xs, rest)"
  by (simp add: split_at_checked_def)

lemma split_at_checked_Inr [simp]:
  "split_at_checked n bs = Inr (xs, rest) \<longleftrightarrow> bs = xs @ rest \<and> length xs = n"
  by (auto simp: split_at_checked_def)

lemma split_at_checked_Inl [simp]:
  "split_at_checked n bs = Inl e \<longleftrightarrow> length bs < n \<and> e = UnexpectedEof"
  by (auto simp: split_at_checked_def)

lemma decode_be_append:
  assumes "8 * n = LENGTH('a)"
  shows "decode_be (to_be_bytes (w :: 'a::len word) @ rest) = Inr (w, rest)"
  using from_to_be_bytes [OF assms, of w] by (simp add: decode_be_def)

lemma decode_be_sound:
  assumes "8 * n = LENGTH('a)" and "decode_be bs = Inr (w :: 'a::len word, rest)"
  shows "bs = to_be_bytes w @ rest"
proof -
  from assms(1) have n: "LENGTH('a) div 8 = n" by simp
  with assms(2) obtain xs where xs: "bs = xs @ rest" "length xs = n" "w = from_be_bytes xs"
    by (auto simp: decode_be_def split: prod.splits)
  with to_from_be_bytes [OF assms(1), of xs] show ?thesis by simp
qed

section \<open>The laws of the trait\<close>

locale codec =
  fixes enc :: "'a \<Rightarrow> bytes"
    and dec :: "'a decoder"
    and wf :: "'a \<Rightarrow> bool"
  assumes dec_enc: "wf x \<Longrightarrow> dec (enc x @ rest) = Inr (x, rest)"
begin

lemma roundtrip: "wf x \<Longrightarrow> decode_canonical dec (enc x) = Inr x"
  using dec_enc [of x "[]"] by (simp add: decode_canonical_def)

lemma rejects_trailing:
  "wf x \<Longrightarrow> t \<noteq> [] \<Longrightarrow> decode_canonical dec (enc x @ t) = Inl TrailingBytes"
  by (simp add: decode_canonical_def dec_enc)

lemma prefix_free:
  assumes "wf x" "wf y" "enc x @ r = enc y @ s"
  shows "x = y \<and> r = s"
proof -
  have "Inr (x, r) = dec (enc x @ r)" by (rule dec_enc [OF assms(1), symmetric])
  also have "\<dots> = dec (enc y @ s)" by (simp only: assms(3))
  also have "\<dots> = Inr (y, s)" by (rule dec_enc [OF assms(2)])
  finally show ?thesis by simp
qed

lemma enc_inj: "wf x \<Longrightarrow> wf y \<Longrightarrow> enc x = enc y \<Longrightarrow> x = y"
  using prefix_free [of x y "[]" "[]"] by simp

lemma decode_n_enc:
  "list_all wf xs \<Longrightarrow> decode_n dec (length xs) (concat (map enc xs) @ rest) = Inr (xs, rest)"
  by (induction xs) (auto simp: dec_enc)

end

locale canonical_codec = codec +
  assumes dec_sound: "dec bs = Inr (x, rest) \<Longrightarrow> wf x \<and> bs = enc x @ rest"
begin

lemma decode_canonical_iff: "decode_canonical dec bs = Inr x \<longleftrightarrow> wf x \<and> bs = enc x"
proof
  assume "decode_canonical dec bs = Inr x"
  then have "dec bs = Inr (x, [])"
    by (auto simp: decode_canonical_def split: prod.splits if_splits)
  then show "wf x \<and> bs = enc x" by (auto dest: dec_sound)
next
  assume "wf x \<and> bs = enc x"
  then show "decode_canonical dec bs = Inr x" by (simp add: roundtrip)
qed

lemma truncated_fails:
  assumes "wf x" "enc x = p @ s" "s \<noteq> []"
  shows "\<exists>e. dec p = Inl e"
proof (cases "dec p")
  case (Inr yr)
  obtain y r where yr: "yr = (y, r)" by (cases yr)
  from dec_sound [OF Inr [unfolded yr]] have wfy: "wf y" and p: "p = enc y @ r" by auto
  have "x = y \<and> [] = r @ s"
    by (rule prefix_free [OF assms(1) wfy]) (use assms(2) p in simp)
  with assms(3) show ?thesis by simp
qed blast

lemma decode_n_sound:
  "decode_n dec n bs = Inr (xs, rest) \<Longrightarrow>
   length xs = n \<and> list_all wf xs \<and> bs = concat (map enc xs) @ rest"
proof (induction n arbitrary: bs xs)
  case (Suc n)
  then obtain y ys mid where y: "dec bs = Inr (y, mid)"
    and ys: "decode_n dec n mid = Inr (ys, rest)" and "xs = y # ys"
    by (auto split: prod.splits)
  with Suc.IH [OF ys] dec_sound [OF y] show ?case by simp
qed simp

end

interpretation u16: canonical_codec to_be_bytes "decode_be :: u16 decoder" "\<lambda>_. True"
  by unfold_locales
    (auto intro: decode_be_append [of 2] dest: decode_be_sound [of 2, rotated])

interpretation u32: canonical_codec to_be_bytes "decode_be :: u32 decoder" "\<lambda>_. True"
  by unfold_locales
    (auto intro: decode_be_append [of 4] dest: decode_be_sound [of 4, rotated])

interpretation u64: canonical_codec to_be_bytes "decode_be :: u64 decoder" "\<lambda>_. True"
  by unfold_locales
    (auto intro: decode_be_append [of 8] dest: decode_be_sound [of 8, rotated])

section \<open>Hash256\<close>

type_synonym hash256 = bytes32

definition ZERO_HASH :: hash256 where
  "ZERO_HASH = 0"

definition as_bytes :: "hash256 \<Rightarrow> bytes" where
  "as_bytes h = to_be_bytes h"

definition from_bytes :: "bytes \<Rightarrow> hash256" where
  "from_bytes bs = from_be_bytes bs"

definition digest :: "'vk crypto \<Rightarrow> bytes \<Rightarrow> hash256" where
  "digest C data = blake3 C data"

definition hash256_display :: "hash256 \<Rightarrow> string" where
  "hash256_display h = hex_bytes (as_bytes h)"

definition hash256_debug :: "hash256 \<Rightarrow> string" where
  "hash256_debug h = ''Hash256('' @ hash256_display h @ '')''"

definition encode_hash256 :: "hash256 \<Rightarrow> bytes" where
  [codec_defs]: "encode_hash256 h = as_bytes h"

definition decode_hash256 :: "hash256 decoder" where
  [codec_defs]: "decode_hash256 cursor =
     bindR (split_at_checked 32 cursor) (\<lambda>(hash_bytes, rest). Inr (from_bytes hash_bytes, rest))"

lemma length_as_bytes [simp]: "length (as_bytes h) = 32"
  by (simp add: as_bytes_def)

lemma from_bytes_as_bytes [simp]: "from_bytes (as_bytes h) = h"
  by (simp add: as_bytes_def from_bytes_def)

lemma as_bytes_from_bytes [simp]: "length bs = 32 \<Longrightarrow> as_bytes (from_bytes bs) = bs"
  by (simp add: as_bytes_def from_bytes_def)

lemma as_bytes_inj [simp]: "as_bytes a = as_bytes b \<longleftrightarrow> a = b"
  using from_bytes_as_bytes by metis

interpretation hash256: canonical_codec encode_hash256 decode_hash256 "\<lambda>_. True"
  by unfold_locales (auto simp: codec_defs split: prod.splits)

section \<open>Quantum\<close>

datatype quantum_error = Overflow | Underflow

datatype quantum = Quantum (raw: u128)

instantiation quantum :: linorder
begin

definition less_eq_quantum :: "quantum \<Rightarrow> quantum \<Rightarrow> bool" where
  "less_eq_quantum a b \<longleftrightarrow> raw a \<le> raw b"

definition less_quantum :: "quantum \<Rightarrow> quantum \<Rightarrow> bool" where
  "less_quantum a b \<longleftrightarrow> raw a < raw b"

instance
  by standard (auto simp: less_eq_quantum_def less_quantum_def quantum.expand)

end

definition QUANTUM_ZERO :: quantum where
  "QUANTUM_ZERO = Quantum 0"

definition QUANTUM_MAX :: quantum where
  "QUANTUM_MAX = Quantum (- 1)"

definition quantum_checked_add :: "quantum \<Rightarrow> quantum \<Rightarrow> (quantum_error, quantum) result" where
  "quantum_checked_add a b = ok_or Overflow (map_option Quantum (checked_add (raw a) (raw b)))"

definition quantum_checked_sub :: "quantum \<Rightarrow> quantum \<Rightarrow> (quantum_error, quantum) result" where
  "quantum_checked_sub a b = ok_or Underflow (map_option Quantum (checked_sub (raw a) (raw b)))"

definition quantum_display :: "quantum \<Rightarrow> string" where
  "quantum_display q = show_nat (unat (raw q))"

definition encode_quantum :: "quantum \<Rightarrow> bytes" where
  [codec_defs]: "encode_quantum q = to_be_bytes (raw q)"

definition decode_quantum :: "quantum decoder" where
  [codec_defs]: "decode_quantum cursor =
     bindR (split_at_checked 16 cursor)
       (\<lambda>(int_bytes, rest). Inr (Quantum (from_be_bytes int_bytes), rest))"

text \<open>The amount as a natural number: the reading under which sums are stated.\<close>

abbreviation amount :: "quantum \<Rightarrow> nat" where
  "amount q \<equiv> unat (raw q)"

lemma amount_inj: "amount a = amount b \<longleftrightarrow> a = b"
  by (cases a; cases b) (simp add: word_unat_eq_iff)

lemma quantum_le_amount: "a \<le> b \<longleftrightarrow> amount a \<le> amount b"
  by (simp add: less_eq_quantum_def word_le_nat_alt)

lemma quantum_less_amount: "a < b \<longleftrightarrow> amount a < amount b"
  by (simp add: less_quantum_def word_less_nat_alt)

lemma amount_ZERO [simp]: "amount QUANTUM_ZERO = 0"
  by (simp add: QUANTUM_ZERO_def)

lemma quantum_checked_add_Inr [simp]:
  "quantum_checked_add a b = Inr c \<longleftrightarrow> amount c = amount a + amount b"
  by (cases c) (auto simp: quantum_checked_add_def checked_add_Some)

lemma quantum_checked_sub_Inr [simp]:
  "quantum_checked_sub a b = Inr c \<longleftrightarrow> amount a = amount b + amount c"
  by (cases c) (auto simp: quantum_checked_sub_def checked_sub_Some)

lemma quantum_checked_add_Inl:
  "quantum_checked_add a b = Inl e \<longleftrightarrow> e = Overflow \<and> 2 ^ 128 \<le> amount a + amount b"
  by (auto simp: quantum_checked_add_def checked_add_None)

lemma quantum_checked_sub_Inl:
  "quantum_checked_sub a b = Inl e \<longleftrightarrow> e = Underflow \<and> amount a < amount b"
  by (auto simp: quantum_checked_sub_def checked_sub_None word_less_nat_alt)

lemma amount_Quantum_of_nat: "n < 2 ^ 128 \<Longrightarrow> amount (Quantum (of_nat n)) = n"
  by simp

lemma amount_bound: "amount q < 2 ^ 128"
  using unat_bound [of "raw q"] by simp

lemma quantum_eq_of_amount: "q = Quantum (of_nat (amount q))"
  by (cases q) simp

text \<open>The recurring accumulation loop: it succeeds exactly when the mathematical sum fits.\<close>

lemma foldR_quantum_sum:
  "foldR (\<lambda>x acc. map_err (\<lambda>_. e) (quantum_checked_add acc (f x))) xs a = Inr r \<longleftrightarrow>
     amount r = amount a + sum_list (map (\<lambda>x. amount (f x)) xs)"
proof (induction xs arbitrary: a)
  case Nil
  then show ?case using amount_inj by fastforce
next
  case (Cons x xs)
  let ?step = "\<lambda>x acc. map_err (\<lambda>_. e) (quantum_checked_add acc (f x))"
  let ?S = "sum_list (map (\<lambda>x. amount (f x)) xs)"
  have "foldR ?step (x # xs) a = Inr r \<longleftrightarrow>
      (\<exists>c. amount c = amount a + amount (f x) \<and> amount r = amount c + ?S)"
    by (simp only: foldR.simps bindR_eq_Inr map_err_eq_Inr quantum_checked_add_Inr Cons.IH)
  also have "\<dots> \<longleftrightarrow> amount r = amount a + amount (f x) + ?S"
  proof
    assume r: "amount r = amount a + amount (f x) + ?S"
    then have "amount a + amount (f x) < 2 ^ 128" using amount_bound [of r] by linarith
    then have "amount (Quantum (of_nat (amount a + amount (f x)))) = amount a + amount (f x)"
      by (rule amount_Quantum_of_nat)
    with r show "\<exists>c. amount c = amount a + amount (f x) \<and> amount r = amount c + ?S" by metis
  qed auto
  finally show ?case by (simp add: add.assoc)
qed

interpretation quantum: canonical_codec encode_quantum decode_quantum "\<lambda>_. True"
  by unfold_locales (auto simp: codec_defs split: prod.splits)

end
