(* ===== verification/Core_Tx.thy ===== *)
theory Core_Tx
  imports Primitives
begin

text \<open>
  The transaction half of \<open>aurion-core\<close>: \<open>OutPoint\<close> (\<open>outpoint.rs\<close>), \<open>Datum\<close>,
  \<open>TxInput\<close>, \<open>TxOutput\<close> and \<open>Transaction\<close> with their codecs, \<open>txid\<close>, \<open>is_coinbase\<close> and
  \<open>sighash\<close> (\<open>tx.rs\<close>). Every codec interprets \<open>canonical_codec\<close>.
\<close>

section \<open>Length-prefixed byte strings\<close>

definition encode_vec_bytes :: "bytes \<Rightarrow> bytes" where
  [codec_defs]: "encode_vec_bytes bs = to_be_bytes (of_nat (length bs) :: u32) @ bs"

definition decode_vec_bytes :: "bytes decoder" where
  [codec_defs]: "decode_vec_bytes cursor =
     bindR (split_at_checked 4 cursor) (\<lambda>(len_bytes, cursor).
       split_at_checked (unat (from_be_bytes len_bytes :: u32)) cursor)"

definition wf_vec :: "bytes \<Rightarrow> bool" where
  [wf_defs]: "wf_vec bs \<longleftrightarrow> length bs < 2 ^ 32"

lemma unat_u32_bound [simp]: "unat (w :: u32) < 4294967296"
  using unat_bound [of w] by simp

lemma unat_u16_bound [simp]: "unat (w :: u16) < 65536"
  using unat_bound [of w] by simp

interpretation vec: canonical_codec encode_vec_bytes decode_vec_bytes wf_vec
  by unfold_locales (auto simp: codec_defs wf_defs split: prod.splits)

section \<open>OutPoint\<close>

record outpoint =
  op_txid :: hash256
  op_vout :: u32

definition OutPoint_new :: "hash256 \<Rightarrow> u32 \<Rightarrow> outpoint" where
  "OutPoint_new txid vout = \<lparr>op_txid = txid, op_vout = vout\<rparr>"

definition encode_outpoint :: "outpoint \<Rightarrow> bytes" where
  [codec_defs]: "encode_outpoint op = as_bytes (op_txid op) @ to_be_bytes (op_vout op)"

definition decode_outpoint :: "outpoint decoder" where
  [codec_defs]: "decode_outpoint cursor =
     bindR (decode_hash256 cursor) (\<lambda>(txid, cursor).
     bindR (split_at_checked 4 cursor) (\<lambda>(vout_bytes, rest).
       Inr (\<lparr>op_txid = txid, op_vout = from_be_bytes vout_bytes\<rparr>, rest)))"

definition outpoint_display :: "outpoint \<Rightarrow> string" where
  "outpoint_display op = hash256_display (op_txid op) @ '':'' @ show_nat (unat (op_vout op))"

definition outpoint_debug :: "outpoint \<Rightarrow> string" where
  "outpoint_debug op =
     ''OutPoint('' @ hash256_display (op_txid op) @ '':'' @ show_nat (unat (op_vout op)) @ '')''"

interpretation outpoint: canonical_codec encode_outpoint decode_outpoint "\<lambda>_. True"
  by unfold_locales (auto simp: codec_defs split: prod.splits)

lemma encode_outpoint_inj [simp]: "encode_outpoint a = encode_outpoint b \<longleftrightarrow> a = b"
  using outpoint.enc_inj by auto

section \<open>Datum\<close>

definition MAX_DATUM_SIZE :: usize where
  "MAX_DATUM_SIZE = 520"

definition MAX_REDEEMER_SIZE :: usize where
  "MAX_REDEEMER_SIZE = 520"

datatype datum = DatumNone | DatumHash hash256 | DatumInline bytes

fun encode_datum :: "datum \<Rightarrow> bytes" where
  "encode_datum DatumNone = [0x00]"
| "encode_datum (DatumHash h) = 0x01 # as_bytes h"
| "encode_datum (DatumInline data) = 0x02 # to_be_bytes (of_nat (length data) :: u16) @ data"

definition decode_datum :: "datum decoder" where
  [codec_defs]: "decode_datum cursor = (case cursor of
     [] \<Rightarrow> Inl UnexpectedEof
   | prefix # cursor \<Rightarrow>
       if prefix = 0x00 then Inr (DatumNone, cursor)
       else if prefix = 0x01 then
         bindR (split_at_checked 32 cursor) (\<lambda>(hash_bytes, rest).
           Inr (DatumHash (from_bytes hash_bytes), rest))
       else if prefix = 0x02 then
         bindR (split_at_checked 2 cursor) (\<lambda>(len_bytes, cursor).
           let len = unat (from_be_bytes len_bytes :: u16) in
           if len > MAX_DATUM_SIZE then Inl (InvalidData ''datum payload exceeds 520 bytes limit'')
           else bindR (split_at_checked len cursor) (\<lambda>(data, rest). Inr (DatumInline data, rest)))
       else Inl (InvalidData (''invalid datum tag: '' @ fmt_hex_u8 prefix)))"

fun wf_datum :: "datum \<Rightarrow> bool" where
  "wf_datum (DatumInline data) \<longleftrightarrow> length data \<le> MAX_DATUM_SIZE"
| "wf_datum _ \<longleftrightarrow> True"

interpretation datum: canonical_codec encode_datum decode_datum wf_datum
proof unfold_locales
  fix x rest
  assume "wf_datum x"
  then show "decode_datum (encode_datum x @ rest) = Inr (x, rest)"
    by (cases x) (auto simp: codec_defs MAX_DATUM_SIZE_def)
next
  fix bs x rest
  assume "decode_datum bs = Inr (x, rest)"
  then show "wf_datum x \<and> bs = encode_datum x @ rest"
    by (auto simp: codec_defs Let_def split: list.splits if_splits prod.splits)
qed

section \<open>TxInput\<close>

record tx_input =
  previous_output :: outpoint
  unlocking_script :: bytes
  sequence :: u32
  redeemer :: "bytes option"

definition encode_redeemer :: "bytes option \<Rightarrow> bytes" where
  [codec_defs]: "encode_redeemer r = (case r of
     None \<Rightarrow> [0x00]
   | Some bs \<Rightarrow> 0x01 # to_be_bytes (of_nat (length bs) :: u16) @ bs)"

definition decode_redeemer :: "bytes option decoder" where
  [codec_defs]: "decode_redeemer cursor = (case cursor of
     [] \<Rightarrow> Inl UnexpectedEof
   | redeemer_tag # cursor \<Rightarrow>
       if redeemer_tag = 0x00 then Inr (None, cursor)
       else if redeemer_tag = 0x01 then
         bindR (split_at_checked 2 cursor) (\<lambda>(len_bytes, cursor).
           let len = unat (from_be_bytes len_bytes :: u16) in
           if len > MAX_REDEEMER_SIZE then
             Inl (InvalidData ''redeemer payload exceeds 520 bytes limit'')
           else bindR (split_at_checked len cursor) (\<lambda>(red_data, rest). Inr (Some red_data, rest)))
       else Inl (InvalidData (''invalid redeemer tag: '' @ fmt_hex_u8 redeemer_tag)))"

definition wf_redeemer :: "bytes option \<Rightarrow> bool" where
  [wf_defs]: "wf_redeemer r \<longleftrightarrow> (case r of None \<Rightarrow> True | Some bs \<Rightarrow> length bs \<le> MAX_REDEEMER_SIZE)"

interpretation redeemer: canonical_codec encode_redeemer decode_redeemer wf_redeemer
proof unfold_locales
  fix x rest
  assume "wf_redeemer x"
  then show "decode_redeemer (encode_redeemer x @ rest) = Inr (x, rest)"
    by (cases x) (auto simp: codec_defs wf_defs MAX_REDEEMER_SIZE_def)
next
  fix bs x rest
  assume "decode_redeemer bs = Inr (x, rest)"
  then show "wf_redeemer x \<and> bs = encode_redeemer x @ rest"
    by (auto simp: codec_defs wf_defs Let_def split: list.splits if_splits prod.splits)
qed

definition encode_tx_input :: "tx_input \<Rightarrow> bytes" where
  "encode_tx_input i =
     encode_outpoint (previous_output i) @ encode_vec_bytes (unlocking_script i)
     @ to_be_bytes (sequence i) @ encode_redeemer (redeemer i)"

definition decode_tx_input :: "tx_input decoder" where
  "decode_tx_input cursor =
     bindR (decode_outpoint cursor) (\<lambda>(previous_output, cursor).
     bindR (decode_vec_bytes cursor) (\<lambda>(unlocking_script, cursor).
     bindR (decode_be cursor) (\<lambda>(sequence, cursor).
     bindR (decode_redeemer cursor) (\<lambda>(redeemer, cursor).
       Inr (\<lparr>previous_output = previous_output, unlocking_script = unlocking_script,
             sequence = sequence, redeemer = redeemer\<rparr>, cursor)))))"

definition wf_tx_input :: "tx_input \<Rightarrow> bool" where
  [wf_defs]: "wf_tx_input i \<longleftrightarrow> wf_vec (unlocking_script i) \<and> wf_redeemer (redeemer i)"

interpretation tx_input: canonical_codec encode_tx_input decode_tx_input wf_tx_input
proof unfold_locales
  fix x rest
  assume "wf_tx_input x"
  then show "decode_tx_input (encode_tx_input x @ rest) = Inr (x, rest)"
    by (simp add: encode_tx_input_def decode_tx_input_def wf_tx_input_def
        outpoint.dec_enc vec.dec_enc u32.dec_enc redeemer.dec_enc)
next
  fix bs x rest
  assume "decode_tx_input bs = Inr (x, rest)"
  then show "wf_tx_input x \<and> bs = encode_tx_input x @ rest"
    by (auto simp: encode_tx_input_def decode_tx_input_def wf_tx_input_def split: prod.splits
        dest!: outpoint.dec_sound vec.dec_sound u32.dec_sound redeemer.dec_sound)
qed

section \<open>TxOutput\<close>

record tx_output =
  out_value :: quantum
  locking_script :: bytes
  out_datum :: datum

definition encode_tx_output :: "tx_output \<Rightarrow> bytes" where
  "encode_tx_output out =
     encode_quantum (out_value out) @ encode_vec_bytes (locking_script out)
     @ encode_datum (out_datum out)"

definition decode_tx_output :: "tx_output decoder" where
  "decode_tx_output cursor =
     bindR (decode_quantum cursor) (\<lambda>(value, cursor).
     bindR (decode_vec_bytes cursor) (\<lambda>(locking_script, cursor).
     bindR (decode_datum cursor) (\<lambda>(datum, cursor).
       Inr (\<lparr>out_value = value, locking_script = locking_script, out_datum = datum\<rparr>, cursor))))"

definition wf_tx_output :: "tx_output \<Rightarrow> bool" where
  [wf_defs]: "wf_tx_output out \<longleftrightarrow> wf_vec (locking_script out) \<and> wf_datum (out_datum out)"

interpretation tx_output: canonical_codec encode_tx_output decode_tx_output wf_tx_output
proof unfold_locales
  fix x rest
  assume "wf_tx_output x"
  then show "decode_tx_output (encode_tx_output x @ rest) = Inr (x, rest)"
    by (simp add: encode_tx_output_def decode_tx_output_def wf_tx_output_def
        quantum.dec_enc vec.dec_enc datum.dec_enc)
next
  fix bs x rest
  assume "decode_tx_output bs = Inr (x, rest)"
  then show "wf_tx_output x \<and> bs = encode_tx_output x @ rest"
    by (auto simp: encode_tx_output_def decode_tx_output_def wf_tx_output_def split: prod.splits
        dest!: quantum.dec_sound vec.dec_sound datum.dec_sound)
qed

text \<open>
  Whatever the lengths are, a successful decoding of an encoded output keeps its value: the
  value is the fixed-width prefix of the encoding.
\<close>

lemma decode_encode_output_value:
  "decode_tx_output (encode_tx_output out) = Inr (out', rest) \<Longrightarrow> out_value out' = out_value out"
  by (auto simp: encode_tx_output_def decode_tx_output_def quantum.dec_enc split: prod.splits)

section \<open>Transaction\<close>

record transaction =
  tx_version :: u32
  inputs :: "tx_input list"
  outputs :: "tx_output list"
  locktime :: u64

definition encode_tx :: "transaction \<Rightarrow> bytes" where
  "encode_tx tx =
     to_be_bytes (tx_version tx)
     @ to_be_bytes (of_nat (length (inputs tx)) :: u32) @ concat (map encode_tx_input (inputs tx))
     @ to_be_bytes (of_nat (length (outputs tx)) :: u32) @ concat (map encode_tx_output (outputs tx))
     @ to_be_bytes (locktime tx)"

definition decode_tx :: "transaction decoder" where
  "decode_tx cursor =
     bindR (decode_be cursor) (\<lambda>(version, cursor).
     bindR (decode_be cursor) (\<lambda>(in_len :: u32, cursor).
     bindR (decode_n decode_tx_input (unat in_len) cursor) (\<lambda>(inputs, cursor).
     bindR (decode_be cursor) (\<lambda>(out_len :: u32, cursor).
     bindR (decode_n decode_tx_output (unat out_len) cursor) (\<lambda>(outputs, cursor).
     bindR (decode_be cursor) (\<lambda>(locktime, cursor).
       Inr (\<lparr>tx_version = version, inputs = inputs, outputs = outputs, locktime = locktime\<rparr>,
            cursor)))))))"

definition wf_tx :: "transaction \<Rightarrow> bool" where
  [wf_defs]: "wf_tx tx \<longleftrightarrow>
     length (inputs tx) < 2 ^ 32 \<and> list_all wf_tx_input (inputs tx) \<and>
     length (outputs tx) < 2 ^ 32 \<and> list_all wf_tx_output (outputs tx)"

interpretation tx: canonical_codec encode_tx decode_tx wf_tx
proof unfold_locales
  fix x rest
  assume "wf_tx x"
  then show "decode_tx (encode_tx x @ rest) = Inr (x, rest)"
    by (simp add: encode_tx_def decode_tx_def wf_tx_def u32.dec_enc u64.dec_enc
        tx_input.decode_n_enc tx_output.decode_n_enc)
next
  fix bs x rest
  assume "decode_tx bs = Inr (x, rest)"
  then show "wf_tx x \<and> bs = encode_tx x @ rest"
    by (auto simp: encode_tx_def decode_tx_def wf_tx_def split: prod.splits
        dest!: u32.dec_sound u64.dec_sound tx_input.decode_n_sound tx_output.decode_n_sound)
qed

definition txid :: "'vk crypto \<Rightarrow> transaction \<Rightarrow> hash256" where
  "txid C tx = digest C (encode_tx tx)"

definition is_coinbase :: "transaction \<Rightarrow> bool" where
  "is_coinbase tx \<longleftrightarrow>
     length (inputs tx) = 1 \<and> op_txid (previous_output (inputs tx ! 0)) = ZERO_HASH"

definition clear_unlocking :: "transaction \<Rightarrow> transaction" where
  "clear_unlocking tx = tx\<lparr>inputs := map (\<lambda>i. i\<lparr>unlocking_script := []\<rparr>) (inputs tx)\<rparr>"

definition sighash_preimage :: "transaction \<Rightarrow> usize \<Rightarrow> bytes" where
  "sighash_preimage tx input_index =
     encode_tx (clear_unlocking tx) @ to_be_bytes (of_nat input_index :: u32)"

definition sighash :: "'vk crypto \<Rightarrow> transaction \<Rightarrow> usize \<Rightarrow> hash256" where
  "sighash C tx input_index = digest C (sighash_preimage tx input_index)"

lemma wf_clear_unlocking: "wf_tx tx \<Longrightarrow> wf_tx (clear_unlocking tx)"
  by (auto simp: clear_unlocking_def wf_tx_def wf_tx_input_def wf_vec_def list_all_iff)

text \<open>
  The signed preimage determines the input index and every part of the transaction except the
  unlocking scripts.
\<close>

lemma sighash_preimage_inj:
  assumes "wf_tx a" "wf_tx b" "i < 2 ^ 32" "j < 2 ^ 32"
    and eq: "sighash_preimage a i = sighash_preimage b j"
  shows "clear_unlocking a = clear_unlocking b \<and> i = j"
proof -
  have "clear_unlocking a = clear_unlocking b
      \<and> to_be_bytes (of_nat i :: u32) = to_be_bytes (of_nat j :: u32)"
    by (rule tx.prefix_free [OF wf_clear_unlocking [OF assms(1)] wf_clear_unlocking [OF assms(2)]])
      (rule eq [unfolded sighash_preimage_def])
  then have "clear_unlocking a = clear_unlocking b" and "(of_nat i :: u32) = of_nat j"
    using from_to_be_simps(2) by metis+
  then have "unat (of_nat i :: u32) = unat (of_nat j :: u32)" by simp
  with assms(3,4) \<open>clear_unlocking a = clear_unlocking b\<close> show ?thesis by simp
qed

section \<open>Properties\<close>

text \<open>C21: the transaction encoding is canonical. A byte string decodes to a transaction exactly when
  it is the encoding of that transaction and the transaction is within the wire limits: nothing
  else decodes, nothing decodes twice, and trailing bytes are refused.\<close>

theorem transaction_codec_canonical:
  "decode_canonical decode_tx bs = Inr tx \<longleftrightarrow> wf_tx tx \<and> bs = encode_tx tx"
  by (rule tx.decode_canonical_iff)

text \<open>C22: a signature binds the whole transaction. If the hash does not collide on the two
  preimages, equal sighashes come from the same input index and from transactions that agree
  in everything but the unlocking scripts.\<close>

theorem sighash_binds_transaction:
  assumes "wf_tx a" "wf_tx b" "i < 2 ^ 32" "j < 2 ^ 32"
    and "inj_on (digest C) {sighash_preimage a i, sighash_preimage b j}"
    and "sighash C a i = sighash C b j"
  shows "i = j \<and> tx_version a = tx_version b \<and> outputs a = outputs b \<and> locktime a = locktime b \<and>
    map (\<lambda>inp. (previous_output inp, sequence inp, redeemer inp)) (inputs a)
      = map (\<lambda>inp. (previous_output inp, sequence inp, redeemer inp)) (inputs b)"
proof -
  from assms(5,6) have "sighash_preimage a i = sighash_preimage b j"
    by (auto simp: sighash_def dest: inj_onD)
  with sighash_preimage_inj [OF assms(1-4)] have eq: "clear_unlocking a = clear_unlocking b" "i = j"
    by simp_all
  from arg_cong [OF eq(1), of inputs]
  have "map (\<lambda>inp. inp\<lparr>unlocking_script := []\<rparr>) (inputs a) = map (\<lambda>inp. inp\<lparr>unlocking_script := []\<rparr>) (inputs b)"
    by (simp add: clear_unlocking_def)
  from arg_cong [OF this, of "map (\<lambda>inp. (previous_output inp, sequence inp, redeemer inp))"]
  have "map (\<lambda>inp. (previous_output inp, sequence inp, redeemer inp)) (inputs a)
      = map (\<lambda>inp. (previous_output inp, sequence inp, redeemer inp)) (inputs b)"
    by (simp add: comp_def)
  moreover from eq(1) have "tx_version a = tx_version b" "outputs a = outputs b" "locktime a = locktime b"
    by (metis clear_unlocking_def transaction.select_convs transaction.update_convs(2) transaction.surjective)+
  ultimately show ?thesis using eq(2) by simp
qed

theorem sighash_binds_transaction_witness:
  "let a = \<lparr>tx_version = 1, inputs = [\<lparr>previous_output = OutPoint_new 5 0, unlocking_script = [1, 2],
              sequence = 0, redeemer = None\<rparr>], outputs = [], locktime = 0\<rparr>
   in map (\<lambda>inp. (previous_output inp, sequence inp, redeemer inp)) (inputs a)
      = map (\<lambda>inp. (previous_output inp, sequence inp, redeemer inp)) (inputs (clear_unlocking a))"
proof -
  let ?a = "\<lparr>tx_version = 1, inputs = [\<lparr>previous_output = OutPoint_new 5 0, unlocking_script = [1, 2],
      sequence = 0, redeemer = None\<rparr>], outputs = [], locktime = 0\<rparr>"
  have wf: "wf_tx ?a" "wf_tx (clear_unlocking ?a)" by (simp_all add: wf_defs clear_unlocking_def)
  have "sighash_preimage ?a 0 = sighash_preimage (clear_unlocking ?a) 0"
    by (simp add: sighash_preimage_def clear_unlocking_def)
  then have "inj_on (digest flat_crypto) {sighash_preimage ?a 0, sighash_preimage (clear_unlocking ?a) 0}"
    "sighash flat_crypto ?a 0 = sighash flat_crypto (clear_unlocking ?a) 0"
    by (simp_all add: sighash_def)
  from sighash_binds_transaction [OF wf _ _ this] show ?thesis by simp
qed

end
