(* ===== verification/Core_Block.thy ===== *)
theory Core_Block
  imports Core_Tx
begin

text \<open>
  The block half of \<open>aurion-core\<close>: the Merkle tree (\<open>merkle.rs\<close>), \<open>BlockHeader\<close> and
  \<open>Block\<close> with their codecs and hashes (\<open>block.rs\<close>).
\<close>

section \<open>Merkle root\<close>

text \<open>One pass of the \<open>for\<close> loop over \<open>current_layer.chunks(2)\<close>.\<close>

fun merkle_layer :: "'vk crypto \<Rightarrow> hash256 list \<Rightarrow> hash256 list" where
  "merkle_layer C [] = []"
| "merkle_layer C [left] = [digest C (as_bytes left @ as_bytes left)]"
| "merkle_layer C (left # right # rest) =
     digest C (as_bytes left @ as_bytes right) # merkle_layer C rest"

lemma length_merkle_layer [simp]: "length (merkle_layer C xs) = (length xs + 1) div 2"
  by (induction C xs rule: merkle_layer.induct) auto

function merkle_loop :: "'vk crypto \<Rightarrow> hash256 list \<Rightarrow> hash256 list" where
  "merkle_loop C current_layer =
     (if length current_layer > 1 then merkle_loop C (merkle_layer C current_layer)
      else current_layer)"
  by pat_completeness auto
termination
  by (relation "measure (\<lambda>(C, xs). length xs)") auto

declare merkle_loop.simps [simp del]

definition compute_merkle_root :: "'vk crypto \<Rightarrow> hash256 list \<Rightarrow> hash256" where
  "compute_merkle_root C hashes =
     (if hashes = [] then ZERO_HASH else merkle_loop C hashes ! 0)"

lemma merkle_loop_single [simp]: "merkle_loop C [x] = [x]"
  by (subst merkle_loop.simps) simp

lemma merkle_loop_step:
  "length xs > 1 \<Longrightarrow> merkle_loop C xs = merkle_loop C (merkle_layer C xs)"
  by (subst merkle_loop.simps) simp

lemma merkle_loop_short: "length xs \<le> 1 \<Longrightarrow> merkle_loop C xs = xs"
  by (subst merkle_loop.simps) simp

lemma length_merkle_loop: "xs \<noteq> [] \<Longrightarrow> length (merkle_loop C xs) = 1"
proof (induction C xs rule: merkle_loop.induct)
  case (1 C xs)
  show ?case
  proof (cases "length xs > 1")
    case True
    then have "merkle_layer C xs \<noteq> []" by (simp flip: length_greater_0_conv)
    with 1 True show ?thesis by (simp add: merkle_loop_step)
  next
    case False
    with 1(2) show ?thesis by (cases xs) (auto simp: merkle_loop_short)
  qed
qed

lemma compute_merkle_root_single: "compute_merkle_root C [h] = h"
  by (simp add: compute_merkle_root_def merkle_loop_short)

subsection \<open>Binding\<close>

text \<open>The messages a layer, and then the whole computation, feeds to the hash.\<close>

fun layer_messages :: "hash256 list \<Rightarrow> bytes list" where
  "layer_messages [] = []"
| "layer_messages [l] = [as_bytes l @ as_bytes l]"
| "layer_messages (l # r # rest) = (as_bytes l @ as_bytes r) # layer_messages rest"

function merkle_messages :: "'vk crypto \<Rightarrow> hash256 list \<Rightarrow> bytes list" where
  "merkle_messages C xs =
     (if length xs > 1 then layer_messages xs @ merkle_messages C (merkle_layer C xs) else [])"
  by pat_completeness auto
termination
  by (relation "measure (\<lambda>(C, xs). length xs)") auto

declare merkle_messages.simps [simp del]

lemma merkle_layer_messages: "merkle_layer C xs = map (digest C) (layer_messages xs)"
  by (induction C xs rule: merkle_layer.induct) auto

lemma layer_messages_inj:
  "length xs = length ys \<Longrightarrow> layer_messages xs = layer_messages ys \<Longrightarrow> xs = ys"
proof (induction xs arbitrary: ys rule: layer_messages.induct)
  case (2 l)
  then obtain m where "ys = [m]" by (cases ys) auto
  with 2 show ?case by simp
next
  case (3 l r rest)
  then obtain l' r' rest' where "ys = l' # r' # rest'"
    by (cases ys; cases "tl ys") auto
  with 3 show ?case by simp
qed simp

lemma length_layer_messages [simp]: "length (layer_messages xs) = (length xs + 1) div 2"
  by (induction xs rule: layer_messages.induct) auto

lemma map_inj_on_eq:
  "inj_on f (set xs \<union> set ys) \<Longrightarrow> map f xs = map f ys \<Longrightarrow> xs = ys"
  by (metis map_inj_on)

lemma merkle_loop_binding:
  assumes "length xs = length ys"
    and "inj_on (digest C) (set (merkle_messages C xs) \<union> set (merkle_messages C ys))"
    and "merkle_loop C xs = merkle_loop C ys"
  shows "xs = ys"
  using assms
proof (induction C xs arbitrary: ys rule: merkle_loop.induct)
  case (1 C xs)
  show ?case
  proof (cases "length xs > 1")
    case False
    with 1 show ?thesis by (simp add: merkle_loop_short)
  next
    case True
    then have split: "merkle_messages C zs = layer_messages zs @ merkle_messages C (merkle_layer C zs)"
      if "length zs = length xs" for zs
      using that by (subst merkle_messages.simps) simp
    have inj: "inj_on (digest C) (set (layer_messages xs) \<union> set (layer_messages ys))"
      and inj': "inj_on (digest C) (set (merkle_messages C (merkle_layer C xs))
                  \<union> set (merkle_messages C (merkle_layer C ys)))"
      using "1.prems"(1,2) by (auto simp: split intro: inj_on_subset)
    have "merkle_layer C xs = merkle_layer C ys"
      by (rule "1.IH" [OF True _ inj'])
        (use True "1.prems" in \<open>simp_all add: merkle_loop_step\<close>)
    then have "layer_messages xs = layer_messages ys"
      by (intro map_inj_on_eq [OF inj]) (simp add: merkle_layer_messages)
    with "1.prems"(1) show ?thesis by (rule layer_messages_inj)
  qed
qed

lemma compute_merkle_root_binding:
  assumes "length xs = length ys"
    and "inj_on (digest C) (set (merkle_messages C xs) \<union> set (merkle_messages C ys))"
    and "compute_merkle_root C xs = compute_merkle_root C ys"
  shows "xs = ys"
proof (cases "xs = []")
  case False
  with assms(1) have "ys \<noteq> []" by auto
  with False assms(3) have "merkle_loop C xs = merkle_loop C ys"
    using length_merkle_loop [of xs C] length_merkle_loop [of ys C]
    by (auto simp: compute_merkle_root_def length_Suc_conv)
  with assms(1,2) show ?thesis by (rule merkle_loop_binding)
qed (use assms(1) in simp)

subsection \<open>Odd layers are padded with their last element\<close>

lemma merkle_layer_dup_last:
  "odd (length xs) \<Longrightarrow> merkle_layer C (xs @ [last xs]) = merkle_layer C xs"
  by (induction C xs rule: merkle_layer.induct) auto

lemma compute_merkle_root_dup_last:
  assumes "odd (length xs)" "length xs > 1"
  shows "compute_merkle_root C (xs @ [last xs]) = compute_merkle_root C xs"
proof -
  have "merkle_loop C (xs @ [last xs]) = merkle_loop C (merkle_layer C (xs @ [last xs]))"
    by (rule merkle_loop_step) (use assms in auto)
  also have "\<dots> = merkle_loop C xs"
    using assms by (simp add: merkle_layer_dup_last merkle_loop_step [of xs])
  finally show ?thesis using assms by (auto simp: compute_merkle_root_def)
qed

section \<open>BlockHeader\<close>

record block_header =
  version :: u32
  prev_block_hash :: hash256
  merkle_root :: hash256
  timestamp :: u64
  bits :: u32
  nonce :: u64
  height :: u64

definition encode_header :: "block_header \<Rightarrow> bytes" where
  "encode_header h =
     to_be_bytes (version h) @ as_bytes (prev_block_hash h) @ as_bytes (merkle_root h)
     @ to_be_bytes (timestamp h) @ to_be_bytes (bits h) @ to_be_bytes (nonce h)
     @ to_be_bytes (height h)"

definition decode_header :: "block_header decoder" where
  "decode_header cursor =
     bindR (decode_be cursor) (\<lambda>(version, cursor).
     bindR (decode_hash256 cursor) (\<lambda>(prev_block_hash, cursor).
     bindR (decode_hash256 cursor) (\<lambda>(merkle_root, cursor).
     if length cursor < 28 then Inl UnexpectedEof
     else
       let (ts_bytes, rest) = (take 8 cursor, drop 8 cursor);
           (bits_bytes, rest) = (take 4 rest, drop 4 rest);
           (nonce_bytes, rest) = (take 8 rest, drop 8 rest);
           (height_bytes, rest) = (take 8 rest, drop 8 rest)
       in Inr (\<lparr>version = version, prev_block_hash = prev_block_hash, merkle_root = merkle_root,
                timestamp = from_be_bytes ts_bytes, bits = from_be_bytes bits_bytes,
                nonce = from_be_bytes nonce_bytes, height = from_be_bytes height_bytes\<rparr>, rest))))"

lemma length_encode_header: "length (encode_header h) = 96"
  by (simp add: encode_header_def)

interpretation header: canonical_codec encode_header decode_header "\<lambda>_. True"
proof unfold_locales
  fix x rest
  show "decode_header (encode_header x @ rest) = Inr (x, rest)"
    by (simp add: encode_header_def decode_header_def u32.dec_enc
        hash256.dec_enc [unfolded encode_hash256_def])
next
  fix bs x rest
  assume "decode_header bs = Inr (x, rest)"
  then show "True \<and> bs = encode_header x @ rest"
    by (auto simp: encode_header_def decode_header_def Let_def encode_hash256_def
        take_drop_rejoin split: prod.splits if_splits dest!: u32.dec_sound hash256.dec_sound)
qed

definition header_hash :: "'vk crypto \<Rightarrow> block_header \<Rightarrow> hash256" where
  "header_hash C h = digest C (encode_header h)"

section \<open>Block\<close>

record block =
  header :: block_header
  transactions :: "transaction list"

definition Block_new :: "block_header \<Rightarrow> transaction list \<Rightarrow> block" where
  "Block_new hdr txs = \<lparr>header = hdr, transactions = txs\<rparr>"

definition block_hash :: "'vk crypto \<Rightarrow> block \<Rightarrow> hash256" where
  "block_hash C b = header_hash C (header b)"

definition calculate_merkle_root :: "'vk crypto \<Rightarrow> block \<Rightarrow> hash256" where
  "calculate_merkle_root C b = compute_merkle_root C (map (txid C) (transactions b))"

definition encode_block :: "block \<Rightarrow> bytes" where
  "encode_block b =
     encode_header (header b) @ to_be_bytes (of_nat (length (transactions b)) :: u32)
     @ concat (map encode_tx (transactions b))"

definition decode_block :: "block decoder" where
  "decode_block cursor =
     bindR (decode_header cursor) (\<lambda>(header, cursor).
     bindR (decode_be cursor) (\<lambda>(tx_count :: u32, cursor).
     bindR (decode_n decode_tx (unat tx_count) cursor) (\<lambda>(transactions, cursor).
       Inr (\<lparr>header = header, transactions = transactions\<rparr>, cursor))))"

definition wf_block :: "block \<Rightarrow> bool" where
  [wf_defs]: "wf_block b \<longleftrightarrow> length (transactions b) < 2 ^ 32 \<and> list_all wf_tx (transactions b)"

interpretation block: canonical_codec encode_block decode_block wf_block
proof unfold_locales
  fix x rest
  assume "wf_block x"
  then show "decode_block (encode_block x @ rest) = Inr (x, rest)"
    by (simp add: encode_block_def decode_block_def wf_block_def header.dec_enc u32.dec_enc
        tx.decode_n_enc)
next
  fix bs x rest
  assume "decode_block bs = Inr (x, rest)"
  then show "wf_block x \<and> bs = encode_block x @ rest"
    by (auto simp: encode_block_def decode_block_def wf_block_def split: prod.splits
        dest!: header.dec_sound u32.dec_sound tx.decode_n_sound)
qed

section \<open>What a hash commits to\<close>

lemma header_bound_by_hash:
  assumes "inj_on (digest C) M" "encode_header (header a) \<in> M" "encode_header (header b) \<in> M"
    and "block_hash C a = block_hash C b"
  shows "header a = header b"
proof -
  have "encode_header (header a) = encode_header (header b)"
    using inj_onD [OF assms(1) _ assms(2,3)] assms(4) by (simp add: block_hash_def header_hash_def)
  then show ?thesis by (auto dest: header.enc_inj [rotated 2])
qed

lemma transactions_bound_by_root:
  assumes wf: "wf_block a" "wf_block b" and len: "length (transactions a) = length (transactions b)"
    and root: "calculate_merkle_root C a = calculate_merkle_root C b"
    and inj: "inj_on (digest C) M"
    and M: "\<And>x. x \<in> {a, b} \<Longrightarrow> encode_tx ` set (transactions x) \<subseteq> M"
      "\<And>x. x \<in> {a, b} \<Longrightarrow> set (merkle_messages C (map (txid C) (transactions x))) \<subseteq> M"
  shows "transactions a = transactions b"
proof -
  have "inj_on (digest C) (set (merkle_messages C (map (txid C) (transactions a)))
      \<union> set (merkle_messages C (map (txid C) (transactions b))))"
    by (rule inj_on_subset [OF inj]) (use M(2) in auto)
  with root len have "map (txid C) (transactions a) = map (txid C) (transactions b)"
    by (intro compute_merkle_root_binding) (simp_all add: calculate_merkle_root_def)
  then have "map (digest C) (map encode_tx (transactions a)) = map (digest C) (map encode_tx (transactions b))"
    by (simp add: txid_def [abs_def] comp_def)
  moreover have "inj_on (digest C) (set (map encode_tx (transactions a)) \<union> set (map encode_tx (transactions b)))"
    by (rule inj_on_subset [OF inj]) (use M(1) in auto)
  ultimately have "map encode_tx (transactions a) = map encode_tx (transactions b)"
    by (rule map_inj_on_eq [rotated])
  moreover have "inj_on encode_tx (set (transactions a) \<union> set (transactions b))"
  proof (rule inj_onI)
    fix x y
    assume "x \<in> set (transactions a) \<union> set (transactions b)" "y \<in> set (transactions a) \<union> set (transactions b)"
    then have "wf_tx x" "wf_tx y" using wf by (auto simp: wf_block_def list_all_iff)
    then show "x = y" if "encode_tx x = encode_tx y" using that by (rule tx.enc_inj)
  qed
  ultimately show ?thesis by (rule map_inj_on_eq [rotated])
qed

section \<open>Properties\<close>

text \<open>The block encoding is canonical: a byte string decodes to a block exactly when it is the
  encoding of that block and the block is within the wire limits.\<close>

theorem block_codec_canonical:
  "decode_canonical decode_block bs = Inr b \<longleftrightarrow> wf_block b \<and> bs = encode_block b"
  by (rule block.decode_canonical_iff)

text \<open>A block hash commits to the whole block. For blocks whose headers carry their true Merkle
  root and that have the same number of transactions, equal block hashes imply equal blocks, as
  long as the hash does not collide on the messages hashed along the way.\<close>

theorem block_hash_binds_block:
  assumes "wf_block a" "wf_block b" "length (transactions a) = length (transactions b)"
    and "merkle_root (header a) = calculate_merkle_root C a"
    and "merkle_root (header b) = calculate_merkle_root C b"
    and "inj_on (digest C) (\<Union>x\<in>{a, b}. {encode_header (header x)} \<union> encode_tx ` set (transactions x)
           \<union> set (merkle_messages C (map (txid C) (transactions x))))"
    and "block_hash C a = block_hash C b"
  shows "a = b"
proof -
  from assms(7) have h: "header a = header b" by (intro header_bound_by_hash [OF assms(6)]) simp_all
  with assms(4,5) have "calculate_merkle_root C a = calculate_merkle_root C b" by simp
  then have "transactions a = transactions b"
    by (intro transactions_bound_by_root [OF assms(1-3) _ assms(6)]) auto
  with h show ?thesis by simp
qed

theorem block_hash_binds_block_witness:
  "\<exists>a b :: block. length (transactions a) = 1 \<and> block_hash length_crypto a = block_hash length_crypto b \<and> a = b"
proof -
  let ?t = "\<lparr>tx_version = 1, inputs = [], outputs = [], locktime = 0\<rparr> :: transaction"
  let ?b = "\<lparr>header = \<lparr>version = 1, prev_block_hash = 0, merkle_root = 20, timestamp = 0, bits = 0,
      nonce = 0, height = 7\<rparr>, transactions = [?t]\<rparr> :: block"
  have len: "length (encode_tx ?t) = 20" "length (encode_header (header ?b)) = 96"
    by (simp_all add: encode_tx_def encode_header_def)
  have root: "merkle_root (header ?b) = calculate_merkle_root length_crypto ?b"
    using len(1) by (simp add: calculate_merkle_root_def compute_merkle_root_single txid_def digest_def
        length_crypto_def)
  have msgs: "merkle_messages length_crypto (map (txid length_crypto) (transactions ?b)) = []"
    by (simp add: merkle_messages.simps)
  have "digest length_crypto (encode_tx ?t) = 20" "digest length_crypto (encode_header (header ?b)) = 96"
    using len by (simp_all add: digest_def length_crypto_def)
  then have "inj_on (digest length_crypto) (\<Union>x\<in>{?b, ?b}. {encode_header (header x)}
      \<union> encode_tx ` set (transactions x)
      \<union> set (merkle_messages length_crypto (map (txid length_crypto) (transactions x))))"
    using msgs by (simp add: inj_on_def)
  moreover have "wf_block ?b" by (simp add: wf_block_def wf_tx_def)
  ultimately have "?b = ?b" by (intro block_hash_binds_block [of _ _ length_crypto]) (rule root refl | assumption)+
  then show ?thesis by (intro exI [of _ ?b]) simp
qed

text \<open>The Merkle tree is malleable. A list of odd length and the same list with its last element
  repeated have the same root, so the block hash alone does not fix the number of transactions.\<close>

theorem merkle_root_duplicate_last:
  assumes "odd (length xs)" "length xs > 1"
  shows "compute_merkle_root C (xs @ [last xs]) = compute_merkle_root C xs"
  using assms by (rule compute_merkle_root_dup_last)

theorem merkle_root_duplicate_last_witness:
  "compute_merkle_root length_crypto [1, 2, 3, 3] = compute_merkle_root length_crypto [1, 2, 3]"
  using merkle_root_duplicate_last [of "[1, 2, 3]" length_crypto] by simp

end
