(* ===== verification/Consensus.thy ===== *)
theory Consensus
  imports Core_Block
begin

text \<open>
  The crate \<open>aurion-consensus\<close>: compact difficulty targets and the proof-of-work check
  (\<open>difficulty.rs\<close>), the emission schedule (\<open>subsidy.rs\<close>), the genesis block
  (\<open>genesis.rs\<close>) and the structural verification of a block (\<open>verification.rs\<close>).
\<close>

section \<open>Errors\<close>

datatype consensus_error =
    ProofOfWorkExceeded string string
  | InvalidCompactBits u32
  | EmptyBlock
  | MissingCoinbase
  | MultipleCoinbase
  | MerkleRootMismatch hash256 hash256
  | SubsidyExceeded u128 u128
  | HeightMismatch u64 u64

fun consensus_error_display :: "consensus_error \<Rightarrow> string" where
  "consensus_error_display (ProofOfWorkExceeded hash target) =
     ''proof of work target exceeded: hash '' @ hash @ '' > target '' @ target"
| "consensus_error_display (InvalidCompactBits bts) =
     ''invalid difficulty compact bits: 0x'' @ hex_bytes (to_be_bytes bts)"
| "consensus_error_display EmptyBlock = ''empty block transactions''"
| "consensus_error_display MissingCoinbase = ''first transaction in block must be coinbase''"
| "consensus_error_display MultipleCoinbase =
     ''multiple coinbase transactions detected in block''"
| "consensus_error_display (MerkleRootMismatch expected actual) =
     ''merkle root mismatch: expected '' @ hash256_display expected
     @ '', calculated '' @ hash256_display actual"
| "consensus_error_display (SubsidyExceeded allowed claimed) =
     ''coinbase subsidy exceeded: max allowed '' @ show_nat (unat allowed)
     @ '', claimed '' @ show_nat (unat claimed)"
| "consensus_error_display (HeightMismatch header_height expected_height) =
     ''block height mismatch: header height '' @ show_nat (unat header_height)
     @ '', expected '' @ show_nat (unat expected_height)"

section \<open>Difficulty\<close>

definition MAX_TARGET_BITS :: u32 where
  "MAX_TARGET_BITS = 0x1f00ffff"

definition compact_exponent :: "u32 \<Rightarrow> nat" where
  "compact_exponent bts = unat (drop_bit 24 bts)"

definition compact_mantissa :: "u32 \<Rightarrow> u32" where
  "compact_mantissa bts = bts AND 0x007fffff"

definition compact_to_target :: "u32 \<Rightarrow> (consensus_error, bytes) result" where
  "compact_to_target bts =
     (let exponent = compact_exponent bts; mantissa = compact_mantissa bts in
      if exponent > 32 \<or> (exponent < 3 \<and> mantissa \<noteq> 0) then Inl (InvalidCompactBits bts)
      else
        let target = replicate 32 0 in
        if exponent = 0 then Inr target
        else
          let m_bytes = to_be_bytes mantissa; shift_index = 32 - exponent in
          if shift_index + 3 > 32 then Inl (InvalidCompactBits bts)
          else Inr (target[shift_index := m_bytes ! 1,
                           shift_index + 1 := m_bytes ! 2,
                           shift_index + 2 := m_bytes ! 3]))"

definition check_pow :: "hash256 \<Rightarrow> u32 \<Rightarrow> (consensus_error, unit) result" where
  "check_pow hash bts =
     bindR (compact_to_target bts) (\<lambda>target.
       if lex_cmp (as_bytes hash) target = Greater
       then Inl (ProofOfWorkExceeded (hash256_display hash) (hex_bytes target))
       else Inr ())"

text \<open>The integer a compact encoding stands for.\<close>

definition target_value :: "u32 \<Rightarrow> nat" where
  "target_value bts =
     (if compact_exponent bts = 0 then 0
      else unat (compact_mantissa bts) * 256 ^ (compact_exponent bts - 3))"

definition compact_valid :: "u32 \<Rightarrow> bool" where
  "compact_valid bts \<longleftrightarrow>
     (compact_exponent bts = 0 \<and> compact_mantissa bts = 0) \<or>
     (3 \<le> compact_exponent bts \<and> compact_exponent bts \<le> 32)"

lemma replicate_update3:
  assumes "i + 3 \<le> n"
  shows "(replicate n x)[i := a, i + 1 := b, i + 2 := c] =
         replicate i x @ [a, b, c] @ replicate (n - i - 3) x"
proof -
  have "n = i + (3 + (n - i - 3))" using assms by simp
  then have "replicate n x = replicate i x @ replicate 3 x @ replicate (n - i - 3) x"
    by (metis replicate_add)
  then show ?thesis
    by (simp add: list_update_append numeral_3_eq_3)
qed

lemma be_nat_replicate_0 [simp]: "be_nat (replicate n 0) = 0"
  by (induction n) (simp_all add: be_nat_Cons)

lemma compact_mantissa_bound: "unat (compact_mantissa bts) < 2 ^ 23"
proof -
  have "compact_mantissa bts \<le> 0x007fffff"
    by (simp add: compact_mantissa_def word_and_le1)
  then show ?thesis by (simp add: word_le_nat_alt)
qed

lemma mantissa_bytes:
  "to_be_bytes (compact_mantissa bts) = 0 # tl (to_be_bytes (compact_mantissa bts))"
  "be_nat [to_be_bytes (compact_mantissa bts) ! 1, to_be_bytes (compact_mantissa bts) ! 2,
           to_be_bytes (compact_mantissa bts) ! 3] = unat (compact_mantissa bts)"
proof -
  let ?m = "compact_mantissa bts"
  obtain a b c d where bs: "to_be_bytes ?m = [a, b, c, d]"
    using length4_conv [of "to_be_bytes ?m"] by auto
  have "unat a * 256 ^ 3 + be_nat [b, c, d] = unat ?m"
    using be_nat_to_be_bytes [of 4 ?m] by (simp add: bs be_nat_Cons)
  with compact_mantissa_bound [of bts] have "unat a = 0" by simp
  then have a: "a = 0" by (simp add: unat_eq_0)
  from bs a show "to_be_bytes ?m = 0 # tl (to_be_bytes ?m)" by simp
  from bs a be_nat_to_be_bytes [of 4 ?m]
  show "be_nat [to_be_bytes ?m ! 1, to_be_bytes ?m ! 2, to_be_bytes ?m ! 3] = unat ?m"
    by (simp add: be_nat_Cons)
qed

lemma compact_to_target_ok:
  assumes "3 \<le> compact_exponent bts" "compact_exponent bts \<le> 32"
  shows "compact_to_target bts =
    Inr (replicate (32 - compact_exponent bts) 0
         @ [to_be_bytes (compact_mantissa bts) ! 1, to_be_bytes (compact_mantissa bts) ! 2,
            to_be_bytes (compact_mantissa bts) ! 3]
         @ replicate (compact_exponent bts - 3) 0)"
  using assms replicate_update3 [of "32 - compact_exponent bts" 32 "0 :: u8"]
  by (simp add: compact_to_target_def Let_def)

lemma compact_to_target_cases:
  "compact_to_target bts = Inr t \<longleftrightarrow>
     compact_valid bts \<and> length t = 32 \<and> be_nat t = target_value bts"
  "compact_to_target bts = Inl e \<longleftrightarrow> \<not> compact_valid bts \<and> e = InvalidCompactBits bts"
proof -
  have ok: "\<exists>u. compact_to_target bts = Inr u \<and> length u = 32 \<and> be_nat u = target_value bts"
    if "compact_valid bts"
  proof (cases "compact_exponent bts = 0")
    case True
    with that show ?thesis
      by (auto simp: compact_valid_def compact_to_target_def Let_def target_value_def)
  next
    case False
    with that have r: "3 \<le> compact_exponent bts" "compact_exponent bts \<le> 32"
      by (auto simp: compact_valid_def)
    let ?m = "to_be_bytes (compact_mantissa bts)"
    let ?u = "replicate (32 - compact_exponent bts) 0 @ [?m ! 1, ?m ! 2, ?m ! 3]
              @ replicate (compact_exponent bts - 3) 0"
    have "be_nat ?u = be_nat [?m ! 1, ?m ! 2, ?m ! 3] * 256 ^ (compact_exponent bts - 3)"
      by (simp only: be_nat_append be_nat_replicate_0 length_replicate)
    then have "be_nat ?u = target_value bts"
      using False by (simp only: mantissa_bytes(2)) (simp add: target_value_def)
    with compact_to_target_ok [OF r] r show ?thesis by auto
  qed
  have bad: "compact_to_target bts = Inl (InvalidCompactBits bts)" if "\<not> compact_valid bts"
    using that by (auto simp: compact_valid_def compact_to_target_def Let_def)
  have uniq: "t = u" if "length t = 32" "length u = 32" "be_nat t = be_nat u" for t u
    using that nat_be_be_nat [of t] nat_be_be_nat [of u] by simp
  show "compact_to_target bts = Inr t \<longleftrightarrow>
     compact_valid bts \<and> length t = 32 \<and> be_nat t = target_value bts"
    using ok bad uniq by (cases "compact_valid bts") fastforce+
  show "compact_to_target bts = Inl e \<longleftrightarrow> \<not> compact_valid bts \<and> e = InvalidCompactBits bts"
    using ok bad by (cases "compact_valid bts") auto
qed

lemma check_pow_ok_iff:
  "check_pow hash bts = Inr () \<longleftrightarrow> compact_valid bts \<and> unat hash \<le> target_value bts"
proof (cases "compact_to_target bts")
  case (Inl e)
  then have "\<not> compact_valid bts" by (simp add: compact_to_target_cases(2))
  with Inl show ?thesis by (simp add: check_pow_def)
next
  case (Inr t)
  then have v: "compact_valid bts" "length t = 32" "be_nat t = target_value bts"
    by (simp_all add: compact_to_target_cases(1))
  have "be_nat (as_bytes hash) = unat hash"
    by (simp add: as_bytes_def be_nat_to_be_bytes [of 32])
  with v Inr show ?thesis
    by (auto simp: check_pow_def lex_cmp_be_nat)
qed

section \<open>Emission schedule\<close>

definition QUANTA_PER_AUR :: u128 where
  "QUANTA_PER_AUR = 100000000"

definition MAX_TOTAL_SUPPLY_AUR :: u128 where
  "MAX_TOTAL_SUPPLY_AUR = 66000000"

definition MAX_TOTAL_SUPPLY_QUANTA :: quantum where
  "MAX_TOTAL_SUPPLY_QUANTA = Quantum (saturating_mul MAX_TOTAL_SUPPLY_AUR QUANTA_PER_AUR)"

definition CREATOR_ALLOCATION_AUR :: u128 where
  "CREATOR_ALLOCATION_AUR = 19800000"

definition DEV_ALLOCATION_AUR :: u128 where
  "DEV_ALLOCATION_AUR = 6600000"

definition TOTAL_GENESIS_PREMINE_QUANTA :: quantum where
  "TOTAL_GENESIS_PREMINE_QUANTA =
     Quantum (saturating_mul (saturating_add CREATOR_ALLOCATION_AUR DEV_ALLOCATION_AUR)
                QUANTA_PER_AUR)"

definition INITIAL_SUBSIDY_AUR :: u128 where
  "INITIAL_SUBSIDY_AUR = 99"

definition INITIAL_SUBSIDY_QUANTA :: quantum where
  "INITIAL_SUBSIDY_QUANTA = Quantum (saturating_mul INITIAL_SUBSIDY_AUR QUANTA_PER_AUR)"

definition SUBSIDY_HALVING_INTERVAL :: u64 where
  "SUBSIDY_HALVING_INTERVAL = 200000"

definition MAX_HALVINGS :: u64 where
  "MAX_HALVINGS = 64"

text \<open>The alias kept for older callers.\<close>

definition INITIAL_SUBSIDY :: u128 where
  "INITIAL_SUBSIDY = raw INITIAL_SUBSIDY_QUANTA"

definition calculate_block_subsidy :: "u64 \<Rightarrow> quantum" where
  "calculate_block_subsidy h =
     (let halvings = (case checked_div h SUBSIDY_HALVING_INTERVAL of
                        None \<Rightarrow> 0 | Some q \<Rightarrow> q) in
      if MAX_HALVINGS \<le> halvings then QUANTUM_ZERO
      else Quantum (drop_bit (unat halvings) (raw INITIAL_SUBSIDY_QUANTA)))"

lemma monetary_constants:
  "amount MAX_TOTAL_SUPPLY_QUANTA = 6600000000000000"
  "amount TOTAL_GENESIS_PREMINE_QUANTA = 2640000000000000"
  "amount INITIAL_SUBSIDY_QUANTA = 9900000000"
  by (simp_all add: MAX_TOTAL_SUPPLY_QUANTA_def TOTAL_GENESIS_PREMINE_QUANTA_def
      INITIAL_SUBSIDY_QUANTA_def saturating_mul_def saturating_add_def QUANTA_PER_AUR_def
      MAX_TOTAL_SUPPLY_AUR_def CREATOR_ALLOCATION_AUR_def DEV_ALLOCATION_AUR_def
      INITIAL_SUBSIDY_AUR_def)

text \<open>The schedule on natural numbers, as the specification writes it.\<close>

definition subsidy_spec :: "nat \<Rightarrow> nat" where
  "subsidy_spec h = (if h div 200000 < 64 then 9900000000 div 2 ^ (h div 200000) else 0)"

lemma amount_calculate_block_subsidy:
  "amount (calculate_block_subsidy h) = subsidy_spec (unat h)"
proof -
  have u: "unat (h div 200000) = unat h div 200000"
    by (simp add: unat_div)
  have "unat (drop_bit n (raw INITIAL_SUBSIDY_QUANTA)) = 9900000000 div 2 ^ n" for n
    by (simp only: unat_drop_bit_eq monetary_constants(3)) (simp only: drop_bit_eq_div)
  then show ?thesis
    by (simp add: calculate_block_subsidy_def checked_div_def SUBSIDY_HALVING_INTERVAL_def
        MAX_HALVINGS_def subsidy_spec_def u word_le_nat_alt Let_def)
qed

lemma subsidy_spec_antimono: "h \<le> h' \<Longrightarrow> subsidy_spec h' \<le> subsidy_spec h"
proof -
  assume "h \<le> h'"
  then have le: "h div 200000 \<le> h' div 200000" by (rule div_le_mono)
  then have "(2 :: nat) ^ (h div 200000) \<le> 2 ^ (h' div 200000)" by (simp add: power_increasing)
  then have "(9900000000 :: nat) div 2 ^ (h' div 200000) \<le> 9900000000 div 2 ^ (h div 200000)"
    by (intro div_le_mono2) simp_all
  with le show ?thesis by (simp add: subsidy_spec_def)
qed

text \<open>Emission by eras of 200000 blocks.\<close>

lemma subsidy_spec_era:
  "k < 64 \<Longrightarrow> (\<Sum>h = k * 200000..<k * 200000 + 200000. subsidy_spec h)
             = 200000 * (9900000000 div 2 ^ k)"
proof -
  assume "k < 64"
  have "subsidy_spec h = 9900000000 div 2 ^ k" if "h \<in> {k * 200000..<k * 200000 + 200000}" for h
  proof -
    from that have "h div 200000 = k" by (auto intro: div_nat_eqI)
    with \<open>k < 64\<close> show ?thesis by (simp add: subsidy_spec_def)
  qed
  then show ?thesis by simp
qed

lemma emission_all_eras: "(\<Sum>h<12800000. subsidy_spec h) = 3959999998000000"
proof -
  have "(\<Sum>h<64 * 200000. subsidy_spec h)
      = (\<Sum>k<64. \<Sum>h = k * 200000..<k * 200000 + 200000. subsidy_spec h)"
    by (rule sum.nat_group [symmetric])
  also have "\<dots> = (\<Sum>k<64. 200000 * (9900000000 div 2 ^ k))"
    by (rule sum.cong) (simp_all add: subsidy_spec_era)
  also have "\<dots> = sum_list (map (\<lambda>k. 200000 * (9900000000 div 2 ^ k)) [0..<64])"
    by (simp only: interv_sum_list_conv_sum_set_nat set_upt atLeast0LessThan)
  also have "\<dots> = 3959999998000000"
    by (simp add: upt_conv_Cons)
  finally show ?thesis by simp
qed

lemma emission_bound: "(\<Sum>h\<in>A. subsidy_spec h) \<le> 3959999998000000" if "finite A"
proof -
  have "(\<Sum>h\<in>A. subsidy_spec h) = (\<Sum>h\<in>A \<inter> {..<12800000}. subsidy_spec h)"
  proof (rule sum.mono_neutral_right [OF that])
    show "\<forall>h\<in>A - A \<inter> {..<12800000}. subsidy_spec h = 0"
    proof
      fix h assume "h \<in> A - A \<inter> {..<12800000}"
      then have "12800000 \<le> h" by auto
      then have "64 \<le> h div 200000" by (simp add: less_eq_div_iff_mult_less_eq)
      then show "subsidy_spec h = 0" by (simp add: subsidy_spec_def)
    qed
  qed auto
  also have "\<dots> \<le> (\<Sum>h<12800000. subsidy_spec h)"
    by (rule sum_mono2) auto
  finally show ?thesis by (simp add: emission_all_eras)
qed

section \<open>Genesis\<close>

definition GENESIS_TIMESTAMP :: u64 where
  "GENESIS_TIMESTAMP = 1773446400"

definition GENESIS_PAYLOAD :: bytes where
  "GENESIS_PAYLOAD = str_bytes ''Aurion: Sovereign Monolithic Digital Asset - Pure Truth''"

definition GENESIS_NONCE :: u64 where
  "GENESIS_NONCE = 124776"

definition genesis_coinbase :: transaction where
  "genesis_coinbase =
     \<lparr>tx_version = 1,
      inputs = [\<lparr>previous_output = OutPoint_new ZERO_HASH 0xFFFFFFFF,
                 unlocking_script = GENESIS_PAYLOAD, sequence = 0xFFFFFFFF, redeemer = None\<rparr>],
      outputs = [\<lparr>out_value = Quantum (saturating_mul CREATOR_ALLOCATION_AUR QUANTA_PER_AUR),
                  locking_script = [0x51], out_datum = DatumNone\<rparr>,
                 \<lparr>out_value = Quantum (saturating_mul DEV_ALLOCATION_AUR QUANTA_PER_AUR),
                  locking_script = [0x51], out_datum = DatumNone\<rparr>],
      locktime = 0\<rparr>"

definition create_genesis_block :: "'vk crypto \<Rightarrow> block" where
  "create_genesis_block C =
     \<lparr>header = \<lparr>version = 1, prev_block_hash = ZERO_HASH, merkle_root = txid C genesis_coinbase,
                timestamp = GENESIS_TIMESTAMP, bits = MAX_TARGET_BITS, nonce = GENESIS_NONCE,
                height = 0\<rparr>,
      transactions = [genesis_coinbase]\<rparr>"

section \<open>Structural verification\<close>

definition coinbase_output_total :: "transaction \<Rightarrow> u128" where
  "coinbase_output_total coinbase =
     foldl (\<lambda>acc out. saturating_add acc (raw (out_value out))) 0 (outputs coinbase)"

definition allowed_subsidy :: "u64 \<Rightarrow> u128" where
  "allowed_subsidy expected_height =
     (if expected_height = 0 then raw TOTAL_GENESIS_PREMINE_QUANTA
      else raw (calculate_block_subsidy expected_height))"

definition verify_block_structure ::
    "'vk crypto \<Rightarrow> block \<Rightarrow> u64 \<Rightarrow> (consensus_error, unit) result" where
  "verify_block_structure C block expected_height = (case transactions block of
     [] \<Rightarrow> Inl EmptyBlock
   | coinbase # others \<Rightarrow>
       if height (header block) \<noteq> expected_height
       then Inl (HeightMismatch (height (header block)) expected_height)
       else
       bindR (if height (header block) > 0
              then check_pow (block_hash C block) (bits (header block)) else Inr ()) (\<lambda>_.
       let calculated_root = calculate_merkle_root C block in
       if merkle_root (header block) \<noteq> calculated_root
       then Inl (MerkleRootMismatch (merkle_root (header block)) calculated_root)
       else if \<not> is_coinbase coinbase then Inl MissingCoinbase
       else if list_ex is_coinbase others then Inl MultipleCoinbase
       else
         let total_coinbase_output = coinbase_output_total coinbase;
             allowed = allowed_subsidy expected_height in
         if total_coinbase_output > allowed
         then Inl (SubsidyExceeded allowed total_coinbase_output)
         else Inr ()))"

definition output_total :: "transaction \<Rightarrow> nat" where
  "output_total tx = sum_list (map (\<lambda>out. amount (out_value out)) (outputs tx))"

lemma foldl_saturating_total:
  "unat (foldl (\<lambda>acc out. saturating_add acc (raw (out_value out))) a outs)
   = min (unat a + sum_list (map (\<lambda>out. amount (out_value out)) outs)) (2 ^ 128 - 1)"
proof (induction outs arbitrary: a)
  case Nil
  then show ?case using unat_bound [of a] by simp
next
  case (Cons out outs)
  then show ?case by (simp add: unat_saturating_add)
qed

lemma unat_coinbase_output_total:
  "unat (coinbase_output_total tx) = min (output_total tx) (2 ^ 128 - 1)"
  by (simp add: coinbase_output_total_def foldl_saturating_total output_total_def)

lemma unat_allowed_subsidy:
  "unat (allowed_subsidy h) = (if h = 0 then 2640000000000000 else subsidy_spec (unat h))"
  using monetary_constants(2) by (simp add: allowed_subsidy_def amount_calculate_block_subsidy)

lemma subsidy_spec_le: "subsidy_spec h \<le> 9900000000"
  by (simp add: subsidy_spec_def)

lemma coinbase_within_allowed:
  "coinbase_output_total tx \<le> allowed_subsidy h \<longleftrightarrow> output_total tx \<le> unat (allowed_subsidy h)"
proof -
  have "unat (allowed_subsidy h) < 2 ^ 128 - 1"
    using subsidy_spec_le [of "unat h"] by (simp add: unat_allowed_subsidy)
  then show ?thesis
    by (auto simp: word_le_nat_alt unat_coinbase_output_total min_def split: if_splits)
qed

text \<open>What acceptance means, as one conjunction.\<close>

definition block_structure_ok :: "'vk crypto \<Rightarrow> block \<Rightarrow> u64 \<Rightarrow> bool" where
  "block_structure_ok C block h \<longleftrightarrow>
     transactions block \<noteq> [] \<and> height (header block) = h \<and>
     (h = 0 \<or> (compact_valid (bits (header block)) \<and>
               unat (block_hash C block) \<le> target_value (bits (header block)))) \<and>
     merkle_root (header block) = calculate_merkle_root C block \<and>
     is_coinbase (hd (transactions block)) \<and>
     list_all (\<lambda>tx. \<not> is_coinbase tx) (tl (transactions block)) \<and>
     output_total (hd (transactions block)) \<le> unat (allowed_subsidy h)"

lemma verify_block_structure_ok_iff:
  "verify_block_structure C block h = Inr () \<longleftrightarrow> block_structure_ok C block h"
proof (cases "transactions block")
  case Nil
  then show ?thesis by (simp add: verify_block_structure_def block_structure_ok_def)
next
  case (Cons cb others)
  have "list_ex is_coinbase others \<longleftrightarrow> \<not> list_all (\<lambda>tx. \<not> is_coinbase tx) others"
    by (simp add: list_ex_iff list_all_iff)
  with Cons show ?thesis
    by (auto simp: verify_block_structure_def block_structure_ok_def check_pow_ok_iff Let_def
        coinbase_within_allowed word_gt_0 not_less linorder_not_le [symmetric])
qed

lemma genesis_coinbase_facts:
  "is_coinbase genesis_coinbase" "output_total genesis_coinbase = 2640000000000000"
  by (simp_all add: is_coinbase_def genesis_coinbase_def OutPoint_new_def output_total_def
      saturating_mul_def CREATOR_ALLOCATION_AUR_def DEV_ALLOCATION_AUR_def QUANTA_PER_AUR_def)

section \<open>Properties\<close>

text \<open>The proof-of-work check decides the integer comparison. A hash passes exactly when the
  compact bits are valid and the hash, read as a 256-bit big-endian number, is at most
  mantissa times 256 to the exponent minus three.\<close>

theorem check_pow_exact:
  "check_pow hash bts = Inr () \<longleftrightarrow> compact_valid bts \<and> unat hash \<le> target_value bts"
  by (rule check_pow_ok_iff)

text \<open>C33: the emission schedule. The subsidy of a height is 99 AUR halved every 200,000 blocks, it
  never grows with the height, and all subsidies together with the premine stay under the
  maximum supply of 66,000,000 AUR.\<close>

theorem emission_schedule:
  "amount (calculate_block_subsidy h) = (if unat h div 200000 < 64 then 9900000000 div 2 ^ (unat h div 200000) else 0)
   \<and> (unat h \<le> unat h' \<longrightarrow> amount (calculate_block_subsidy h') \<le> amount (calculate_block_subsidy h))
   \<and> amount TOTAL_GENESIS_PREMINE_QUANTA + (\<Sum>i<n. subsidy_spec i) \<le> amount MAX_TOTAL_SUPPLY_QUANTA"
  using subsidy_spec_antimono [of "unat h" "unat h'"] emission_bound [of "{..<n}"]
  by (simp add: amount_calculate_block_subsidy monetary_constants) (simp add: subsidy_spec_def)

theorem emission_schedule_witness:
  "amount (calculate_block_subsidy 200000) \<le> amount (calculate_block_subsidy 199999)"
  using emission_schedule [of 199999 200000 0] by simp

text \<open>C16: structural verification accepts exactly the blocks that are non-empty, at the expected
  height, above height zero backed by proof of work, with the true Merkle root, one coinbase in
  first position and nowhere else, and coinbase outputs within the allowance of the height.\<close>

theorem verify_block_structure_exact:
  "verify_block_structure C block h = Inr () \<longleftrightarrow>
     transactions block \<noteq> [] \<and> height (header block) = h \<and>
     (h = 0 \<or> (compact_valid (bits (header block)) \<and>
               unat (block_hash C block) \<le> target_value (bits (header block)))) \<and>
     merkle_root (header block) = calculate_merkle_root C block \<and>
     is_coinbase (hd (transactions block)) \<and>
     list_all (\<lambda>tx. \<not> is_coinbase tx) (tl (transactions block)) \<and>
     output_total (hd (transactions block)) \<le> unat (allowed_subsidy h)"
  unfolding verify_block_structure_ok_iff by (simp add: block_structure_ok_def)

text \<open>The genesis block satisfies the rules it is exempted from nowhere: for every hash function
  it passes structural verification at height zero, and its outputs are exactly the premine.\<close>

theorem genesis_block_verifies:
  "verify_block_structure C (create_genesis_block C) 0 = Inr () \<and>
   output_total genesis_coinbase = amount TOTAL_GENESIS_PREMINE_QUANTA"
  unfolding verify_block_structure_ok_iff
  by (simp add: block_structure_ok_def create_genesis_block_def genesis_coinbase_facts
      calculate_merkle_root_def compute_merkle_root_single unat_allowed_subsidy monetary_constants)

end
