(* ===== verification/Eutxo.thy ===== *)
theory Eutxo
  imports Core_Block
begin

text \<open>
  The crate \<open>aurion-eutxo\<close>: \<open>ExtendedUtxo\<close> and its storage codec (\<open>state.rs\<close>), the
  read-only UTXO view (\<open>view.rs\<close>, a function from outpoints), coinbase maturity
  (\<open>maturity.rs\<close>), absolute and relative lock times (\<open>locktime.rs\<close>) and the fee policy
  (\<open>fee.rs\<close>).
\<close>

section \<open>Errors\<close>

datatype eutxo_error =
    ImmatureCoinbaseSpend outpoint u64 u64 u64
  | LocktimeNotMet u64 u64
  | RelativeLocktimeNotMet usize u64 u64
  | EutxoInsufficientFee u128 u128 u128
  | TransactionTooLarge usize usize
  | EutxoArithmeticOverflow
  | UtxoNotFound outpoint
  | DuplicateInput outpoint

fun eutxo_error_display :: "eutxo_error \<Rightarrow> string" where
  "eutxo_error_display (ImmatureCoinbaseSpend op creation spendable current) =
     ''immature coinbase spend: outpoint '' @ outpoint_display op @ '' created at height ''
     @ show_nat (unat creation) @ '', spendable at '' @ show_nat (unat spendable)
     @ '', current '' @ show_nat (unat current)"
| "eutxo_error_display (LocktimeNotMet required current) =
     ''absolute locktime violation: current '' @ show_nat (unat current)
     @ '' < required '' @ show_nat (unat required)"
| "eutxo_error_display (RelativeLocktimeNotMet idx required passed) =
     ''relative sequence locktime violation for input '' @ show_nat idx
     @ '': required '' @ show_nat (unat required) @ '', passed '' @ show_nat (unat passed)"
| "eutxo_error_display (EutxoInsufficientFee actual required per_byte) =
     ''insufficient fee: provided '' @ show_nat (unat actual) @ '' Aur < required ''
     @ show_nat (unat required) @ '' Aur ('' @ show_nat (unat per_byte) @ '' Aur/byte)''"
| "eutxo_error_display (TransactionTooLarge sz limit) =
     ''transaction size exceeds limit: '' @ show_nat sz @ '' > max '' @ show_nat limit"
| "eutxo_error_display EutxoArithmeticOverflow = ''arithmetic overflow during eUTXO evaluation''"
| "eutxo_error_display (UtxoNotFound op) = ''referenced UTXO not found: '' @ outpoint_display op"
| "eutxo_error_display (DuplicateInput op) =
     ''duplicate input spent within same transaction: '' @ outpoint_display op"

section \<open>ExtendedUtxo\<close>

record extended_utxo =
  eu_value :: quantum
  eu_locking_script :: bytes
  creation_height :: u64
  eu_is_coinbase :: bool
  eu_datum :: datum

type_synonym utxo_view = "outpoint \<Rightarrow> extended_utxo option"

definition ExtendedUtxo_new :: "quantum \<Rightarrow> bytes \<Rightarrow> u64 \<Rightarrow> bool \<Rightarrow> datum \<Rightarrow> extended_utxo" where
  "ExtendedUtxo_new value script h coinbase d =
     \<lparr>eu_value = value, eu_locking_script = script, creation_height = h,
      eu_is_coinbase = coinbase, eu_datum = d\<rparr>"

definition from_output :: "tx_output \<Rightarrow> u64 \<Rightarrow> bool \<Rightarrow> extended_utxo" where
  "from_output out h coinbase =
     \<lparr>eu_value = out_value out, eu_locking_script = locking_script out, creation_height = h,
      eu_is_coinbase = coinbase, eu_datum = out_datum out\<rparr>"

definition to_output :: "extended_utxo \<Rightarrow> tx_output" where
  "to_output u = \<lparr>out_value = eu_value u, locking_script = eu_locking_script u,
                  out_datum = eu_datum u\<rparr>"

definition encode_extended_utxo :: "extended_utxo \<Rightarrow> bytes" where
  "encode_extended_utxo u =
     encode_quantum (eu_value u) @ encode_vec_bytes (eu_locking_script u)
     @ to_be_bytes (creation_height u) @ [if eu_is_coinbase u then 1 else 0]
     @ encode_datum (eu_datum u)"

definition decode_extended_utxo :: "extended_utxo decoder" where
  "decode_extended_utxo cursor =
     bindR (decode_quantum cursor) (\<lambda>(value, cursor).
     bindR (decode_vec_bytes cursor) (\<lambda>(locking_script, cursor).
     if length cursor < 9 then Inl UnexpectedEof
     else
       let (h_bytes, cursor) = (take 8 cursor, drop 8 cursor);
           is_coinbase_byte = cursor ! 0;
           cursor = drop 1 cursor
       in bindR (decode_datum cursor) (\<lambda>(datum, cursor).
          Inr (\<lparr>eu_value = value, eu_locking_script = locking_script,
                creation_height = from_be_bytes h_bytes, eu_is_coinbase = (is_coinbase_byte = 1),
                eu_datum = datum\<rparr>, cursor))))"

definition wf_extended_utxo :: "extended_utxo \<Rightarrow> bool" where
  [wf_defs]: "wf_extended_utxo u \<longleftrightarrow> wf_vec (eu_locking_script u) \<and> wf_datum (eu_datum u)"

lemma to_output_from_output [simp]: "to_output (from_output out h c) = out"
  by (simp add: to_output_def from_output_def)

lemma from_output_simps [simp]:
  "eu_value (from_output out h c) = out_value out"
  "eu_locking_script (from_output out h c) = locking_script out"
  "eu_datum (from_output out h c) = out_datum out"
  "creation_height (from_output out h c) = h"
  "eu_is_coinbase (from_output out h c) = c"
  by (simp_all add: from_output_def)

text \<open>
  The record codec satisfies the round trip law only: every flag byte other than 1 decodes to
  \<open>false\<close>, so it is not canonical.
\<close>

interpretation extended_utxo: codec encode_extended_utxo decode_extended_utxo wf_extended_utxo
  by unfold_locales
    (simp add: encode_extended_utxo_def decode_extended_utxo_def wf_extended_utxo_def
      quantum.dec_enc vec.dec_enc datum.dec_enc)

section \<open>Coinbase maturity\<close>

definition COINBASE_MATURITY :: u64 where
  "COINBASE_MATURITY = 100"

definition verify_coinbase_maturity ::
    "outpoint \<Rightarrow> extended_utxo \<Rightarrow> u64 \<Rightarrow> (eutxo_error, unit) result" where
  "verify_coinbase_maturity op utxo current_height =
     (if \<not> eu_is_coinbase utxo then Inr ()
      else bindR (ok_or EutxoArithmeticOverflow (checked_add (creation_height utxo) COINBASE_MATURITY))
        (\<lambda>spendable_height.
          if current_height < spendable_height
          then Inl (ImmatureCoinbaseSpend op (creation_height utxo) spendable_height current_height)
          else Inr ()))"

lemma verify_coinbase_maturity_ok_iff:
  "verify_coinbase_maturity op utxo h = Inr () \<longleftrightarrow>
     (eu_is_coinbase utxo \<longrightarrow> unat (creation_height utxo) + 100 \<le> unat h)"
proof -
  have "unat h < 2 ^ 64" using unat_bound [of h] by simp
  then show ?thesis
    by (auto simp: verify_coinbase_maturity_def COINBASE_MATURITY_def checked_add_def
        word_less_nat_alt not_less unat_word_ariths split: if_splits)
qed

section \<open>Lock times\<close>

definition LOCKTIME_THRESHOLD_UNIX :: u64 where
  "LOCKTIME_THRESHOLD_UNIX = 500000000"

definition SEQUENCE_DISABLE_FLAG :: u32 where
  "SEQUENCE_DISABLE_FLAG = 0x80000000"

definition verify_transaction_locktime ::
    "transaction \<Rightarrow> u64 \<Rightarrow> u64 \<Rightarrow> (eutxo_error, unit) result" where
  "verify_transaction_locktime tx block_height median_time_past =
     (let has_active_lock = list_ex (\<lambda>i. sequence i \<noteq> 0xFFFFFFFF) (inputs tx) in
      if \<not> has_active_lock \<or> locktime tx = 0 then Inr ()
      else if locktime tx < LOCKTIME_THRESHOLD_UNIX then
        if block_height < locktime tx then Inl (LocktimeNotMet (locktime tx) block_height)
        else Inr ()
      else if median_time_past < locktime tx
        then Inl (LocktimeNotMet (locktime tx) median_time_past)
        else Inr ())"

definition verify_relative_sequence ::
    "u32 \<Rightarrow> extended_utxo \<Rightarrow> u64 \<Rightarrow> usize \<Rightarrow> (eutxo_error, unit) result" where
  "verify_relative_sequence input_sequence utxo current_height input_index =
     (if input_sequence AND SEQUENCE_DISABLE_FLAG \<noteq> 0 then Inr ()
      else
        let required_delay = ucast (input_sequence AND 0x0000FFFF);
            passed_blocks = saturating_sub current_height (creation_height utxo) in
        if passed_blocks < required_delay
        then Inl (RelativeLocktimeNotMet input_index required_delay passed_blocks)
        else Inr ())"

text \<open>The lock predicates the two checks decide.\<close>

definition locktime_satisfied :: "transaction \<Rightarrow> u64 \<Rightarrow> u64 \<Rightarrow> bool" where
  "locktime_satisfied tx block_height mtp \<longleftrightarrow>
     locktime tx = 0 \<or> list_all (\<lambda>i. sequence i = 0xFFFFFFFF) (inputs tx) \<or>
     (if unat (locktime tx) < 500000000 then locktime tx \<le> block_height else locktime tx \<le> mtp)"

definition sequence_satisfied :: "u32 \<Rightarrow> extended_utxo \<Rightarrow> u64 \<Rightarrow> bool" where
  "sequence_satisfied s utxo current_height \<longleftrightarrow>
     2 ^ 31 \<le> unat s \<or> unat s mod 2 ^ 16 \<le> unat current_height - unat (creation_height utxo)"

lemma verify_transaction_locktime_ok_iff:
  "verify_transaction_locktime tx h mtp = Inr () \<longleftrightarrow> locktime_satisfied tx h mtp"
  by (auto simp: verify_transaction_locktime_def locktime_satisfied_def LOCKTIME_THRESHOLD_UNIX_def
      Let_def list_ex_iff list_all_iff word_less_nat_alt not_less word_le_nat_alt)

lemma disable_flag_iff: "(s AND SEQUENCE_DISABLE_FLAG \<noteq> 0) \<longleftrightarrow> 2 ^ 31 \<le> unat (s :: u32)"
proof -
  have flag: "SEQUENCE_DISABLE_FLAG = push_bit 31 1"
    by (simp add: SEQUENCE_DISABLE_FLAG_def)
  have "bit s 31 \<longleftrightarrow> odd (unat s div 2 ^ 31)"
  proof -
    have "bit (unat s) 31 \<longleftrightarrow> bit s 31" by (simp add: bit_unsigned_iff)
    then show ?thesis by (simp only: bit_iff_odd)
  qed
  also have "\<dots> \<longleftrightarrow> 2 ^ 31 \<le> unat s"
  proof -
    have "unat s div 2 ^ 31 < 2" by (simp add: less_mult_imp_div_less)
    then have "unat s div 2 ^ 31 = 0 \<or> unat s div 2 ^ 31 = 1" by linarith
    then show ?thesis by (auto simp: div_eq_0_iff)
  qed
  finally have b: "bit s 31 \<longleftrightarrow> 2 ^ 31 \<le> unat s" .
  have "(s AND push_bit 31 1 \<noteq> 0) \<longleftrightarrow> bit s 31"
    by (simp add: bit_iff_and_push_bit_not_eq_0)
  with b flag show ?thesis by simp
qed

lemma verify_relative_sequence_ok_iff:
  "verify_relative_sequence s utxo h idx = Inr () \<longleftrightarrow> sequence_satisfied s utxo h"
proof -
  have "unat (ucast (s AND 0xFFFF) :: u64) = unat s mod 2 ^ 16"
  proof -
    have "s AND 0xFFFF = take_bit 16 s"
      by (simp add: take_bit_eq_mask mask_eq_exp_minus_1)
    then have "unat (s AND 0xFFFF) = unat s mod 2 ^ 16"
      by (simp only: unsigned_take_bit_eq) (simp add: take_bit_eq_mod)
    moreover have "unat (ucast (s AND 0xFFFF) :: u64) = unat (s AND 0xFFFF)"
      by (rule unat_ucast_up) simp
    ultimately show ?thesis by simp
  qed
  then show ?thesis
    by (auto simp: verify_relative_sequence_def sequence_satisfied_def disable_flag_iff Let_def
        word_less_nat_alt unat_saturating_sub not_less)
qed

section \<open>Fees\<close>

definition MAX_TX_SIZE_BYTES :: usize where
  "MAX_TX_SIZE_BYTES = 100000"

definition MIN_FEE_PER_BYTE_AUR :: u128 where
  "MIN_FEE_PER_BYTE_AUR = 10"

definition verify_transaction_fee ::
    "transaction \<Rightarrow> u128 \<Rightarrow> u128 \<Rightarrow> (eutxo_error, u128) result" where
  "verify_transaction_fee tx total_input_val total_output_val =
     (let tx_bytes = length (encode_tx tx) in
      if tx_bytes > MAX_TX_SIZE_BYTES then Inl (TransactionTooLarge tx_bytes MAX_TX_SIZE_BYTES)
      else
      bindR (ok_or EutxoArithmeticOverflow (checked_mul (of_nat tx_bytes) MIN_FEE_PER_BYTE_AUR))
        (\<lambda>required_fee.
      bindR (ok_or EutxoArithmeticOverflow (checked_sub total_input_val total_output_val))
        (\<lambda>actual_fee.
        if actual_fee < required_fee
        then Inl (EutxoInsufficientFee actual_fee required_fee MIN_FEE_PER_BYTE_AUR)
        else Inr actual_fee)))"

lemma checked_mul_fee:
  "n \<le> 100000 \<Longrightarrow> checked_mul (of_nat n) MIN_FEE_PER_BYTE_AUR = Some (of_nat (10 * n))"
  by (simp add: checked_mul_def MIN_FEE_PER_BYTE_AUR_def mult.commute)

lemma verify_transaction_fee_ok_iff:
  "verify_transaction_fee tx i out = Inr fee \<longleftrightarrow>
     length (encode_tx tx) \<le> 100000 \<and> unat i = unat out + unat fee \<and>
     10 * length (encode_tx tx) \<le> unat fee"
proof (cases "length (encode_tx tx) \<le> 100000")
  case True
  have "unat (of_nat (10 * length (encode_tx tx)) :: u128) = 10 * length (encode_tx tx)"
    by (rule unat_of_nat_less) (use True in simp)
  with True show ?thesis
    by (auto simp: verify_transaction_fee_def MAX_TX_SIZE_BYTES_def Let_def checked_mul_fee
        checked_sub_Some word_less_nat_alt not_less simp del: of_nat_mult split: if_splits)
next
  case False
  then show ?thesis by (simp add: verify_transaction_fee_def MAX_TX_SIZE_BYTES_def Let_def)
qed

section \<open>Properties\<close>

text \<open>Coinbase maturity. An output is spendable exactly when it is not a coinbase output or at
  least 100 blocks lie between its creation and the spending height; no wrap-around opens a
  gap near the largest heights.\<close>

theorem coinbase_maturity_exact:
  "verify_coinbase_maturity op utxo h = Inr () \<longleftrightarrow>
     (if eu_is_coinbase utxo then unat (creation_height utxo) + 100 \<le> unat h else True)"
  unfolding verify_coinbase_maturity_ok_iff by simp

text \<open>Lock times. The absolute check accepts exactly the final transactions (no lock, all inputs
  final, or the lock reached in height or median time), the relative check exactly the inputs
  whose lock is disabled or whose required depth has passed.\<close>

theorem lock_times_exact:
  "(verify_transaction_locktime tx h mtp = Inr () \<longleftrightarrow> locktime_satisfied tx h mtp) \<and>
   (verify_relative_sequence s utxo h idx = Inr () \<longleftrightarrow>
      2 ^ 31 \<le> unat s \<or> unat s mod 2 ^ 16 \<le> unat h - unat (creation_height utxo))"
  unfolding verify_transaction_locktime_ok_iff verify_relative_sequence_ok_iff
  by (simp add: sequence_satisfied_def)

text \<open>The fee policy returns the exact difference of inputs and outputs, and only for
  transactions of at most 100,000 bytes that pay at least 10 base units per byte.\<close>

theorem transaction_fee_exact:
  "verify_transaction_fee tx i out = Inr fee \<longleftrightarrow>
     length (encode_tx tx) \<le> 100000 \<and> unat i = unat out + unat fee \<and>
     10 * length (encode_tx tx) \<le> unat fee"
  by (rule verify_transaction_fee_ok_iff)

end
