(* ===== verification/Script.thy ===== *)
theory Script
  imports Eutxo
begin

text \<open>
  The crate \<open>aurion-script\<close>: the bounded stack (\<open>stack.rs\<close>), the opcodes (\<open>opcode.rs\<close>),
  the introspection context (\<open>context.rs\<close>) and the interpreter with its two entry points
  \<open>verify\<close> and \<open>execute_contract\<close> (\<open>engine.rs\<close>). The stack is a list with its top element
  first; the Rust vector holds the same elements with the top last.
\<close>

section \<open>Errors\<close>

datatype script_error =
    StackUnderflow
  | StackOverflow usize
  | ElementTooLarge usize usize
  | MaxOpCountExceeded usize
  | InvalidOpCode u8
  | VerifyFailed
  | EqualVerifyFailed
  | OpReturnTriggered
  | InvalidPublicKey
  | InvalidSignature
  | EmptyStackOnTermination
  | ScriptFailed
  | ScriptArithmeticOverflow
  | ScriptUnexpectedEof
  | ContextUnavailable
  | IndexOutOfBounds usize

fun script_error_display :: "script_error \<Rightarrow> string" where
  "script_error_display StackUnderflow =
     ''stack underflow: attempted to pop from an empty stack''"
| "script_error_display (StackOverflow n) =
     ''stack overflow: stack depth exceeded maximum limit ('' @ show_nat n @ '')''"
| "script_error_display (ElementTooLarge sz limit) =
     ''element size limit exceeded: item size '' @ show_nat sz @ '' > max '' @ show_nat limit"
| "script_error_display (MaxOpCountExceeded n) = ''opcode count limit exceeded: '' @ show_nat n"
| "script_error_display (InvalidOpCode b) = ''unknown or unsupported opcode: '' @ fmt_hex_u8 b"
| "script_error_display VerifyFailed =
     ''OP_VERIFY failed: top stack element evaluated to false''"
| "script_error_display EqualVerifyFailed = ''OP_EQUALVERIFY failed: elements are not equal''"
| "script_error_display OpReturnTriggered =
     ''OP_RETURN executed: script explicitly marked unspendable''"
| "script_error_display InvalidPublicKey = ''invalid Ed25519 public key encoding''"
| "script_error_display InvalidSignature = ''invalid Ed25519 signature encoding''"
| "script_error_display EmptyStackOnTermination =
     ''script evaluation completed with empty stack''"
| "script_error_display ScriptFailed =
     ''script execution failed: top stack element evaluated to false''"
| "script_error_display ScriptArithmeticOverflow =
     ''arithmetic overflow during script math execution''"
| "script_error_display ScriptUnexpectedEof =
     ''unexpected end of script bytes during pushdata read''"
| "script_error_display ContextUnavailable = ''introspection context unavailable''"
| "script_error_display (IndexOutOfBounds n) = ''index out of bounds: '' @ show_nat n"

section \<open>The stack\<close>

definition MAX_STACK_DEPTH :: usize where
  "MAX_STACK_DEPTH = 1024"

definition MAX_ELEMENT_SIZE :: usize where
  "MAX_ELEMENT_SIZE = 520"

type_synonym stack = "bytes list"

definition stack_push :: "bytes \<Rightarrow> stack \<Rightarrow> (script_error, stack) result" where
  "stack_push item st =
     (if length st \<ge> MAX_STACK_DEPTH then Inl (StackOverflow MAX_STACK_DEPTH)
      else if length item > MAX_ELEMENT_SIZE
      then Inl (ElementTooLarge (length item) MAX_ELEMENT_SIZE)
      else Inr (item # st))"

fun stack_pop :: "stack \<Rightarrow> (script_error, bytes \<times> stack) result" where
  "stack_pop [] = Inl StackUnderflow"
| "stack_pop (item # st) = Inr (item, st)"

fun stack_peek :: "stack \<Rightarrow> (script_error, bytes) result" where
  "stack_peek [] = Inl StackUnderflow"
| "stack_peek (item # st) = Inr item"

definition stack_dup :: "stack \<Rightarrow> (script_error, stack) result" where
  "stack_dup st = bindR (stack_peek st) (\<lambda>top. stack_push top st)"

definition stack_drop :: "stack \<Rightarrow> (script_error, stack) result" where
  "stack_drop st = bindR (stack_pop st) (\<lambda>(_, st'). Inr st')"

fun stack_swap :: "stack \<Rightarrow> (script_error, stack) result" where
  "stack_swap (a # b # st) = Inr (b # a # st)"
| "stack_swap _ = Inl StackUnderflow"

section \<open>Opcodes\<close>

datatype opcode =
    OpFalse | OpTrue | OpNop | OpVerify | OpReturn | OpDup | OpDrop | OpSwap
  | OpEqual | OpEqualVerify | OpAdd | OpSub | OpHash256 | OpCheckSig | OpCheckSigVerify
  | OpTxInputsCount | OpCurrentInputIdx | OpTxOutputsCount | OpTxOutputValue
  | OpTxOutputScript | OpTxOutputDatum | OpTxLocktime | OpValidationHeight

fun opcode_u8 :: "opcode \<Rightarrow> u8" where
  "opcode_u8 OpFalse = 0x00"
| "opcode_u8 OpTrue = 0x51"
| "opcode_u8 OpNop = 0x61"
| "opcode_u8 OpVerify = 0x69"
| "opcode_u8 OpReturn = 0x6a"
| "opcode_u8 OpDup = 0x73"
| "opcode_u8 OpDrop = 0x75"
| "opcode_u8 OpSwap = 0x78"
| "opcode_u8 OpEqual = 0x87"
| "opcode_u8 OpEqualVerify = 0x88"
| "opcode_u8 OpAdd = 0x93"
| "opcode_u8 OpSub = 0x94"
| "opcode_u8 OpHash256 = 0xaa"
| "opcode_u8 OpCheckSig = 0xac"
| "opcode_u8 OpCheckSigVerify = 0xad"
| "opcode_u8 OpTxInputsCount = 0xc0"
| "opcode_u8 OpCurrentInputIdx = 0xc1"
| "opcode_u8 OpTxOutputsCount = 0xc2"
| "opcode_u8 OpTxOutputValue = 0xc3"
| "opcode_u8 OpTxOutputScript = 0xc4"
| "opcode_u8 OpTxOutputDatum = 0xc5"
| "opcode_u8 OpTxLocktime = 0xc6"
| "opcode_u8 OpValidationHeight = 0xc7"

definition opcode_from_u8 :: "u8 \<Rightarrow> opcode option" where
  "opcode_from_u8 b =
     (if b = 0x00 then Some OpFalse
      else if b = 0x51 then Some OpTrue
      else if b = 0x61 then Some OpNop
      else if b = 0x69 then Some OpVerify
      else if b = 0x6a then Some OpReturn
      else if b = 0x73 then Some OpDup
      else if b = 0x75 then Some OpDrop
      else if b = 0x78 then Some OpSwap
      else if b = 0x87 then Some OpEqual
      else if b = 0x88 then Some OpEqualVerify
      else if b = 0x93 then Some OpAdd
      else if b = 0x94 then Some OpSub
      else if b = 0xaa then Some OpHash256
      else if b = 0xac then Some OpCheckSig
      else if b = 0xad then Some OpCheckSigVerify
      else if b = 0xc0 then Some OpTxInputsCount
      else if b = 0xc1 then Some OpCurrentInputIdx
      else if b = 0xc2 then Some OpTxOutputsCount
      else if b = 0xc3 then Some OpTxOutputValue
      else if b = 0xc4 then Some OpTxOutputScript
      else if b = 0xc5 then Some OpTxOutputDatum
      else if b = 0xc6 then Some OpTxLocktime
      else if b = 0xc7 then Some OpValidationHeight
      else None)"

lemma opcode_from_u8_opcode_u8 [simp]: "opcode_from_u8 (opcode_u8 op) = Some op"
  by (cases op) (simp_all add: opcode_from_u8_def)

lemma opcode_from_u8_sound: "opcode_from_u8 b = Some op \<Longrightarrow> opcode_u8 op = b"
  by (auto simp: opcode_from_u8_def split: if_splits)

lemma opcode_from_u8_iff: "opcode_from_u8 b = Some op \<longleftrightarrow> b = opcode_u8 op"
  using opcode_from_u8_sound by auto

section \<open>Context and engine\<close>

record script_context =
  ctx_tx :: transaction
  current_input_index :: usize
  current_spent_utxo :: extended_utxo
  ctx_fee :: quantum
  validation_height :: u64

record script_engine =
  eng_stack :: stack
  eng_context :: "script_context option"
  eng_sighash :: hash256

definition MAX_OPS_PER_SCRIPT :: usize where
  "MAX_OPS_PER_SCRIPT = 201"

definition ScriptEngine_new :: "'vk crypto \<Rightarrow> script_context option \<Rightarrow> script_engine" where
  "ScriptEngine_new C context =
     \<lparr>eng_stack = [], eng_context = context,
      eng_sighash = (case context of
          None \<Rightarrow> ZERO_HASH
        | Some ctx \<Rightarrow>
            if current_input_index ctx < length (inputs (ctx_tx ctx))
            then sighash C (ctx_tx ctx) (current_input_index ctx) else ZERO_HASH)\<rparr>"

definition ScriptEngine_with_sighash :: "script_context option \<Rightarrow> hash256 \<Rightarrow> script_engine" where
  "ScriptEngine_with_sighash context sh =
     \<lparr>eng_stack = [], eng_context = context, eng_sighash = sh\<rparr>"

definition is_truthy :: "bytes \<Rightarrow> bool" where
  "is_truthy data \<longleftrightarrow> list_ex (\<lambda>byte. byte \<noteq> 0) data"

definition decode_script_int :: "bytes \<Rightarrow> (script_error, i64) result" where
  "decode_script_int bs =
     (if bs = [] then Inr 0
      else if length bs > 8 then Inl ScriptArithmeticOverflow
      else Inr (from_le_bytes (bs @ replicate (8 - length bs) 0)))"

definition decode_u32_index :: "bytes \<Rightarrow> (script_error, usize) result" where
  "decode_u32_index bs =
     (if bs = [] then Inr 0
      else if length bs > 4 then Inl ScriptArithmeticOverflow
      else Inr (unat (from_le_bytes (bs @ replicate (4 - length bs) 0) :: u32)))"

definition verify_ed25519 :: "'vk crypto \<Rightarrow> bytes \<Rightarrow> bytes \<Rightarrow> bytes \<Rightarrow> bool" where
  "verify_ed25519 C pubkey_bytes sig_bytes message \<longleftrightarrow>
     (if length pubkey_bytes \<noteq> 32 \<or> length sig_bytes \<noteq> 64 then False
      else case vk_from_bytes C pubkey_bytes of
             None \<Rightarrow> False
           | Some verifying_key \<Rightarrow> vk_verify_strict C verifying_key message sig_bytes)"

definition u32_try_from :: "usize \<Rightarrow> (script_error, u32) result" where
  "u32_try_from n = (if n < 2 ^ 32 then Inr (of_nat n) else Inl ScriptArithmeticOverflow)"

definition output_at :: "script_context \<Rightarrow> bytes \<Rightarrow> (script_error, tx_output) result" where
  "output_at ctx idx_bytes =
     bindR (decode_u32_index idx_bytes) (\<lambda>idx.
       if idx < length (outputs (ctx_tx ctx)) then Inr (outputs (ctx_tx ctx) ! idx)
       else Inl (IndexOutOfBounds idx))"

definition bool_item :: "bool \<Rightarrow> bytes" where
  "bool_item b = (if b then [1] else [])"

definition datum_commitment :: "'vk crypto \<Rightarrow> datum \<Rightarrow> bytes" where
  "datum_commitment C d = (case d of
     DatumNone \<Rightarrow> replicate 32 0
   | _ \<Rightarrow> as_bytes (digest C (encode_datum d)))"

lemma length_datum_commitment [simp]: "length (datum_commitment C d) = 32"
  by (cases d) (simp_all add: datum_commitment_def)

text \<open>The \<open>match op\<close> of the interpreter loop: the effect of one opcode on the stack.\<close>

fun exec_op :: "'vk crypto \<Rightarrow> script_engine \<Rightarrow> opcode \<Rightarrow> stack \<Rightarrow> (script_error, stack) result"
where
  "exec_op C E OpFalse st = stack_push [] st"
| "exec_op C E OpTrue st = stack_push [1] st"
| "exec_op C E OpNop st = Inr st"
| "exec_op C E OpReturn st = Inl OpReturnTriggered"
| "exec_op C E OpVerify st =
     bindR (stack_pop st) (\<lambda>(item, st). if \<not> is_truthy item then Inl VerifyFailed else Inr st)"
| "exec_op C E OpDup st = stack_dup st"
| "exec_op C E OpDrop st = stack_drop st"
| "exec_op C E OpSwap st = stack_swap st"
| "exec_op C E OpEqual st =
     bindR (stack_pop st) (\<lambda>(a, st). bindR (stack_pop st) (\<lambda>(b, st). stack_push (bool_item (a = b)) st))"
| "exec_op C E OpEqualVerify st =
     bindR (stack_pop st) (\<lambda>(a, st). bindR (stack_pop st) (\<lambda>(b, st).
       if a \<noteq> b then Inl EqualVerifyFailed else Inr st))"
| "exec_op C E OpAdd st =
     bindR (stack_pop st) (\<lambda>(b_bytes, st). bindR (stack_pop st) (\<lambda>(a_bytes, st).
     bindR (decode_script_int a_bytes) (\<lambda>a_val. bindR (decode_script_int b_bytes) (\<lambda>b_val.
     bindR (ok_or ScriptArithmeticOverflow (checked_add_i64 a_val b_val)) (\<lambda>sum.
       stack_push (to_le_bytes sum) st)))))"
| "exec_op C E OpSub st =
     bindR (stack_pop st) (\<lambda>(b_bytes, st). bindR (stack_pop st) (\<lambda>(a_bytes, st).
     bindR (decode_script_int a_bytes) (\<lambda>a_val. bindR (decode_script_int b_bytes) (\<lambda>b_val.
     bindR (ok_or ScriptArithmeticOverflow (checked_sub_i64 a_val b_val)) (\<lambda>diff.
       stack_push (to_le_bytes diff) st)))))"
| "exec_op C E OpHash256 st =
     bindR (stack_pop st) (\<lambda>(item, st). stack_push (as_bytes (digest C item)) st)"
| "exec_op C E OpCheckSig st =
     bindR (stack_pop st) (\<lambda>(pubkey_bytes, st). bindR (stack_pop st) (\<lambda>(sig_bytes, st).
       stack_push (bool_item (verify_ed25519 C pubkey_bytes sig_bytes (as_bytes (eng_sighash E)))) st))"
| "exec_op C E OpCheckSigVerify st =
     bindR (stack_pop st) (\<lambda>(pubkey_bytes, st). bindR (stack_pop st) (\<lambda>(sig_bytes, st).
       if \<not> verify_ed25519 C pubkey_bytes sig_bytes (as_bytes (eng_sighash E))
       then Inl VerifyFailed else Inr st))"
| "exec_op C E OpTxInputsCount st =
     bindR (ok_or ContextUnavailable (eng_context E)) (\<lambda>ctx.
     bindR (u32_try_from (length (inputs (ctx_tx ctx)))) (\<lambda>count. stack_push (to_le_bytes count) st))"
| "exec_op C E OpCurrentInputIdx st =
     bindR (ok_or ContextUnavailable (eng_context E)) (\<lambda>ctx.
     bindR (u32_try_from (current_input_index ctx)) (\<lambda>idx. stack_push (to_le_bytes idx) st))"
| "exec_op C E OpTxOutputsCount st =
     bindR (ok_or ContextUnavailable (eng_context E)) (\<lambda>ctx.
     bindR (u32_try_from (length (outputs (ctx_tx ctx)))) (\<lambda>count. stack_push (to_le_bytes count) st))"
| "exec_op C E OpTxOutputValue st =
     bindR (ok_or ContextUnavailable (eng_context E)) (\<lambda>ctx.
     bindR (stack_pop st) (\<lambda>(idx_bytes, st). bindR (output_at ctx idx_bytes) (\<lambda>out.
       stack_push (to_le_bytes (raw (out_value out))) st)))"
| "exec_op C E OpTxOutputScript st =
     bindR (ok_or ContextUnavailable (eng_context E)) (\<lambda>ctx.
     bindR (stack_pop st) (\<lambda>(idx_bytes, st). bindR (output_at ctx idx_bytes) (\<lambda>out.
       stack_push (as_bytes (digest C (locking_script out))) st)))"
| "exec_op C E OpTxOutputDatum st =
     bindR (ok_or ContextUnavailable (eng_context E)) (\<lambda>ctx.
     bindR (stack_pop st) (\<lambda>(idx_bytes, st). bindR (output_at ctx idx_bytes) (\<lambda>out.
       stack_push (datum_commitment C (out_datum out)) st)))"
| "exec_op C E OpTxLocktime st =
     bindR (ok_or ContextUnavailable (eng_context E)) (\<lambda>ctx.
       stack_push (to_le_bytes (locktime (ctx_tx ctx))) st)"
| "exec_op C E OpValidationHeight st =
     bindR (ok_or ContextUnavailable (eng_context E)) (\<lambda>ctx.
       stack_push (to_le_bytes (validation_height ctx)) st)"

function execute_bytecode ::
    "'vk crypto \<Rightarrow> script_engine \<Rightarrow> bytes \<Rightarrow> stack \<Rightarrow> usize \<Rightarrow> (script_error, stack \<times> usize) result"
where
  "execute_bytecode C E [] st op_count = Inr (st, op_count)"
| "execute_bytecode C E (op_byte # cursor) st op_count =
     (if op_count \<ge> MAX_OPS_PER_SCRIPT then Inl (MaxOpCountExceeded MAX_OPS_PER_SCRIPT)
      else bindR (ok_or (MaxOpCountExceeded MAX_OPS_PER_SCRIPT) (usize_checked_add op_count 1))
        (\<lambda>op_count.
          if 0x01 \<le> op_byte \<and> op_byte \<le> 0x4b then
            (let push_len = unat op_byte in
             if length cursor < push_len then Inl ScriptUnexpectedEof
             else bindR (stack_push (take push_len cursor) st) (\<lambda>st.
               execute_bytecode C E (drop push_len cursor) st op_count))
          else
            bindR (ok_or (InvalidOpCode op_byte) (opcode_from_u8 op_byte)) (\<lambda>op.
            bindR (exec_op C E op st) (\<lambda>st.
              execute_bytecode C E cursor st op_count))))"
  by pat_completeness auto
termination
  by (relation "measure (\<lambda>(C, E, cursor, st, n). length cursor)") auto

declare execute_bytecode.simps(2) [simp del]

definition verify :: "'vk crypto \<Rightarrow> bytes \<Rightarrow> bytes \<Rightarrow> hash256 \<Rightarrow> (script_error, unit) result" where
  "verify C unlocking locking sh =
     (let engine = ScriptEngine_with_sighash None sh in
      bindR (execute_bytecode C engine unlocking (eng_stack engine) 0) (\<lambda>(st, op_count).
      bindR (execute_bytecode C engine locking st op_count) (\<lambda>(st, op_count).
      bindR (map_err (\<lambda>_. EmptyStackOnTermination) (stack_pop st)) (\<lambda>(top, st).
        if \<not> is_truthy top then Inl ScriptFailed else Inr ()))))"

definition push_datum :: "datum \<Rightarrow> stack \<Rightarrow> (script_error, stack) result" where
  "push_datum d st = (case d of
     DatumNone \<Rightarrow> Inr st
   | DatumHash hash \<Rightarrow> stack_push (as_bytes hash) st
   | DatumInline data \<Rightarrow> stack_push data st)"

definition push_redeemer :: "bytes option \<Rightarrow> stack \<Rightarrow> (script_error, stack) result" where
  "push_redeemer r st = (case r of None \<Rightarrow> Inr st | Some bs \<Rightarrow> stack_push bs st)"

definition execute_contract ::
    "'vk crypto \<Rightarrow> script_engine \<Rightarrow> bytes \<Rightarrow> bytes \<Rightarrow> datum \<Rightarrow> bytes option \<Rightarrow> (script_error, bool) result"
where
  "execute_contract C E locking unlocking dat red =
     bindR (push_datum dat []) (\<lambda>st.
     bindR (push_redeemer red st) (\<lambda>st.
     bindR (execute_bytecode C E unlocking st 0) (\<lambda>(st, op_count).
     bindR (execute_bytecode C E locking st op_count) (\<lambda>(st, op_count).
       if length st \<noteq> 1 then Inr False
       else bindR (stack_pop st) (\<lambda>(top, _). Inr (is_truthy top))))))"

section \<open>Resource bounds\<close>

definition wf_stack :: "stack \<Rightarrow> bool" where
  [wf_defs]: "wf_stack st \<longleftrightarrow>
     length st \<le> MAX_STACK_DEPTH \<and> list_all (\<lambda>item. length item \<le> MAX_ELEMENT_SIZE) st"

lemma stack_push_Inr [simp]:
  "stack_push item st = Inr st' \<longleftrightarrow>
     length st < MAX_STACK_DEPTH \<and> length item \<le> MAX_ELEMENT_SIZE \<and> st' = item # st"
  by (auto simp: stack_push_def)

lemma stack_push_overflow [simp]:
  "stack_push item st = Inl (StackOverflow k) \<longleftrightarrow> MAX_STACK_DEPTH \<le> length st \<and> k = MAX_STACK_DEPTH"
  by (auto simp: stack_push_def)

lemma stack_pop_Inr [simp]: "stack_pop st = Inr (item, st') \<longleftrightarrow> st = item # st'"
  by (cases st) auto

lemma stack_pop_Inl [simp]: "stack_pop st = Inl e \<longleftrightarrow> st = [] \<and> e = StackUnderflow"
  by (cases st) auto

lemma stack_peek_Inr [simp]: "stack_peek st = Inr item \<longleftrightarrow> (\<exists>st'. st = item # st')"
  by (cases st) auto

lemma stack_peek_Inl [simp]: "stack_peek st = Inl e \<longleftrightarrow> st = [] \<and> e = StackUnderflow"
  by (cases st) auto

lemma stack_swap_Inr:
  "stack_swap st = Inr st' \<longleftrightarrow> (\<exists>a b r. st = a # b # r \<and> st' = b # a # r)"
  by (cases st rule: stack_swap.cases) auto

lemma stack_swap_no_overflow [simp]: "stack_swap st \<noteq> Inl (StackOverflow k)"
  by (cases st rule: stack_swap.cases) auto

lemmas stack_op_simps = stack_dup_def stack_drop_def stack_swap_Inr wf_stack_def

lemma exec_op_wf:
  assumes "exec_op C E op st = Inr st'" "wf_stack st"
  shows "wf_stack st' \<and> length st' \<le> Suc (length st)"
  using assms by (cases op) (auto simp: stack_op_simps split: prod.splits if_splits)

lemma decode_no_overflow [simp]:
  "decode_script_int bs \<noteq> Inl (StackOverflow k)" "decode_u32_index bs \<noteq> Inl (StackOverflow k)"
  "u32_try_from n \<noteq> Inl (StackOverflow k)" "output_at ctx bs \<noteq> Inl (StackOverflow k)"
  by (auto simp: decode_script_int_def decode_u32_index_def u32_try_from_def output_at_def
      bindR_eq_Inl split: if_splits)

lemma exec_op_overflow:
  assumes "exec_op C E op st = Inl (StackOverflow k)"
  shows "MAX_STACK_DEPTH \<le> length st"
  using assms by (cases op) (auto simp: stack_op_simps bindR_eq_Inl split: prod.splits if_splits)

text \<open>The loop body, opened once: the shapes a successful or overflowing step can have.\<close>

lemma execute_step_Inr:
  assumes "execute_bytecode C E (b # cursor) st n = Inr res"
  obtains (push) "n < MAX_OPS_PER_SCRIPT" "1 \<le> b" "b \<le> 0x4b" "unat b \<le> length cursor"
      "length st < MAX_STACK_DEPTH" "unat b \<le> MAX_ELEMENT_SIZE"
      "execute_bytecode C E (drop (unat b) cursor) (take (unat b) cursor # st) (Suc n) = Inr res"
    | (op) op st' where "n < MAX_OPS_PER_SCRIPT" "b = opcode_u8 op" "exec_op C E op st = Inr st'"
      "execute_bytecode C E cursor st' (Suc n) = Inr res"
proof -
  from assms have n: "n < MAX_OPS_PER_SCRIPT"
    by (simp add: execute_bytecode.simps(2) split: if_splits)
  then have "usize_checked_add n 1 = Some (Suc n)"
    by (simp add: usize_checked_add_def MAX_OPS_PER_SCRIPT_def)
  with assms n show thesis
    by (auto simp: execute_bytecode.simps(2) Let_def opcode_from_u8_iff min_absorb2
        split: if_splits intro: push op)
qed

lemma execute_step_Inl:
  assumes "execute_bytecode C E (b # cursor) st n = Inl (StackOverflow k)"
  obtains (full) "MAX_STACK_DEPTH \<le> length st"
    | (rest) cursor' st' where "length cursor' \<le> length cursor" "wf_stack st \<longrightarrow> wf_stack st'"
      "n < MAX_OPS_PER_SCRIPT" "length st' \<le> Suc (length st)"
      "execute_bytecode C E cursor' st' (Suc n) = Inl (StackOverflow k)"
proof -
  from assms have n: "n < MAX_OPS_PER_SCRIPT"
    by (simp add: execute_bytecode.simps(2) split: if_splits)
  then have c: "usize_checked_add n 1 = Some (Suc n)"
    by (simp add: usize_checked_add_def MAX_OPS_PER_SCRIPT_def)
  show thesis
  proof (cases "0x01 \<le> b \<and> b \<le> 0x4b")
    case True
    with assms n c show thesis
      by (auto simp: execute_bytecode.simps(2) Let_def bindR_eq_Inl wf_stack_def
          split: if_splits intro: full rest [of "drop (unat b) cursor" "take (unat b) cursor # st"])
  next
    case False
    with assms n c obtain op where op: "b = opcode_u8 op"
      and cs: "exec_op C E op st = Inl (StackOverflow k) \<or>
        (\<exists>st'. exec_op C E op st = Inr st' \<and>
               execute_bytecode C E cursor st' (Suc n) = Inl (StackOverflow k))"
      by (auto simp: execute_bytecode.simps(2) bindR_eq_Inl opcode_from_u8_iff split: if_splits)
    then show thesis
    proof (elim disjE exE conjE)
      assume "exec_op C E op st = Inl (StackOverflow k)"
      then show thesis by (intro full) (rule exec_op_overflow)
    next
      fix st'
      assume st': "exec_op C E op st = Inr st'"
        "execute_bytecode C E cursor st' (Suc n) = Inl (StackOverflow k)"
      show thesis
      proof (cases "wf_stack st")
        case True
        with exec_op_wf [OF st'(1)] st' n show thesis by (intro rest [of cursor st']) auto
      next
        case False
        have "length st' \<le> Suc (length st)"
          using st'(1) by (cases op) (auto simp: stack_op_simps split: prod.splits if_splits)
        with False st' n show thesis by (intro rest [of cursor st']) auto
      qed
    qed
  qed
qed

lemma execute_bytecode_bounds:
  assumes "execute_bytecode C E cursor st n = Inr (st', n')" "wf_stack st" "n \<le> MAX_OPS_PER_SCRIPT"
  shows "wf_stack st' \<and> n \<le> n' \<and> n' \<le> MAX_OPS_PER_SCRIPT \<and> length st' + n \<le> length st + n'
    \<and> n' \<le> n + length cursor"
  using assms
proof (induction "length cursor" arbitrary: cursor st n rule: less_induct)
  case less
  show ?case
  proof (cases cursor)
    case Nil
    with less show ?thesis by simp
  next
    case (Cons b rest)
    from less.prems(1) [unfolded Cons] show ?thesis
    proof (cases rule: execute_step_Inr)
      case push
      then have "wf_stack (take (unat b) rest # st)"
        using less.prems(2) by (simp add: wf_stack_def)
      moreover have "length (drop (unat b) rest) < length cursor" by (simp add: Cons)
      note less.hyps [OF this push(7)]
      ultimately show ?thesis using push(1,4) Cons by (simp add: Suc_le_eq) linarith
    next
      case (op op st'')
      with exec_op_wf [OF op(3) less.prems(2)] less.hyps [OF _ op(4)] Cons show ?thesis by simp
    qed
  qed
qed

lemma execute_bytecode_no_overflow:
  assumes "length st + MAX_OPS_PER_SCRIPT \<le> MAX_STACK_DEPTH + n" "n \<le> MAX_OPS_PER_SCRIPT"
  shows "execute_bytecode C E cursor st n \<noteq> Inl (StackOverflow k)"
  using assms
proof (induction "length cursor" arbitrary: cursor st n rule: less_induct)
  case less
  show ?case
  proof (cases cursor)
    case Nil
    then show ?thesis by simp
  next
    case (Cons b rest)
    show ?thesis
    proof
      assume "execute_bytecode C E cursor st n = Inl (StackOverflow k)"
      then have ov: "execute_bytecode C E (b # rest) st n = Inl (StackOverflow k)"
        by (simp add: Cons)
      then have "n < MAX_OPS_PER_SCRIPT"
        by (simp add: execute_bytecode.simps(2) split: if_splits)
      from ov show False
      proof (cases rule: execute_step_Inl)
        case full
        with less.prems \<open>n < MAX_OPS_PER_SCRIPT\<close> show False by simp
      next
        case (rest cursor' st')
        with less.hyps [of cursor' st' "Suc n"] less.prems Cons show False by simp
      qed
    qed
  qed
qed

lemma initial_stack:
  assumes "push_datum d [] = Inr st" "push_redeemer r st = Inr st'"
  shows "wf_stack st' \<and> length st' \<le> 2"
  using assms
  by (cases d; cases r) (auto simp: push_datum_def push_redeemer_def wf_stack_def)

section \<open>Running concrete script shapes\<close>

lemma execute_push [simp]:
  assumes "length d = unat b" "1 \<le> b" "b \<le> 0x4b" "n < MAX_OPS_PER_SCRIPT"
    "length st < MAX_STACK_DEPTH"
  shows "execute_bytecode C E (b # d @ cursor) st n = execute_bytecode C E cursor (d # st) (Suc n)"
proof -
  have "usize_checked_add n 1 = Some (Suc n)"
    using assms(4) by (simp add: usize_checked_add_def MAX_OPS_PER_SCRIPT_def)
  moreover have "unat b \<le> MAX_ELEMENT_SIZE"
    using assms(3) by (simp add: word_le_nat_alt MAX_ELEMENT_SIZE_def)
  ultimately show ?thesis
    using assms by (simp add: execute_bytecode.simps(2) stack_push_def)
qed

lemma execute_push_end [simp]:
  assumes "length d = unat b" "1 \<le> b" "b \<le> 0x4b" "n < MAX_OPS_PER_SCRIPT"
    "length st < MAX_STACK_DEPTH"
  shows "execute_bytecode C E (b # d) st n = Inr (d # st, Suc n)"
  using execute_push [OF assms, where cursor = "[]"] by simp

lemma execute_op:
  assumes "n < MAX_OPS_PER_SCRIPT"
  shows "execute_bytecode C E (opcode_u8 op # cursor) st n =
    bindR (exec_op C E op st) (\<lambda>st. execute_bytecode C E cursor st (Suc n))"
proof -
  have "usize_checked_add n 1 = Some (Suc n)"
    using assms by (simp add: usize_checked_add_def MAX_OPS_PER_SCRIPT_def)
  moreover have "\<not> (1 \<le> opcode_u8 op \<and> opcode_u8 op \<le> 0x4b)"
    by (cases op) simp_all
  ultimately show ?thesis
    using assms by (auto simp: execute_bytecode.simps(2))
qed

lemmas execute_op_at =
  execute_op [where op = OpCheckSig, simplified]
  execute_op [where op = OpHash256, simplified]
  execute_op [where op = OpEqual, simplified]
  execute_op [where op = OpReturn, simplified]
  execute_op [where op = OpFalse, simplified]
  execute_op [where op = OpTxOutputScript, simplified]

lemma is_truthy_bool_item [simp]: "is_truthy (bool_item b) = b"
  by (simp add: bool_item_def is_truthy_def)

lemma length_bool_item [simp]: "length (bool_item b) \<le> 520"
  by (simp add: bool_item_def)

lemmas script_limits = MAX_OPS_PER_SCRIPT_def MAX_STACK_DEPTH_def MAX_ELEMENT_SIZE_def

lemma execute_op_return:
  "\<exists>e. execute_bytecode C E (opcode_u8 OpReturn # cursor) st n = Inl e"
proof (cases "n < MAX_OPS_PER_SCRIPT")
  case True
  then show ?thesis by (simp only: execute_op exec_op.simps bindR_simps) blast
next
  case False
  then show ?thesis by (simp add: execute_bytecode.simps(2))
qed

lemma op_true_contract: "execute_contract C E [0x51] [] DatumNone None = Inr True"
  using execute_op [of 0 C E OpTrue "[]" "[]"]
  by (simp add: execute_contract_def push_datum_def push_redeemer_def script_limits stack_push_def
      is_truthy_def)

section \<open>Properties\<close>

text \<open>C35: the interpreter is total and bounded. Whatever the scripts, datum and redeemer,
  running a contract never hits the depth limit of the stack: the limit of 201 executed
  operations (shared by both scripts) is always the one that binds.\<close>

theorem execute_contract_never_overflows:
  "execute_contract C E locking unlocking d r \<noteq> Inl (StackOverflow k)"
proof
  assume "execute_contract C E locking unlocking d r = Inl (StackOverflow k)"
  moreover have "push_datum d [] \<noteq> Inl (StackOverflow k)"
    by (cases d) (simp_all add: push_datum_def script_limits)
  moreover have "push_redeemer r st \<noteq> Inl (StackOverflow k)" if "push_datum d [] = Inr st" for st
    using that by (cases d; cases r) (auto simp: push_datum_def push_redeemer_def script_limits)
  ultimately obtain st st' where st: "push_datum d [] = Inr st" "push_redeemer r st = Inr st'"
    and run: "execute_bytecode C E unlocking st' 0 = Inl (StackOverflow k) \<or>
      (\<exists>st1 n1. execute_bytecode C E unlocking st' 0 = Inr (st1, n1) \<and>
        execute_bytecode C E locking st1 n1 = Inl (StackOverflow k))"
    by (auto simp: execute_contract_def bindR_eq_Inl split: if_splits)
  from initial_stack [OF st] have st': "wf_stack st'" "length st' \<le> 2" by simp_all
  then have "length st' + MAX_OPS_PER_SCRIPT \<le> MAX_STACK_DEPTH + 0"
    by (simp add: script_limits)
  with run obtain st1 n1 where run1: "execute_bytecode C E unlocking st' 0 = Inr (st1, n1)"
    and run2: "execute_bytecode C E locking st1 n1 = Inl (StackOverflow k)"
    using execute_bytecode_no_overflow by blast
  from execute_bytecode_bounds [OF run1 st'(1)] st'(2)
  have "length st1 + MAX_OPS_PER_SCRIPT \<le> MAX_STACK_DEPTH + n1" "n1 \<le> MAX_OPS_PER_SCRIPT"
    by (simp_all add: script_limits)
  with run2 show False using execute_bytecode_no_overflow by blast
qed

text \<open>Whenever bytecode runs to its end within the limits, at most 201 operations have been
  executed, the stack holds at most 1024 items of at most 520 bytes, and each executed
  operation has grown it by at most one item.\<close>

theorem execute_bytecode_resource_bounds:
  assumes "execute_bytecode C E bytecode st n = Inr (st', n')" "wf_stack st" "n \<le> 201"
  shows "wf_stack st' \<and> n' \<le> 201 \<and> n' - n \<le> length bytecode \<and> length st' \<le> length st + (n' - n)"
  using execute_bytecode_bounds [OF assms(1,2)] assms(3) by (auto simp: MAX_OPS_PER_SCRIPT_def)

theorem execute_bytecode_resource_bounds_witness:
  "execute_bytecode flat_crypto (ScriptEngine_new flat_crypto None) [0x51, 0x73] [] 0
     = Inr ([[1], [1]], 2)
   \<and> wf_stack [[1], [1]] \<and> length ([[1], [1]] :: stack) \<le> length ([] :: stack) + (2 - 0)"
proof -
  have run: "execute_bytecode flat_crypto (ScriptEngine_new flat_crypto None) [0x51, 0x73] [] 0
      = Inr ([[1], [1]], 2)"
    by (simp add: execute_bytecode.simps(2) script_limits usize_checked_add_def ok_or_def
        opcode_from_u8_def stack_push_def stack_dup_def)
  have "wf_stack []" by (simp add: wf_stack_def)
  from execute_bytecode_resource_bounds [OF run this] show ?thesis
    using run by simp
qed

text \<open>A pay-to-public-key output. With a 64-byte signature pushed by the unlocking script and
  the locking script \<open><pubkey> OP_CHECKSIG\<close>, the contract's verdict is exactly the Ed25519
  verdict on the spending transaction's sighash for this input.\<close>

theorem p2pk_contract:
  assumes "length pk = 32" "length sig = 64" "i < length (inputs tx)"
  shows "execute_contract C
      (ScriptEngine_new C (Some \<lparr>ctx_tx = tx, current_input_index = i, current_spent_utxo = u,
         ctx_fee = f, validation_height = h\<rparr>))
      (0x20 # pk @ [opcode_u8 OpCheckSig]) (0x40 # sig) DatumNone None
    = Inr (verify_ed25519 C pk sig (as_bytes (sighash C tx i)))"
  using assms
  by (simp add: execute_contract_def push_datum_def push_redeemer_def ScriptEngine_new_def
      script_limits execute_op_at stack_push_def is_truthy_bool_item bool_item_def is_truthy_def)

theorem p2pk_contract_witness:
  "execute_contract flat_crypto
      (ScriptEngine_new flat_crypto (Some \<lparr>ctx_tx = \<lparr>tx_version = 1,
         inputs = [\<lparr>previous_output = OutPoint_new 0 0, unlocking_script = [], sequence = 0,
           redeemer = None\<rparr>], outputs = [], locktime = 0\<rparr>,
         current_input_index = 0,
         current_spent_utxo = from_output \<lparr>out_value = Quantum 5, locking_script = [],
           out_datum = DatumNone\<rparr> 0 False,
         ctx_fee = Quantum 5, validation_height = 1\<rparr>))
      (0x20 # replicate 32 0 @ [opcode_u8 OpCheckSig]) (0x40 # replicate 64 0) DatumNone None
    = Inr True"
  by (subst p2pk_contract) (simp_all add: verify_ed25519_def flat_crypto_def)

text \<open>A hash lock. A preimage revealed by the unlocking script satisfies
  \<open>OP_HASH256 <digest> OP_EQUAL\<close> exactly when it hashes to the committed digest.\<close>

theorem hash_lock_contract:
  assumes "1 \<le> length pre" "length pre \<le> 75"
  shows "execute_contract C E
      (opcode_u8 OpHash256 # 0x20 # as_bytes h @ [opcode_u8 OpEqual])
      (of_nat (length pre) # pre) DatumNone None
    = Inr (digest C pre = h)"
proof -
  have "unat (of_nat (length pre) :: u8) = length pre"
    using assms by (intro unat_of_nat_less) simp
  then have "length pre = unat (of_nat (length pre) :: u8)" "(1 :: u8) \<le> of_nat (length pre)"
    "(of_nat (length pre) :: u8) \<le> 0x4b"
    using assms by (simp_all add: word_le_nat_alt)
  then have "execute_bytecode C E (of_nat (length pre) # pre) [] 0 = Inr ([pre], 1)"
    by (subst execute_push_end) (simp_all add: script_limits)
  then show ?thesis
    by (auto simp: execute_contract_def push_datum_def push_redeemer_def
      script_limits execute_op_at stack_push_def bool_item_def is_truthy_def)
qed

theorem hash_lock_contract_witness:
  "execute_contract length_crypto (ScriptEngine_new length_crypto None)
      (opcode_u8 OpHash256 # 0x20 # as_bytes 3 @ [opcode_u8 OpEqual])
      (of_nat (length [7, 8, 9 :: u8]) # [7, 8, 9]) DatumNone None
    = Inr True
   \<and> execute_contract length_crypto (ScriptEngine_new length_crypto None)
      (opcode_u8 OpHash256 # 0x20 # as_bytes 3 @ [opcode_u8 OpEqual])
      (of_nat (length [7, 8 :: u8]) # [7, 8]) DatumNone None
    = Inr False"
  by (intro conjI; subst hash_lock_contract)
    (simp_all add: digest_def length_crypto_def flat_crypto_def)

text \<open>An output whose locking script begins with \<open>OP_RETURN\<close> can never be spent: no unlocking
  script, datum or redeemer makes the contract return a verdict at all.\<close>

theorem op_return_unspendable:
  "execute_contract C E (opcode_u8 OpReturn # rest) unlocking d r \<noteq> Inr verdict"
proof
  assume "execute_contract C E (opcode_u8 OpReturn # rest) unlocking d r = Inr verdict"
  then obtain st n where "is_ok (execute_bytecode C E (opcode_u8 OpReturn # rest) st n)"
    by (auto simp: execute_contract_def is_ok_iff)
  then show False
    using execute_op_return [of C E rest st n] by auto
qed

text \<open>A covenant. The locking script \<open>OP_0 OP_TXOUTPUTSCRIPT <digest> OP_EQUAL\<close> accepts exactly
  the spending transactions whose first output carries a locking script with that digest, and
  fails with an index error when the transaction has no output.\<close>

theorem output_script_covenant:
  assumes "eng_context E = Some ctx"
  shows "execute_contract C E
      (opcode_u8 OpFalse # opcode_u8 OpTxOutputScript # 0x20 # as_bytes h @ [opcode_u8 OpEqual])
      [] DatumNone None
    = (case outputs (ctx_tx ctx) of
         [] \<Rightarrow> Inl (IndexOutOfBounds 0)
       | out # _ \<Rightarrow> Inr (digest C (locking_script out) = h))"
  using assms
  by (auto simp: execute_contract_def push_datum_def push_redeemer_def output_at_def
      decode_u32_index_def script_limits execute_op_at stack_push_def bool_item_def is_truthy_def
      split: list.splits)

theorem output_script_covenant_witness:
  "execute_contract length_crypto
      \<lparr>eng_stack = [], eng_context = Some \<lparr>ctx_tx = \<lparr>tx_version = 1, inputs = [],
         outputs = [\<lparr>out_value = Quantum 5, locking_script = [0x51, 0x51], out_datum = DatumNone\<rparr>],
         locktime = 0\<rparr>, current_input_index = 0,
         current_spent_utxo = from_output \<lparr>out_value = Quantum 5, locking_script = [],
           out_datum = DatumNone\<rparr> 0 False,
         ctx_fee = Quantum 5, validation_height = 1\<rparr>, eng_sighash = 0\<rparr>
      (opcode_u8 OpFalse # opcode_u8 OpTxOutputScript # 0x20 # as_bytes 2 @ [opcode_u8 OpEqual])
      [] DatumNone None
    = Inr True"
  by (subst output_script_covenant, simp)
    (simp add: digest_def length_crypto_def flat_crypto_def)

end
