(* ===== verification/Storage.thy ===== *)
theory Storage
  imports Core_Block
begin

text \<open>
  The crate \<open>aurion-storage\<close>: the four tables of the canonical ledger and the operations of
  \<open>StorageEngine\<close> (\<open>engine.rs\<close>, \<open>error.rs\<close>).

  The embedded database \<open>redb\<close> is a third-party crate. It is the record \<open>redb\<close> of the calls the
  engine makes, an argument of every operation here; the engine's state is an abstract database
  handle \<open>'db\<close>. The locale \<open>redb_laws\<close> states what the engine relies on: transactions are
  snapshots, an insert or remove changes one key, \<open>commit\<close> publishes the transaction or
  nothing. Every call may fail at any time. \<open>mem_redb\<close> is a database over plain maps that
  satisfies the laws.
\<close>

section \<open>The database interface\<close>

datatype table = BLOCKS_TABLE | HEIGHT_INDEX | UTXO_TABLE | META_TABLE

datatype rkey = KBytes bytes | KU64 u64 | KStr string

type_synonym store = "table \<times> rkey \<Rightarrow> bytes option"
type_synonym redb_error = string

record ('db, 'wtx, 'rtx) redb =
  db_create :: "string \<Rightarrow> (redb_error, 'db) result"
  begin_write :: "'db \<Rightarrow> (redb_error, 'wtx) result"
  w_open_table :: "'wtx \<Rightarrow> table \<Rightarrow> (redb_error, 'wtx) result"
  w_insert :: "'wtx \<Rightarrow> table \<Rightarrow> rkey \<Rightarrow> bytes \<Rightarrow> (redb_error, 'wtx) result"
  w_remove :: "'wtx \<Rightarrow> table \<Rightarrow> rkey \<Rightarrow> (redb_error, 'wtx) result"
  w_commit :: "'db \<Rightarrow> 'wtx \<Rightarrow> (redb_error, unit) result \<times> 'db"
  begin_read :: "'db \<Rightarrow> (redb_error, 'rtx) result"
  r_open_table :: "'rtx \<Rightarrow> table \<Rightarrow> (redb_error, unit) result"
  r_get :: "'rtx \<Rightarrow> table \<Rightarrow> rkey \<Rightarrow> (redb_error, bytes option) result"

section \<open>Errors\<close>

text \<open>
  \<open>SlicePanic\<close> is not a variant of the Rust enum: it is the panic of \<open>copy_from_slice\<close> on a
  slice of another length, kept apart from the errors the code returns.
\<close>

datatype storage_error =
    DatabaseError redb_error
  | InternalError redb_error
  | TransactionError redb_error
  | TableError redb_error
  | CommitError redb_error
  | RedbStorageError redb_error
  | SerializationError codec_error
  | InconsistentMetadata string
  | SlicePanic

fun storage_error_display :: "storage_error \<Rightarrow> string" where
  "storage_error_display (DatabaseError e) = ''redb database error: '' @ e"
| "storage_error_display (InternalError e) = ''redb internal error: '' @ e"
| "storage_error_display (TransactionError e) = ''redb transaction error: '' @ e"
| "storage_error_display (TableError e) = ''redb table error: '' @ e"
| "storage_error_display (CommitError e) = ''redb commit error: '' @ e"
| "storage_error_display (RedbStorageError e) = ''redb storage error: '' @ e"
| "storage_error_display (SerializationError e) =
     ''canonical serialization failure: '' @ codec_error_display e"
| "storage_error_display (InconsistentMetadata msg) = ''inconsistent metadata: '' @ msg"
| "storage_error_display SlicePanic = ''source slice length does not match destination slice length''"

section \<open>Operations\<close>

abbreviation open_tables ::
    "('db, 'wtx, 'rtx) redb \<Rightarrow> 'wtx \<Rightarrow> (storage_error, 'wtx) result" where
  "open_tables R w \<equiv>
     foldR (\<lambda>t w. map_err TableError (w_open_table R w t))
       [BLOCKS_TABLE, HEIGHT_INDEX, UTXO_TABLE, META_TABLE] w"

definition storage_commit ::
    "('db, 'wtx, 'rtx) redb \<Rightarrow> 'db \<Rightarrow> (storage_error, 'wtx) result
     \<Rightarrow> (storage_error, unit) result \<times> 'db" where
  "storage_commit R db body = (case body of
     Inl e \<Rightarrow> (Inl e, db)
   | Inr w \<Rightarrow> (case w_commit R db w of (res, db') \<Rightarrow> (map_err CommitError res, db')))"

definition StorageEngine_open ::
    "('db, 'wtx, 'rtx) redb \<Rightarrow> string \<Rightarrow> (storage_error, 'db) result" where
  "StorageEngine_open R path =
     bindR (map_err DatabaseError (db_create R path)) (\<lambda>db.
       case storage_commit R db
              (bindR (map_err TransactionError (begin_write R db)) (\<lambda>w. open_tables R w)) of
         (Inl e, _) \<Rightarrow> Inl e
       | (Inr _, db') \<Rightarrow> Inr db')"

definition put :: "('db, 'wtx, 'rtx) redb \<Rightarrow> table \<Rightarrow> rkey \<Rightarrow> bytes \<Rightarrow> 'wtx \<Rightarrow> (storage_error, 'wtx) result"
where
  "put R t k v w = map_err RedbStorageError (w_insert R w t k v)"

definition remove_spent ::
    "('db, 'wtx, 'rtx) redb \<Rightarrow> outpoint \<Rightarrow> 'wtx \<Rightarrow> (storage_error, 'wtx) result" where
  "remove_spent R op w =
     map_err RedbStorageError (w_remove R w UTXO_TABLE (KBytes (encode_outpoint op)))"

definition insert_outputs ::
    "('db, 'wtx, 'rtx) redb \<Rightarrow> 'vk crypto \<Rightarrow> transaction \<Rightarrow> 'wtx \<Rightarrow> (storage_error, 'wtx) result"
where
  "insert_outputs R C tx =
     foldR (\<lambda>(vout, out). put R UTXO_TABLE
              (KBytes (encode_outpoint (OutPoint_new (txid C tx) (of_nat vout))))
              (encode_tx_output out))
       (enumerate_from 0 (outputs tx))"

definition commit_block ::
    "('db, 'wtx, 'rtx) redb \<Rightarrow> 'vk crypto \<Rightarrow> 'db \<Rightarrow> block \<Rightarrow> outpoint list
     \<Rightarrow> (storage_error, unit) result \<times> 'db" where
  "commit_block R C db block spent_inputs =
     storage_commit R db
       (bindR (map_err TransactionError (begin_write R db)) (\<lambda>w.
        bindR (open_tables R w) (\<lambda>w.
        let hash = block_hash C block in
        bindR (put R BLOCKS_TABLE (KBytes (as_bytes hash)) (encode_block block) w) (\<lambda>w.
        bindR (put R HEIGHT_INDEX (KU64 (height (header block))) (as_bytes hash) w) (\<lambda>w.
        bindR (foldR (remove_spent R) spent_inputs w) (\<lambda>w.
        bindR (foldR (insert_outputs R C) (transactions block) w) (\<lambda>w.
        bindR (put R META_TABLE (KStr ''tip_height'') (to_be_bytes (height (header block))) w) (\<lambda>w.
          put R META_TABLE (KStr ''tip_hash'') (as_bytes hash) w))))))))"

definition read_key ::
    "('db, 'wtx, 'rtx) redb \<Rightarrow> 'rtx \<Rightarrow> table \<Rightarrow> rkey \<Rightarrow> (storage_error, bytes option) result" where
  "read_key R r t k = map_err RedbStorageError (r_get R r t k)"

definition read_table ::
    "('db, 'wtx, 'rtx) redb \<Rightarrow> 'db \<Rightarrow> table \<Rightarrow> ('rtx \<Rightarrow> (storage_error, 'a) result)
     \<Rightarrow> (storage_error, 'a) result" where
  "read_table R db t f =
     bindR (map_err TransactionError (begin_read R db)) (\<lambda>r.
     bindR (map_err TableError (r_open_table R r t)) (\<lambda>_. f r))"

definition get_block ::
    "('db, 'wtx, 'rtx) redb \<Rightarrow> 'db \<Rightarrow> hash256 \<Rightarrow> (storage_error, block option) result" where
  "get_block R db hash = read_table R db BLOCKS_TABLE (\<lambda>r.
     bindR (read_key R r BLOCKS_TABLE (KBytes (as_bytes hash))) (\<lambda>guard. case guard of
       Some val \<Rightarrow>
         bindR (map_err SerializationError (decode_canonical decode_block val)) (\<lambda>b. Inr (Some b))
     | None \<Rightarrow> Inr None))"

definition get_block_by_height ::
    "('db, 'wtx, 'rtx) redb \<Rightarrow> 'db \<Rightarrow> u64 \<Rightarrow> (storage_error, block option) result" where
  "get_block_by_height R db h =
     bindR (read_table R db HEIGHT_INDEX (\<lambda>r. read_key R r HEIGHT_INDEX (KU64 h))) (\<lambda>guard.
     case guard of
       Some val \<Rightarrow> if length val \<noteq> 32 then Inl SlicePanic else get_block R db (from_bytes val)
     | None \<Rightarrow> Inr None)"

definition get_utxo ::
    "('db, 'wtx, 'rtx) redb \<Rightarrow> 'db \<Rightarrow> outpoint \<Rightarrow> (storage_error, tx_output option) result" where
  "get_utxo R db op = read_table R db UTXO_TABLE (\<lambda>r.
     bindR (read_key R r UTXO_TABLE (KBytes (encode_outpoint op))) (\<lambda>guard. case guard of
       Some val \<Rightarrow>
         bindR (map_err SerializationError (decode_canonical decode_tx_output val))
           (\<lambda>out. Inr (Some out))
     | None \<Rightarrow> Inr None))"

definition get_tip ::
    "('db, 'wtx, 'rtx) redb \<Rightarrow> 'db \<Rightarrow> (storage_error, (u64 \<times> hash256) option) result" where
  "get_tip R db = read_table R db META_TABLE (\<lambda>r.
     bindR (read_key R r META_TABLE (KStr ''tip_height'')) (\<lambda>h_guard.
     bindR (read_key R r META_TABLE (KStr ''tip_hash'')) (\<lambda>hash_guard.
       case (h_guard, hash_guard) of
         (Some h, Some hash) \<Rightarrow>
           if length h \<noteq> 8 \<or> length hash \<noteq> 32 then Inl SlicePanic
           else Inr (Some (from_be_bytes h, from_bytes hash))
       | _ \<Rightarrow> Inr None)))"

section \<open>What the engine relies on\<close>

locale redb_laws =
  fixes R :: "('db, 'wtx, 'rtx) redb"
    and view :: "'db \<Rightarrow> store"
    and wview :: "'wtx \<Rightarrow> store"
    and rview :: "'rtx \<Rightarrow> store"
  assumes begin_write_snapshot: "begin_write R db = Inr w \<Longrightarrow> wview w = view db"
    and open_table_keeps: "w_open_table R w t = Inr w' \<Longrightarrow> wview w' = wview w"
    and insert_updates: "w_insert R w t k v = Inr w' \<Longrightarrow> wview w' = (wview w)((t, k) \<mapsto> v)"
    and remove_updates: "w_remove R w t k = Inr w' \<Longrightarrow> wview w' = (wview w)((t, k) := None)"
    and commit_publishes: "w_commit R db w = (Inr u, db') \<Longrightarrow> view db' = wview w"
    and commit_aborts: "w_commit R db w = (Inl e, db') \<Longrightarrow> view db' = view db"
    and begin_read_snapshot: "begin_read R db = Inr r \<Longrightarrow> rview r = view db"
    and get_reads: "r_get R r t k = Inr res \<Longrightarrow> res = rview r (t, k)"

text \<open>A database on which no call fails: the laws, and progress.\<close>

locale redb_healthy = redb_laws +
  assumes begin_write_ok: "is_ok (begin_write R db)"
    and open_table_ok: "is_ok (w_open_table R w t)"
    and insert_ok: "is_ok (w_insert R w t k v)"
    and remove_ok: "is_ok (w_remove R w t k)"
    and commit_ok: "is_ok (fst (w_commit R db w))"
    and begin_read_ok: "is_ok (begin_read R db)"
    and r_open_table_ok: "is_ok (r_open_table R r t)"
    and r_get_ok: "is_ok (r_get R r t k)"

definition mem_redb :: "(store, store, store) redb" where
  "mem_redb =
     \<lparr>db_create = (\<lambda>path. Inr (\<lambda>_. None)), begin_write = Inr, w_open_table = (\<lambda>w t. Inr w),
      w_insert = (\<lambda>w t k v. Inr (w((t, k) \<mapsto> v))), w_remove = (\<lambda>w t k. Inr (w((t, k) := None))),
      w_commit = (\<lambda>db w. (Inr (), w)), begin_read = Inr, r_open_table = (\<lambda>r t. Inr ()),
      r_get = (\<lambda>r t k. Inr (r (t, k)))\<rparr>"

interpretation mem: redb_healthy mem_redb id id id
  by unfold_locales (auto simp: mem_redb_def)

section \<open>The abstract ledger\<close>

text \<open>
  The contract of the engine on the contents of the tables: one pure update per block, and
  pure reads.
\<close>

definition utxo_key :: "outpoint \<Rightarrow> table \<times> rkey" where
  "utxo_key op = (UTXO_TABLE, KBytes (encode_outpoint op))"

definition created_outputs :: "'vk crypto \<Rightarrow> transaction \<Rightarrow> (outpoint \<times> tx_output) list" where
  "created_outputs C tx =
     map (\<lambda>(vout, out). (OutPoint_new (txid C tx) (of_nat vout), out)) (enumerate_from 0 (outputs tx))"

definition add_utxo :: "outpoint \<times> tx_output \<Rightarrow> store \<Rightarrow> store" where
  "add_utxo p s = s(utxo_key (fst p) \<mapsto> encode_tx_output (snd p))"

definition del_utxo :: "outpoint \<Rightarrow> store \<Rightarrow> store" where
  "del_utxo op s = s(utxo_key op := None)"

definition block_outputs :: "'vk crypto \<Rightarrow> block \<Rightarrow> (outpoint \<times> tx_output) list" where
  "block_outputs C block = concat (map (created_outputs C) (transactions block))"

definition apply_utxos :: "'vk crypto \<Rightarrow> block \<Rightarrow> outpoint list \<Rightarrow> store \<Rightarrow> store" where
  "apply_utxos C block spent s = fold add_utxo (block_outputs C block) (fold del_utxo spent s)"

definition apply_block :: "'vk crypto \<Rightarrow> block \<Rightarrow> outpoint list \<Rightarrow> store \<Rightarrow> store" where
  "apply_block C block spent s =
     (apply_utxos C block spent
       (s((BLOCKS_TABLE, KBytes (as_bytes (block_hash C block))) \<mapsto> encode_block block,
          (HEIGHT_INDEX, KU64 (height (header block))) \<mapsto> as_bytes (block_hash C block))))
     ((META_TABLE, KStr ''tip_height'') \<mapsto> to_be_bytes (height (header block)),
      (META_TABLE, KStr ''tip_hash'') \<mapsto> as_bytes (block_hash C block))"

definition store_utxo :: "store \<Rightarrow> outpoint \<Rightarrow> (storage_error, tx_output option) result" where
  "store_utxo s op = (case s (utxo_key op) of
     None \<Rightarrow> Inr None
   | Some val \<Rightarrow> bindR (map_err SerializationError (decode_canonical decode_tx_output val))
                    (\<lambda>out. Inr (Some out)))"

definition store_tip :: "store \<Rightarrow> (storage_error, (u64 \<times> hash256) option) result" where
  "store_tip s = (case (s (META_TABLE, KStr ''tip_height''), s (META_TABLE, KStr ''tip_hash'')) of
     (Some h, Some hash) \<Rightarrow>
       if length h \<noteq> 8 \<or> length hash \<noteq> 32 then Inl SlicePanic
       else Inr (Some (from_be_bytes h, from_bytes hash))
   | _ \<Rightarrow> Inr None)"

definition store_block :: "store \<Rightarrow> hash256 \<Rightarrow> (storage_error, block option) result" where
  "store_block s hash = (case s (BLOCKS_TABLE, KBytes (as_bytes hash)) of
     None \<Rightarrow> Inr None
   | Some val \<Rightarrow> bindR (map_err SerializationError (decode_canonical decode_block val))
                    (\<lambda>b. Inr (Some b)))"

definition store_block_by_height :: "store \<Rightarrow> u64 \<Rightarrow> (storage_error, block option) result" where
  "store_block_by_height s h = (case s (HEIGHT_INDEX, KU64 h) of
     None \<Rightarrow> Inr None
   | Some val \<Rightarrow> if length val \<noteq> 32 then Inl SlicePanic else store_block s (from_bytes val))"

lemma utxo_key_inj [simp]: "utxo_key a = utxo_key b \<longleftrightarrow> a = b"
  by (simp add: utxo_key_def)

lemma utxo_key_other [simp]:
  "utxo_key op \<noteq> (BLOCKS_TABLE, k)" "utxo_key op \<noteq> (HEIGHT_INDEX, k)" "utxo_key op \<noteq> (META_TABLE, k)"
  by (simp_all add: utxo_key_def)

lemma fold_del_utxo_other [simp]:
  "fst k \<noteq> UTXO_TABLE \<Longrightarrow> fold del_utxo ops s k = s k"
  by (induction ops arbitrary: s) (auto simp: del_utxo_def utxo_key_def)

lemma fold_add_utxo_other [simp]:
  "fst k \<noteq> UTXO_TABLE \<Longrightarrow> fold add_utxo ps s k = s k"
  by (induction ps arbitrary: s) (auto simp: add_utxo_def utxo_key_def)

lemma fold_del_utxo_at:
  "fold del_utxo ops s (utxo_key op) = (if op \<in> set ops then None else s (utxo_key op))"
  by (induction ops arbitrary: s) (auto simp: del_utxo_def)

lemma fold_add_utxo_at:
  "fold add_utxo ps s (utxo_key op) =
     (case map_of (rev ps) op of Some out \<Rightarrow> Some (encode_tx_output out) | None \<Rightarrow> s (utxo_key op))"
  by (induction ps arbitrary: s) (auto simp: add_utxo_def map_add_def split: option.splits)

lemma apply_block_utxo:
  "apply_block C block spent s (utxo_key op) =
     (case map_of (rev (block_outputs C block)) op of
        Some out \<Rightarrow> Some (encode_tx_output out)
      | None \<Rightarrow> if op \<in> set spent then None else s (utxo_key op))"
  by (simp add: apply_block_def apply_utxos_def fold_add_utxo_at fold_del_utxo_at
      split: option.split)

lemma apply_block_tip:
  "store_tip (apply_block C block spent s) = Inr (Some (height (header block), block_hash C block))"
  by (simp add: store_tip_def apply_block_def as_bytes_def [symmetric])

lemma apply_block_block:
  assumes "wf_block block"
  shows "store_block (apply_block C block spent s) (block_hash C block) = Inr (Some block)"
    and "store_block_by_height (apply_block C block spent s) (height (header block)) = Inr (Some block)"
  using assms
  by (simp_all add: store_block_by_height_def store_block_def apply_block_def apply_utxos_def
      block.roundtrip)

section \<open>The engine implements the abstract ledger\<close>

context redb_laws
begin

lemma open_tables_view: "open_tables R w = Inr w' \<Longrightarrow> wview w' = wview w"
  by (auto dest!: open_table_keeps)

lemma put_view: "put R t k v w = Inr w' \<Longrightarrow> wview w' = (wview w)((t, k) \<mapsto> v)"
  by (auto simp: put_def dest: insert_updates)

lemma remove_spent_view: "remove_spent R op w = Inr w' \<Longrightarrow> wview w' = del_utxo op (wview w)"
  by (auto simp: remove_spent_def del_utxo_def utxo_key_def dest: remove_updates)

lemma insert_outputs_view:
  assumes "insert_outputs R C tx w = Inr w'"
  shows "wview w' = fold add_utxo (created_outputs C tx) (wview w)"
proof -
  have "wview w' = fold (\<lambda>p. add_utxo (OutPoint_new (txid C tx) (of_nat (fst p)), snd p))
      (enumerate_from 0 (outputs tx)) (wview w)"
    by (rule foldR_simulation [OF _ assms [unfolded insert_outputs_def]])
      (auto simp: add_utxo_def utxo_key_def dest!: put_view)
  then show ?thesis
    by (simp add: created_outputs_def fold_map comp_def case_prod_beta)
qed

lemma insert_all_view:
  assumes "foldR (insert_outputs R C) txs w = Inr w'"
  shows "wview w' = fold add_utxo (concat (map (created_outputs C) txs)) (wview w)"
proof -
  have "wview w' = fold (\<lambda>tx. fold add_utxo (created_outputs C tx)) txs (wview w)"
    by (rule foldR_simulation [OF _ assms]) (rule insert_outputs_view)
  then show ?thesis by (simp add: fold_concat_map)
qed

lemma commit_block_applies:
  assumes "commit_block R C db block spent = (Inr u, db')"
  shows "view db' = apply_block C block spent (view db)"
proof -
  from assms obtain w w1 w2 w3 w4 w5 w6 w7 where
      w: "begin_write R db = Inr w" "open_tables R w = Inr w1"
        "put R BLOCKS_TABLE (KBytes (as_bytes (block_hash C block))) (encode_block block) w1 = Inr w2"
        "put R HEIGHT_INDEX (KU64 (height (header block))) (as_bytes (block_hash C block)) w2 = Inr w3"
        "foldR (remove_spent R) spent w3 = Inr w4"
        "foldR (insert_outputs R C) (transactions block) w4 = Inr w5"
        "put R META_TABLE (KStr ''tip_height'') (to_be_bytes (height (header block))) w5 = Inr w6"
        "put R META_TABLE (KStr ''tip_hash'') (as_bytes (block_hash C block)) w6 = Inr w7"
      and c: "w_commit R db w7 = (Inr u, db')"
    by (auto simp: commit_block_def storage_commit_def Let_def split: sum.splits prod.splits)
  have "wview w4 = fold del_utxo spent (wview w3)"
    by (rule foldR_simulation [OF _ w(5)]) (rule remove_spent_view)
  then show ?thesis
    using begin_write_snapshot [OF w(1)] open_tables_view [OF w(2)] w(3,4,7,8) [THEN put_view]
      insert_all_view [OF w(6)] commit_publishes [OF c]
    by (simp add: apply_block_def apply_utxos_def block_outputs_def)
qed

lemma commit_block_atomic:
  assumes "commit_block R C db block spent = (Inl e, db')"
  shows "view db' = view db"
proof -
  from assms show ?thesis
    by (auto simp: commit_block_def storage_commit_def map_err_eq_Inl
        split: sum.splits prod.splits dest: commit_aborts)
qed

lemma read_table_view:
  assumes "read_table R db t f = Inr x"
  obtains r where "rview r = view db" "f r = Inr x"
  using assms by (auto simp: read_table_def dest!: begin_read_snapshot)

lemma read_key_view: "read_key R r t k = Inr v \<Longrightarrow> v = rview r (t, k)"
  by (auto simp: read_key_def dest: get_reads)

lemma get_utxo_reads: "get_utxo R db op = Inr x \<Longrightarrow> store_utxo (view db) op = Inr x"
  unfolding get_utxo_def store_utxo_def
  by (erule read_table_view) (auto simp: utxo_key_def dest!: read_key_view)

lemma get_tip_reads: "get_tip R db = Inr x \<Longrightarrow> store_tip (view db) = Inr x"
  unfolding get_tip_def store_tip_def
  by (erule read_table_view) (auto dest!: read_key_view cong: option.case_cong)

lemma get_block_reads: "get_block R db hash = Inr x \<Longrightarrow> store_block (view db) hash = Inr x"
  unfolding get_block_def store_block_def
  by (erule read_table_view) (auto dest!: read_key_view)

lemma get_block_by_height_reads:
  "get_block_by_height R db h = Inr x \<Longrightarrow> store_block_by_height (view db) h = Inr x"
  unfolding get_block_by_height_def store_block_by_height_def
  by (auto elim!: read_table_view dest!: read_key_view get_block_reads split: option.splits if_splits)

end

context redb_healthy
begin

lemma read_table_ok:
  "(\<And>r. rview r = view db \<Longrightarrow> f r = y) \<Longrightarrow> read_table R db t f = y"
  using begin_read_ok [of db] r_open_table_ok
  by (auto simp: read_table_def is_ok_iff bindR_def split: sum.splits dest: begin_read_snapshot)

lemma read_key_ok: "read_key R r t k = Inr (rview r (t, k))"
  using r_get_ok [of r t k] by (auto simp: read_key_def is_ok_iff dest: get_reads)

lemma get_utxo_ok: "get_utxo R db op = store_utxo (view db) op"
  unfolding get_utxo_def by (rule read_table_ok) (simp add: read_key_ok store_utxo_def utxo_key_def)

lemma get_tip_ok: "get_tip R db = store_tip (view db)"
  unfolding get_tip_def by (rule read_table_ok) (simp add: read_key_ok store_tip_def)

lemma get_block_ok: "get_block R db hash = store_block (view db) hash"
  unfolding get_block_def by (rule read_table_ok) (simp add: read_key_ok store_block_def)

lemma get_block_by_height_ok: "get_block_by_height R db h = store_block_by_height (view db) h"
proof -
  have "read_table R db HEIGHT_INDEX (\<lambda>r. read_key R r HEIGHT_INDEX (KU64 h))
      = Inr (view db (HEIGHT_INDEX, KU64 h))"
    by (rule read_table_ok) (simp add: read_key_ok)
  then show ?thesis
    by (simp add: get_block_by_height_def store_block_by_height_def get_block_ok split: option.split)
qed

lemma put_ok: "is_ok (put R t k v w)"
  by (simp add: put_def insert_ok)

lemma open_tables_ok: "is_ok (open_tables R w)"
  by (rule foldR_is_ok) (simp add: open_table_ok)

lemma commit_block_ok: "\<exists>db'. commit_block R C db block spent = (Inr (), db')"
proof -
  have rem: "is_ok (foldR (remove_spent R) ops w)" for ops w
    by (rule foldR_is_ok) (simp add: remove_spent_def remove_ok)
  have ins: "is_ok (foldR (insert_outputs R C) txs w)" for txs w
    by (rule foldR_is_ok) (auto simp: insert_outputs_def intro!: foldR_is_ok put_ok)
  have tx: "is_ok (bindR (map_err TransactionError (begin_write R db)) f)"
    if "\<And>w. is_ok (f w)" for f :: "'b \<Rightarrow> (storage_error, 'b) result"
    by (rule is_ok_bindR) (simp_all add: begin_write_ok that)
  have sc: "is_ok (fst (storage_commit R db body))" if "is_ok body" for body
    using that commit_ok [of db] by (auto simp: storage_commit_def is_ok_iff split: prod.splits)
       (metis fst_conv)
  have "is_ok (fst (commit_block R C db block spent))"
    unfolding commit_block_def Let_def
    by (intro sc tx is_ok_bindR open_tables_ok put_ok rem ins)
  then show ?thesis by (auto simp: is_ok_iff) (metis prod.collapse)
qed

end

section \<open>Circulating supply\<close>

lemma finite_outpoints [simp]: "finite (UNIV :: outpoint set)"
proof (rule finite_imageD)
  show "finite ((\<lambda>op :: outpoint. (op_txid op, op_vout op)) ` UNIV)"
    by (rule finite_subset [OF subset_UNIV]) simp
  show "inj (\<lambda>op :: outpoint. (op_txid op, op_vout op))"
    by (rule injI) (simp add: outpoint.equality)
qed

text \<open>The value a UTXO entry is worth to a reader of the ledger, and the sum over the ledger.\<close>

definition utxo_amount :: "store \<Rightarrow> outpoint \<Rightarrow> nat" where
  "utxo_amount s op = (case store_utxo s op of Inr (Some out) \<Rightarrow> amount (out_value out) | _ \<Rightarrow> 0)"

definition total_supply :: "store \<Rightarrow> nat" where
  "total_supply s = (\<Sum>op\<in>UNIV. utxo_amount s op)"

lemma store_utxo_cong: "s (utxo_key op) = s' (utxo_key op) \<Longrightarrow> store_utxo s op = store_utxo s' op"
  by (simp add: store_utxo_def)

lemma utxo_amount_cong: "s (utxo_key op) = s' (utxo_key op) \<Longrightarrow> utxo_amount s op = utxo_amount s' op"
  by (simp add: utxo_amount_def store_utxo_def)

lemma supply_cong: "(\<And>op. s (utxo_key op) = s' (utxo_key op)) \<Longrightarrow> total_supply s = total_supply s'"
  unfolding total_supply_def by (rule sum.cong) (auto intro: utxo_amount_cong)

lemma utxo_amount_add_self: "utxo_amount (add_utxo (op, out) s) op \<le> amount (out_value out)"
proof -
  have "out_value out' = out_value out"
    if "decode_canonical decode_tx_output (encode_tx_output out) = Inr out'" for out'
    using that
    by (auto simp: decode_canonical_def split: prod.splits if_splits dest: decode_encode_output_value)
  then show ?thesis
    by (cases "decode_canonical decode_tx_output (encode_tx_output out)")
      (auto simp: utxo_amount_def store_utxo_def add_utxo_def)
qed

lemma utxo_amount_add_other:
  "op' \<noteq> op \<Longrightarrow> utxo_amount (add_utxo (op, out) s) op' = utxo_amount s op'"
  by (rule utxo_amount_cong) (simp add: add_utxo_def)

lemma utxo_amount_del:
  "utxo_amount (del_utxo op s) op' = (if op' = op then 0 else utxo_amount s op')"
  by (auto simp: utxo_amount_def store_utxo_def del_utxo_def)

lemma supply_split: "total_supply s = utxo_amount s op + (\<Sum>op'\<in>UNIV - {op}. utxo_amount s op')"
  unfolding total_supply_def by (rule sum.remove) simp_all

lemma supply_add: "total_supply (add_utxo (op, out) s) \<le> total_supply s + amount (out_value out)"
proof -
  have "(\<Sum>op'\<in>UNIV - {op}. utxo_amount (add_utxo (op, out) s) op')
      = (\<Sum>op'\<in>UNIV - {op}. utxo_amount s op')"
    by (rule sum.cong) (simp_all add: utxo_amount_add_other)
  with utxo_amount_add_self [of op out s] show ?thesis
    by (simp add: supply_split [of _ op])
qed

lemma supply_del: "total_supply (del_utxo op s) + utxo_amount s op = total_supply s"
proof -
  have "(\<Sum>op'\<in>UNIV - {op}. utxo_amount (del_utxo op s) op')
      = (\<Sum>op'\<in>UNIV - {op}. utxo_amount s op')"
    by (rule sum.cong) (simp_all add: utxo_amount_del)
  then show ?thesis by (simp add: supply_split [of _ op] utxo_amount_del)
qed

lemma supply_fold_add:
  "total_supply (fold add_utxo ps s) \<le> total_supply s + sum_list (map (\<lambda>p. amount (out_value (snd p))) ps)"
proof (induction ps arbitrary: s)
  case (Cons p ps)
  show ?case using Cons [of "add_utxo p s"] supply_add [of "fst p" "snd p" s] by simp
qed simp

lemma supply_fold_del:
  "distinct ops \<Longrightarrow> total_supply (fold del_utxo ops s) + sum_list (map (utxo_amount s) ops) = total_supply s"
proof (induction ops arbitrary: s)
  case (Cons op ops)
  have "map (utxo_amount (del_utxo op s)) ops = map (utxo_amount s) ops"
    using Cons.prems by (auto simp: utxo_amount_del)
  with Cons.IH [of "del_utxo op s"] Cons.prems supply_del [of op s] show ?case by simp
qed simp

lemma block_outputs_total:
  "sum_list (map (\<lambda>p. amount (out_value (snd p))) (concat (map (created_outputs C) txs)))
   = sum_list (map (\<lambda>tx. sum_list (map (\<lambda>out. amount (out_value out)) (outputs tx))) txs)"
proof (induction txs)
  case (Cons tx txs)
  have "map (\<lambda>p. amount (out_value (snd p))) (created_outputs C tx)
      = map (\<lambda>out. amount (out_value out)) (outputs tx)"
    using map_snd_comp_enumerate_from [of "\<lambda>out. amount (out_value out)" 0 "outputs tx"]
    by (simp add: created_outputs_def comp_def case_prod_beta)
  with Cons show ?case by simp
qed simp

lemma supply_apply_block:
  assumes "distinct spent"
  shows "total_supply (apply_block C block spent s) + sum_list (map (utxo_amount s) spent) \<le>
    total_supply s + sum_list (map (\<lambda>tx. sum_list (map (\<lambda>out. amount (out_value out)) (outputs tx)))
      (transactions block))"
proof -
  have "total_supply (apply_block C block spent s) = total_supply (apply_utxos C block spent s)"
    by (rule supply_cong)
      (simp add: apply_block_def apply_utxos_def fold_add_utxo_at fold_del_utxo_at split: option.split)
  then show ?thesis
    using supply_fold_add [of "block_outputs C block" "fold del_utxo spent s"]
      supply_fold_del [OF assms, of s] block_outputs_total [of C "transactions block"]
    by (simp add: apply_utxos_def block_outputs_def)
qed

section \<open>Properties\<close>

text \<open>C17: \<open>commit_block\<close> refines the abstract ledger update and is atomic: success publishes exactly
  the update for the block and its spent outpoints, any error leaves the tables as they were.\<close>

theorem commit_block_refines:
  assumes "redb_laws R view wview rview" "commit_block R C db block spent = (res, db')"
  shows "view db' = (case res of Inr _ \<Rightarrow> apply_block C block spent (view db) | Inl _ \<Rightarrow> view db)"
  using redb_laws.commit_block_applies [OF assms(1)] redb_laws.commit_block_atomic [OF assms(1)] assms(2)
  by (cases res) auto

theorem commit_block_refines_witness:
  "snd (commit_block mem_redb flat_crypto (\<lambda>_. None)
     \<lparr>header = \<lparr>version = 1, prev_block_hash = 0, merkle_root = 0, timestamp = 0, bits = 0, nonce = 0,
        height = 7\<rparr>, transactions = []\<rparr> [OutPoint_new 3 0])
   = apply_block flat_crypto
     \<lparr>header = \<lparr>version = 1, prev_block_hash = 0, merkle_root = 0, timestamp = 0, bits = 0, nonce = 0,
        height = 7\<rparr>, transactions = []\<rparr> [OutPoint_new 3 0] (\<lambda>_. None)"
proof -
  let ?b = "\<lparr>header = \<lparr>version = 1, prev_block_hash = 0, merkle_root = 0, timestamp = 0, bits = 0,
      nonce = 0, height = 7\<rparr>, transactions = []\<rparr> :: block"
  obtain db' where run: "commit_block mem_redb flat_crypto (\<lambda>_. None) ?b [OutPoint_new 3 0] = (Inr (), db')"
    using mem.commit_block_ok by blast
  from commit_block_refines [OF mem.redb_laws_axioms run] run show ?thesis by simp
qed

text \<open>What is written is read back. After a successful commit of a well-formed block on a
  working database, the tip is that block's height and hash, the block is found by hash and by
  height, and each outpoint reads as created, spent or unchanged.\<close>

theorem commit_block_read_back:
  assumes "redb_healthy R view wview rview" "commit_block R C db block spent = (Inr u, db')" "wf_block block"
  shows "get_tip R db' = Inr (Some (height (header block), block_hash C block)) \<and>
    get_block R db' (block_hash C block) = Inr (Some block) \<and>
    get_block_by_height R db' (height (header block)) = Inr (Some block) \<and>
    get_utxo R db' op = (case map_of (rev (block_outputs C block)) op of
       Some out \<Rightarrow> Inr (Some out)
     | None \<Rightarrow> if op \<in> set spent then Inr None else get_utxo R db op)"
proof -
  have laws: "redb_laws R view wview rview" using assms(1) by (rule redb_healthy.axioms)
  note v = redb_laws.commit_block_applies [OF laws assms(2)]
  note ok = redb_healthy.get_tip_ok [OF assms(1)] redb_healthy.get_block_ok [OF assms(1)]
    redb_healthy.get_block_by_height_ok [OF assms(1)] redb_healthy.get_utxo_ok [OF assms(1)]
  have "wf_tx_output out" if "map_of (rev (block_outputs C block)) op = Some out" for out
  proof -
    from map_of_SomeD [OF that] obtain tx i where "tx \<in> set (transactions block)"
      "(i, out) \<in> set (enumerate_from 0 (outputs tx))"
      by (auto simp: block_outputs_def created_outputs_def)
    then show ?thesis using assms(3)
      by (auto simp: wf_block_def wf_tx_def list_all_iff enumerate_from_def dest: set_zip_rightD)
  qed
  then have "store_utxo (view db') op = (case map_of (rev (block_outputs C block)) op of
       Some out \<Rightarrow> Inr (Some out)
     | None \<Rightarrow> if op \<in> set spent then Inr None else store_utxo (view db) op)"
    by (auto simp: v store_utxo_def apply_block_utxo tx_output.roundtrip split: option.split)
  then show ?thesis
    by (simp add: ok v apply_block_tip apply_block_block [OF assms(3)] split: option.split)
qed

theorem commit_block_read_back_witness:
  "get_tip mem_redb (snd (commit_block mem_redb flat_crypto (\<lambda>_. None)
     \<lparr>header = \<lparr>version = 1, prev_block_hash = 0, merkle_root = 0, timestamp = 0, bits = 0, nonce = 0,
        height = 7\<rparr>, transactions = []\<rparr> [])) = Inr (Some (7, 0))"
proof -
  let ?b = "\<lparr>header = \<lparr>version = 1, prev_block_hash = 0, merkle_root = 0, timestamp = 0, bits = 0,
      nonce = 0, height = 7\<rparr>, transactions = []\<rparr> :: block"
  obtain db' where run: "commit_block mem_redb flat_crypto (\<lambda>_. None) ?b [] = (Inr (), db')"
    using mem.commit_block_ok by blast
  have "wf_block ?b" by (simp add: wf_block_def)
  from commit_block_read_back [OF mem.redb_healthy_axioms run this] run show ?thesis
    by (simp add: block_hash_def header_hash_def digest_def flat_crypto_def)
qed

end
