(* ===== verification/Authority.thy ===== *)
theory Authority
  imports Consensus Script Storage
begin

text \<open>
  The sovereign core of the crate \<open>aurion-node\<close>: node life cycle and faults
  (\<open>lifecycle/*.rs\<close>), the invariants a block is checked against (\<open>authority/invariants.rs\<close>)
  and the authority engine that owns the ledger (\<open>authority/engine.rs\<close>).
\<close>

section \<open>Life cycle\<close>

datatype node_fault =
    StorageCommitFailure string
  | InvariantViolation string
  | ConsensusViolation string
  | StateCorruption string
  | HardwareViolation string

datatype node_state = Starting | Recovering | Running | Stopped | Failed node_fault

fun is_operational :: "node_state \<Rightarrow> bool" where
  "is_operational Running = True"
| "is_operational _ = False"

fun is_failed :: "node_state \<Rightarrow> bool" where
  "is_failed (Failed _) = True"
| "is_failed _ = False"

lemma is_operational_iff: "is_operational st \<longleftrightarrow> st = Running"
  by (cases st) auto

section \<open>Block invariants\<close>

datatype invariant_error =
    DuplicateInputSpend outpoint
  | MissingUtxo outpoint
  | ScriptExecutionFailed string usize script_error
  | ValueInflation string string string
  | InvArithmeticOverflow

fun invariant_error_display :: "invariant_error \<Rightarrow> string" where
  "invariant_error_display (DuplicateInputSpend op) =
     ''duplicate input spent in the same block: '' @ outpoint_display op"
| "invariant_error_display (MissingUtxo op) =
     ''input not found in canonical UTXO set: '' @ outpoint_display op"
| "invariant_error_display (ScriptExecutionFailed id_str input_index err) =
     ''script verification failed for tx '' @ id_str @ '' input '' @ show_nat input_index
     @ '': '' @ script_error_display err"
| "invariant_error_display (ValueInflation id_str ins outs) =
     ''value conservation violation in tx '' @ id_str @ '': inputs '' @ ins @ '' < outputs '' @ outs"
| "invariant_error_display InvArithmeticOverflow =
     ''arithmetic overflow during invariant calculation''"

type_synonym utxo_lookup = "outpoint \<Rightarrow> tx_output option"

definition sum_outputs :: "transaction \<Rightarrow> (invariant_error, quantum) result" where
  "sum_outputs tx =
     foldR (\<lambda>out acc. map_err (\<lambda>_. InvArithmeticOverflow) (quantum_checked_add acc (out_value out)))
       (outputs tx) QUANTUM_ZERO"

type_synonym collected = "outpoint set \<times> quantum \<times> (usize \<times> tx_input \<times> tx_output) list"

fun collect_input ::
    "utxo_lookup \<Rightarrow> usize \<times> tx_input \<Rightarrow> collected \<Rightarrow> (invariant_error, collected) result" where
  "collect_input lookup (input_idx, inp) (spent_set, total_input_val, tx_spent_utxos) =
     (let op = previous_output inp in
      if op \<in> spent_set then Inl (DuplicateInputSpend op)
      else
        bindR (ok_or (MissingUtxo op) (lookup op)) (\<lambda>utxo.
        bindR (map_err (\<lambda>_. InvArithmeticOverflow)
                 (quantum_checked_add total_input_val (out_value utxo))) (\<lambda>total_input_val.
          Inr (insert op spent_set, total_input_val, tx_spent_utxos @ [(input_idx, inp, utxo)]))))"

definition input_verdict ::
    "'vk crypto \<Rightarrow> transaction \<Rightarrow> quantum \<Rightarrow> u64 \<Rightarrow> usize \<Rightarrow> tx_input \<Rightarrow> tx_output
     \<Rightarrow> (script_error, bool) result" where
  "input_verdict C tx tx_fee h input_idx inp utxo =
     (let spent_extended_utxo = from_output utxo 0 False;
          ctx = \<lparr>ctx_tx = tx, current_input_index = input_idx,
                 current_spent_utxo = spent_extended_utxo, ctx_fee = tx_fee,
                 validation_height = h\<rparr>
      in execute_contract C (ScriptEngine_new C (Some ctx))
           (eu_locking_script spent_extended_utxo) (unlocking_script inp)
           (eu_datum spent_extended_utxo) (redeemer inp))"

fun run_input ::
    "'vk crypto \<Rightarrow> transaction \<Rightarrow> quantum \<Rightarrow> u64 \<Rightarrow> usize \<times> tx_input \<times> tx_output \<Rightarrow> outpoint list
     \<Rightarrow> (invariant_error, outpoint list) result" where
  "run_input C tx tx_fee h (input_idx, inp, utxo) spent_inputs =
     bindR (map_err (ScriptExecutionFailed (hash256_display (txid C tx)) input_idx)
              (input_verdict C tx tx_fee h input_idx inp utxo)) (\<lambda>valid.
       if \<not> valid
       then Inl (ScriptExecutionFailed (hash256_display (txid C tx)) input_idx ScriptFailed)
       else Inr (spent_inputs @ [previous_output inp]))"

fun verify_tx_invariants ::
    "'vk crypto \<Rightarrow> utxo_lookup \<Rightarrow> u64 \<Rightarrow> transaction \<Rightarrow> outpoint list \<times> outpoint set
     \<Rightarrow> (invariant_error, outpoint list \<times> outpoint set) result" where
  "verify_tx_invariants C lookup h tx (spent_inputs, spent_set) =
     (if is_coinbase tx then Inr (spent_inputs, spent_set)
      else
        bindR (sum_outputs tx) (\<lambda>total_output_val.
        bindR (foldR (collect_input lookup) (enumerate_from 0 (inputs tx))
                 (spent_set, QUANTUM_ZERO, [])) (\<lambda>(spent_set, total_input_val, tx_spent_utxos).
        if total_input_val < total_output_val
        then Inl (ValueInflation (hash256_display (txid C tx)) (quantum_display total_input_val)
                    (quantum_display total_output_val))
        else
          bindR (map_err (\<lambda>_. InvArithmeticOverflow)
                   (quantum_checked_sub total_input_val total_output_val)) (\<lambda>tx_fee.
          bindR (foldR (run_input C tx tx_fee h) tx_spent_utxos spent_inputs) (\<lambda>spent_inputs.
            Inr (spent_inputs, spent_set))))))"

definition verify_block_invariants ::
    "'vk crypto \<Rightarrow> block \<Rightarrow> utxo_lookup \<Rightarrow> (invariant_error, outpoint list) result" where
  "verify_block_invariants C block lookup =
     bindR (foldR (verify_tx_invariants C lookup (height (header block))) (transactions block) ([], {}))
       (\<lambda>(spent_inputs, _). Inr spent_inputs)"

section \<open>What the invariants mean\<close>

definition tx_spends :: "transaction \<Rightarrow> outpoint list" where
  "tx_spends tx = map previous_output (inputs tx)"

definition block_spends :: "block \<Rightarrow> outpoint list" where
  "block_spends block =
     concat (map tx_spends (filter (\<lambda>tx. \<not> is_coinbase tx) (transactions block)))"

definition lookup_amount :: "utxo_lookup \<Rightarrow> outpoint \<Rightarrow> nat" where
  "lookup_amount lookup op = (case lookup op of Some out \<Rightarrow> amount (out_value out) | None \<Rightarrow> 0)"

definition input_total :: "utxo_lookup \<Rightarrow> transaction \<Rightarrow> nat" where
  "input_total lookup tx = sum_list (map (lookup_amount lookup) (tx_spends tx))"

definition tx_conserves :: "utxo_lookup \<Rightarrow> transaction \<Rightarrow> bool" where
  "tx_conserves lookup tx \<longleftrightarrow>
     (\<forall>op\<in>set (tx_spends tx). lookup op \<noteq> None) \<and> input_total lookup tx < 2 ^ 128 \<and>
     output_total tx \<le> input_total lookup tx"

definition tx_authorized :: "'vk crypto \<Rightarrow> utxo_lookup \<Rightarrow> u64 \<Rightarrow> transaction \<Rightarrow> bool" where
  "tx_authorized C lookup h tx \<longleftrightarrow>
     (\<forall>(idx, inp)\<in>set (enumerate_from 0 (inputs tx)).
        input_verdict C tx (Quantum (of_nat (input_total lookup tx - output_total tx))) h idx inp
          (the (lookup (previous_output inp))) = Inr True)"

definition block_invariants_ok :: "'vk crypto \<Rightarrow> block \<Rightarrow> utxo_lookup \<Rightarrow> bool" where
  "block_invariants_ok C block lookup \<longleftrightarrow>
     distinct (block_spends block) \<and>
     list_all (\<lambda>tx. is_coinbase tx \<or>
       (tx_conserves lookup tx \<and> tx_authorized C lookup (height (header block)) tx))
       (transactions block)"

lemma sum_outputs_Inr: "sum_outputs tx = Inr q \<longleftrightarrow> amount q = output_total tx"
  by (simp add: sum_outputs_def foldR_quantum_sum output_total_def)

lemma collect_inputs_Inr:
  "foldR (collect_input lookup) (enumerate_from k ins) (S, tot, acc) = Inr (S', tot', acc') \<longleftrightarrow>
     distinct (map previous_output ins) \<and> set (map previous_output ins) \<inter> S = {} \<and>
     S' = S \<union> set (map previous_output ins) \<and>
     (\<forall>inp\<in>set ins. lookup (previous_output inp) \<noteq> None) \<and>
     amount tot' = amount tot + sum_list (map (\<lambda>inp. lookup_amount lookup (previous_output inp)) ins) \<and>
     acc' = acc @ map (\<lambda>(i, inp). (i, inp, the (lookup (previous_output inp)))) (enumerate_from k ins)"
proof (induction ins arbitrary: k S tot acc)
  case Nil
  then show ?case using amount_inj by auto
next
  case (Cons inp ins)
  let ?op = "previous_output inp"
  show ?case
  proof (cases "lookup ?op")
    case None
    then show ?thesis by (simp add: Let_def)
  next
    case (Some utxo)
    have fits: "\<exists>c. amount c = amount tot + amount (out_value utxo)"
      if "amount tot' = amount tot + (amount (out_value utxo) + n)" for n
      using that amount_bound [of tot'] amount_Quantum_of_nat [of "amount tot + amount (out_value utxo)"]
      by (metis add.assoc le_add1 order_le_less_trans)
    have "foldR (collect_input lookup) (enumerate_from k (inp # ins)) (S, tot, acc) = Inr (S', tot', acc') \<longleftrightarrow>
      ?op \<notin> S \<and> (\<exists>c. amount c = amount tot + amount (out_value utxo) \<and>
        foldR (collect_input lookup) (enumerate_from (Suc k) ins)
          (insert ?op S, c, acc @ [(k, inp, utxo)]) = Inr (S', tot', acc'))"
      using Some by (auto simp: Let_def)
    then show ?thesis
      using Some fits by (auto simp: Cons.IH lookup_amount_def)
  qed
qed

lemma run_inputs_Inr:
  "foldR (run_input C tx fee h) items spent = Inr spent' \<longleftrightarrow>
     (\<forall>(idx, inp, utxo)\<in>set items. input_verdict C tx fee h idx inp utxo = Inr True) \<and>
     spent' = spent @ map (\<lambda>(_, inp, _). previous_output inp) items"
proof (induction items arbitrary: spent)
  case (Cons item items)
  obtain idx inp utxo where "item = (idx, inp, utxo)" by (cases item) auto
  with Cons show ?case by auto
qed auto

lemma verify_tx_invariants_Inr:
  "verify_tx_invariants C lookup h tx (spent, S) = Inr (spent', S') \<longleftrightarrow>
     (if is_coinbase tx then spent' = spent \<and> S' = S
      else distinct (tx_spends tx) \<and> set (tx_spends tx) \<inter> S = {} \<and> S' = S \<union> set (tx_spends tx) \<and>
           tx_conserves lookup tx \<and> tx_authorized C lookup h tx \<and> spent' = spent @ tx_spends tx)"
    (is "?lhs \<longleftrightarrow> ?rhs")
proof (cases "is_coinbase tx")
  case True
  then show ?thesis by auto
next
  case False
  let ?items = "map (\<lambda>(i, inp). (i, inp, the (lookup (previous_output inp)))) (enumerate_from 0 (inputs tx))"
  have spends: "map (\<lambda>(_, inp, _). previous_output inp) ?items = tx_spends tx"
    using map_snd_comp_enumerate_from [of previous_output 0 "inputs tx"]
    by (simp add: tx_spends_def comp_def case_prod_beta)
  have total: "sum_list (map (\<lambda>inp. lookup_amount lookup (previous_output inp)) (inputs tx))
      = input_total lookup tx"
    by (simp add: input_total_def tx_spends_def comp_def)
  have auth: "(\<forall>(idx, inp, utxo)\<in>set ?items. input_verdict C tx fee h idx inp utxo = Inr True)
      \<longleftrightarrow> tx_authorized C lookup h tx" if "amount fee = input_total lookup tx - output_total tx" for fee
    using that quantum_eq_of_amount [of fee] by (auto simp: tx_authorized_def)
  show ?thesis
  proof
    assume "verify_tx_invariants C lookup h tx (spent, S) = Inr (spent', S')"
    then obtain out tot items fee where
        out: "amount out = output_total tx"
      and col: "foldR (collect_input lookup) (enumerate_from 0 (inputs tx)) (S, QUANTUM_ZERO, [])
          = Inr (S', tot, items)"
      and le: "\<not> amount tot < amount out" and fee: "amount tot = amount out + amount fee"
      and run: "foldR (run_input C tx fee h) items spent = Inr spent'"
      using False by (auto simp: sum_outputs_Inr quantum_less_amount split: if_splits)
    from col have col: "items = ?items" "amount tot = input_total lookup tx" "distinct (tx_spends tx)"
        "set (tx_spends tx) \<inter> S = {}" "S' = S \<union> set (tx_spends tx)"
        "\<forall>op\<in>set (tx_spends tx). lookup op \<noteq> None"
      by (simp_all add: collect_inputs_Inr total, simp_all add: tx_spends_def)
    then have "tx_authorized C lookup h tx" "spent' = spent @ tx_spends tx"
      using run auth [of fee] fee out spends by (simp_all add: run_inputs_Inr)
    then show "?rhs" using False col le out amount_bound [of tot] by (simp add: tx_conserves_def)
  next
    assume rhs: "?rhs"
    then have c: "input_total lookup tx < 2 ^ 128" "output_total tx \<le> input_total lookup tx"
      using False by (simp_all add: tx_conserves_def)
    define out where "out = Quantum (of_nat (output_total tx))"
    define tot where "tot = Quantum (of_nat (input_total lookup tx))"
    define fee where "fee = Quantum (of_nat (input_total lookup tx - output_total tx))"
    have am: "amount out = output_total tx" "amount tot = input_total lookup tx"
      "amount fee = input_total lookup tx - output_total tx"
      unfolding out_def tot_def fee_def using c by (intro amount_Quantum_of_nat; linarith)+
    have "sum_outputs tx = Inr out" using am by (simp add: sum_outputs_Inr)
    moreover have "foldR (collect_input lookup) (enumerate_from 0 (inputs tx)) (S, QUANTUM_ZERO, [])
        = Inr (S', tot, ?items)"
      using rhs False am by (simp add: collect_inputs_Inr total tx_conserves_def, simp add: tx_spends_def)
    moreover have "quantum_checked_sub tot out = Inr fee" "\<not> tot < out"
      using am c by (simp_all add: quantum_less_amount)
    moreover have "foldR (run_input C tx fee h) ?items spent = Inr spent'"
      using rhs False am auth [of fee] spends by (simp add: run_inputs_Inr)
    ultimately show "?lhs" using False by (simp, blast)
  qed
qed

lemma verify_txs_invariants_Inr:
  "foldR (verify_tx_invariants C lookup h) txs (spent, S) = Inr (spent', S') \<longleftrightarrow>
     (let ops = concat (map tx_spends (filter (\<lambda>tx. \<not> is_coinbase tx) txs)) in
      distinct ops \<and> set ops \<inter> S = {} \<and> S' = S \<union> set ops \<and> spent' = spent @ ops \<and>
      list_all (\<lambda>tx. is_coinbase tx \<or> (tx_conserves lookup tx \<and> tx_authorized C lookup h tx)) txs)"
proof (induction txs arbitrary: spent S)
  case Nil
  then show ?case by auto
next
  case (Cons tx txs)
  have "foldR (verify_tx_invariants C lookup h) (tx # txs) (spent, S) = Inr (spent', S') \<longleftrightarrow>
    (\<exists>sp1 S1. verify_tx_invariants C lookup h tx (spent, S) = Inr (sp1, S1) \<and>
       foldR (verify_tx_invariants C lookup h) txs (sp1, S1) = Inr (spent', S'))"
    by (simp del: verify_tx_invariants.simps)
  then show ?case
    by (cases "is_coinbase tx")
      (auto simp: verify_tx_invariants_Inr Cons.IH Let_def simp del: verify_tx_invariants.simps)
qed

lemma verify_block_invariants_ok_iff:
  "verify_block_invariants C block lookup = Inr spent \<longleftrightarrow>
     block_invariants_ok C block lookup \<and> spent = block_spends block"
proof -
  have "verify_block_invariants C block lookup = Inr spent \<longleftrightarrow>
    (\<exists>S. foldR (verify_tx_invariants C lookup (height (header block))) (transactions block) ([], {})
       = Inr (spent, S))"
    by (auto simp: verify_block_invariants_def simp del: verify_tx_invariants.simps split: prod.splits)
  then show ?thesis
    by (auto simp: verify_txs_invariants_Inr Let_def block_invariants_ok_def block_spends_def)
qed

section \<open>The authority engine\<close>

text \<open>\<open>AuthorityPanic\<close> stands for a panic unwinding out of a storage read.\<close>

datatype authority_error =
    NodeHalted
  | AuthConsensus consensus_error
  | AuthInvariant invariant_error
  | AuthStorage string
  | InvalidParent hash256 hash256
  | AuthorityPanic

fun authority_error_display :: "authority_error \<Rightarrow> string" where
  "authority_error_display NodeHalted = ''node halted or in fatal state''"
| "authority_error_display (AuthConsensus e) = ''consensus violation: '' @ consensus_error_display e"
| "authority_error_display (AuthInvariant e) =
     ''invariant tripwire triggered: '' @ invariant_error_display e"
| "authority_error_display (AuthStorage msg) = ''fatal storage fault: '' @ msg"
| "authority_error_display (InvalidParent expected actual) =
     ''invalid block connection: expected parent '' @ hash256_display expected
     @ '', got '' @ hash256_display actual"
| "authority_error_display AuthorityPanic = ''panic''"

record 'db authority =
  auth_state :: node_state
  auth_storage :: 'db
  cancel_signal :: bool

definition AuthorityEngine_new :: "'db \<Rightarrow> 'db authority" where
  "AuthorityEngine_new db = \<lparr>auth_state = Starting, auth_storage = db, cancel_signal = False\<rparr>"

definition enforce_operational :: "'db authority \<Rightarrow> (authority_error, unit) result" where
  "enforce_operational A = (if \<not> is_operational (auth_state A) then Inl NodeHalted else Inr ())"

definition fail_stop :: "node_fault \<Rightarrow> 'db authority \<Rightarrow> 'db authority" where
  "fail_stop fault A = A\<lparr>auth_state := Failed fault, cancel_signal := True\<rparr>"

definition initialize_genesis ::
    "('db, 'wtx, 'rtx) redb \<Rightarrow> 'vk crypto \<Rightarrow> 'db authority
     \<Rightarrow> (authority_error, unit) result \<times> 'db authority" where
  "initialize_genesis R C A =
     (let A = A\<lparr>auth_state := Recovering\<rparr> in
      case get_tip R (auth_storage A) of
        Inl e \<Rightarrow> (Inl (if e = SlicePanic then AuthorityPanic
                       else AuthStorage (storage_error_display e)), A)
      | Inr (Some _) \<Rightarrow> (Inr (), A\<lparr>auth_state := Running\<rparr>)
      | Inr None \<Rightarrow>
          (case commit_block R C (auth_storage A) (create_genesis_block C) [] of
             (Inl e, db) \<Rightarrow>
               (Inl (AuthStorage (storage_error_display e)), A\<lparr>auth_storage := db\<rparr>)
           | (Inr _, db) \<Rightarrow> (Inr (), A\<lparr>auth_storage := db, auth_state := Running\<rparr>)))"

definition canonical_lookup :: "('db, 'wtx, 'rtx) redb \<Rightarrow> 'db \<Rightarrow> utxo_lookup" where
  "canonical_lookup R db op = (case get_utxo R db op of Inr res \<Rightarrow> res | Inl _ \<Rightarrow> None)"

definition expected_next ::
    "(u64 \<times> hash256) option \<Rightarrow> (authority_error, u64 \<times> hash256) result" where
  "expected_next tip = (case tip of
     Some (h, parent_hash) \<Rightarrow> bindR (ok_or NodeHalted (checked_add h 1)) (\<lambda>h'. Inr (h', parent_hash))
   | None \<Rightarrow> Inr (0, ZERO_HASH))"

text \<open>
  \<open>process_and_commit_block\<close> in its two phases: everything up to the commit reads the ledger
  (and may latch a fault), the commit publishes or latches a fault.
\<close>

definition validate_block ::
    "('db, 'wtx, 'rtx) redb \<Rightarrow> 'vk crypto \<Rightarrow> 'db authority \<Rightarrow> block
     \<Rightarrow> (authority_error, outpoint list) result \<times> 'db authority" where
  "validate_block R C A block = (case enforce_operational A of
     Inl e \<Rightarrow> (Inl e, A)
   | Inr _ \<Rightarrow> (case get_tip R (auth_storage A) of
       Inl e \<Rightarrow>
         if e = SlicePanic then (Inl AuthorityPanic, A)
         else (Inl (AuthStorage (storage_error_display e)),
               fail_stop (StateCorruption (storage_error_display e)) A)
     | Inr tip \<Rightarrow>
         (bindR (expected_next tip) (\<lambda>(expected_height, expected_parent).
            if prev_block_hash (header block) \<noteq> expected_parent
            then Inl (InvalidParent expected_parent (prev_block_hash (header block)))
            else
              bindR (map_err AuthConsensus (verify_block_structure C block expected_height)) (\<lambda>_.
                map_err AuthInvariant
                  (verify_block_invariants C block (canonical_lookup R (auth_storage A))))), A)))"

definition commit_validated ::
    "('db, 'wtx, 'rtx) redb \<Rightarrow> 'vk crypto \<Rightarrow> 'db authority \<Rightarrow> block \<Rightarrow> outpoint list
     \<Rightarrow> (authority_error, unit) result \<times> 'db authority" where
  "commit_validated R C A block spent_inputs =
     (case commit_block R C (auth_storage A) block spent_inputs of
        (Inl err, db) \<Rightarrow>
          (Inl (AuthStorage (storage_error_display err)),
           fail_stop (StorageCommitFailure (storage_error_display err)) (A\<lparr>auth_storage := db\<rparr>))
      | (Inr _, db) \<Rightarrow> (Inr (), A\<lparr>auth_storage := db\<rparr>))"

definition process_and_commit_block ::
    "('db, 'wtx, 'rtx) redb \<Rightarrow> 'vk crypto \<Rightarrow> 'db authority \<Rightarrow> block
     \<Rightarrow> (authority_error, unit) result \<times> 'db authority" where
  "process_and_commit_block R C A block = (case validate_block R C A block of
     (Inl e, A') \<Rightarrow> (Inl e, A')
   | (Inr spent_inputs, A') \<Rightarrow> commit_validated R C A' block spent_inputs)"

section \<open>One step of the engine against the abstract ledger\<close>

text \<open>Acceptance of a block by a ledger, as one predicate over the tables.\<close>

definition lookup_sound :: "utxo_lookup \<Rightarrow> store \<Rightarrow> bool" where
  "lookup_sound lookup s \<longleftrightarrow> (\<forall>op out. lookup op = Some out \<longrightarrow> store_utxo s op = Inr (Some out))"

definition connects :: "store \<Rightarrow> block \<Rightarrow> bool" where
  "connects s block \<longleftrightarrow>
     (\<exists>tip. store_tip s = Inr tip \<and>
            expected_next tip = Inr (height (header block), prev_block_hash (header block)))"

lemma enforce_operational_Inr [simp]:
  "enforce_operational A = Inr u \<longleftrightarrow> auth_state A = Running"
  by (simp add: enforce_operational_def is_operational_iff)

lemma enforce_operational_Inl [simp]:
  "enforce_operational A = Inl e \<longleftrightarrow> auth_state A \<noteq> Running \<and> e = NodeHalted"
  by (auto simp: enforce_operational_def is_operational_iff)

lemma fail_stop_simps [simp]:
  "auth_state (fail_stop f A) = Failed f" "auth_storage (fail_stop f A) = auth_storage A"
  "cancel_signal (fail_stop f A)"
  by (simp_all add: fail_stop_def)

lemma process_halted:
  "auth_state A \<noteq> Running \<Longrightarrow> process_and_commit_block R C A block = (Inl NodeHalted, A)"
  by (auto simp: process_and_commit_block_def validate_block_def enforce_operational_def
      is_operational_iff)

lemma validate_block_Inr:
  "validate_block R C A block = (Inr spent, A') \<longleftrightarrow>
     A' = A \<and> auth_state A = Running \<and>
     (\<exists>tip h. get_tip R (auth_storage A) = Inr tip \<and>
        expected_next tip = Inr (h, prev_block_hash (header block)) \<and>
        block_structure_ok C block h \<and>
        block_invariants_ok C block (canonical_lookup R (auth_storage A)) \<and>
        spent = block_spends block)"
proof (cases "auth_state A = Running")
  case False
  then show ?thesis by (simp add: validate_block_def enforce_operational_def is_operational_iff)
next
  case True
  show ?thesis
  proof (cases "get_tip R (auth_storage A)")
    case (Inl e)
    with True show ?thesis
      by (auto simp: validate_block_def enforce_operational_def is_operational_iff)
  next
    case (Inr tip)
    with True show ?thesis
      by (auto simp: validate_block_def enforce_operational_def is_operational_iff
          verify_block_structure_ok_iff verify_block_invariants_ok_iff split: prod.splits if_splits)
  qed
qed

lemma validate_block_Inl:
  assumes "validate_block R C A block = (Inl e, A')"
  shows "auth_storage A' = auth_storage A"
    and "auth_state A' = auth_state A \<or> is_failed (auth_state A')"
  using assms
  by (auto simp: validate_block_def split: sum.splits if_splits)

context redb_laws
begin

lemma canonical_lookup_sound: "lookup_sound (canonical_lookup R db) (view db)"
  by (auto simp: lookup_sound_def canonical_lookup_def split: sum.splits dest: get_utxo_reads)

lemma process_ok:
  assumes "process_and_commit_block R C A block = (Inr u, A')"
  shows "auth_state A = Running" "auth_state A' = Running"
    and "connects (view (auth_storage A)) block"
    and "block_structure_ok C block (height (header block))"
    and "\<exists>lookup. lookup_sound lookup (view (auth_storage A)) \<and> block_invariants_ok C block lookup"
    and "view (auth_storage A') = apply_block C block (block_spends block) (view (auth_storage A))"
proof -
  from assms obtain spent A1 where v: "validate_block R C A block = (Inr spent, A1)"
    and c: "commit_validated R C A1 block spent = (Inr u, A')"
    by (auto simp: process_and_commit_block_def split: prod.splits sum.splits)
  from v have A1: "A1 = A" and st: "auth_state A = Running" and sp: "spent = block_spends block"
    by (auto simp: validate_block_Inr)
  from v obtain tip h where tip: "get_tip R (auth_storage A) = Inr tip"
    "expected_next tip = Inr (h, prev_block_hash (header block))"
    and str: "block_structure_ok C block h"
    and inv: "block_invariants_ok C block (canonical_lookup R (auth_storage A))"
    by (auto simp: validate_block_Inr)
  from str have h: "h = height (header block)" by (simp add: block_structure_ok_def)
  show "auth_state A = Running" by (rule st)
  from tip h show "connects (view (auth_storage A)) block"
    by (auto simp: connects_def dest: get_tip_reads)
  from str h show "block_structure_ok C block (height (header block))" by simp
  from inv show "\<exists>lookup. lookup_sound lookup (view (auth_storage A)) \<and> block_invariants_ok C block lookup"
    using canonical_lookup_sound by blast
  from c A1 sp obtain db' where cb: "commit_block R C (auth_storage A) block (block_spends block) = (Inr (), db')"
    and A': "A' = A\<lparr>auth_storage := db'\<rparr>"
    by (auto simp: commit_validated_def split: prod.splits sum.splits)
  then show "view (auth_storage A') = apply_block C block (block_spends block) (view (auth_storage A))"
    by (simp add: commit_block_applies)
  from A' st show "auth_state A' = Running" by simp
qed

lemma process_err:
  assumes "process_and_commit_block R C A block = (Inl e, A')"
  shows "view (auth_storage A') = view (auth_storage A)"
    and "auth_state A' = auth_state A \<or> is_failed (auth_state A')"
proof -
  from assms consider "validate_block R C A block = (Inl e, A')"
    | spent A1 where "validate_block R C A block = (Inr spent, A1)"
      "commit_validated R C A1 block spent = (Inl e, A')"
    by (auto simp: process_and_commit_block_def split: prod.splits sum.splits)
  then have "view (auth_storage A') = view (auth_storage A) \<and>
    (auth_state A' = auth_state A \<or> is_failed (auth_state A'))"
  proof cases
    case 1
    then show ?thesis using validate_block_Inl by fastforce
  next
    case 2
    then have "A1 = A" by (simp add: validate_block_Inr)
    with 2(2) show ?thesis
      by (auto simp: commit_validated_def split: prod.splits sum.splits dest: commit_block_atomic)
  qed
  then show "view (auth_storage A') = view (auth_storage A)"
    "auth_state A' = auth_state A \<or> is_failed (auth_state A')" by simp_all
qed

lemma initialize_ok:
  assumes "initialize_genesis R C A = (Inr u, A')"
  shows "auth_state A' = Running"
    and "(\<exists>t. store_tip (view (auth_storage A)) = Inr (Some t) \<and>
            view (auth_storage A') = view (auth_storage A)) \<or>
         (store_tip (view (auth_storage A)) = Inr None \<and>
            view (auth_storage A') = apply_block C (create_genesis_block C) [] (view (auth_storage A)))"
  using assms
  by (auto simp: initialize_genesis_def Let_def split: sum.splits option.splits prod.splits if_splits dest!: get_tip_reads commit_block_applies)

lemma initialize_err:
  assumes "initialize_genesis R C A = (Inl e, A')"
  shows "view (auth_storage A') = view (auth_storage A)" "auth_state A' = Recovering"
  using assms
  by (auto simp: initialize_genesis_def Let_def split: sum.splits option.splits prod.splits if_splits dest!: commit_block_atomic)

end

section \<open>Properties\<close>

text \<open>C15: the block invariants are exactly value conservation, authorisation and uniqueness. The
  checker succeeds, and then returns the outpoints spent in order, exactly when no outpoint is
  spent twice in the block and every non-coinbase transaction spends known outputs, creates no
  value and has every input accepted by its contract.\<close>

theorem verify_block_invariants_exact:
  "verify_block_invariants C block lookup = Inr spent \<longleftrightarrow>
     distinct (block_spends block) \<and> spent = block_spends block \<and>
     list_all (\<lambda>tx. is_coinbase tx \<or>
       (tx_conserves lookup tx \<and> tx_authorized C lookup (height (header block)) tx)) (transactions block)"
  unfolding verify_block_invariants_ok_iff by (auto simp: block_invariants_ok_def)

end
