(* ===== verification/Ledger.thy ===== *)
theory Ledger
  imports Authority
begin

text \<open>
  The authority engine as a state machine. \<open>authority_step\<close> is one call of a mutating operation
  of \<open>authority/engine.rs\<close> against a database that obeys \<open>redb_laws\<close>; every step may meet
  different I/O failures. The ledger invariant is proved by rule induction, and from it the
  monetary cap, the consistency of the tip and the absence of panics.
\<close>

section \<open>Supply of one block\<close>

lemma lookup_amount_le: "lookup_sound lookup s \<Longrightarrow> lookup_amount lookup op \<le> utxo_amount s op"
  by (auto simp: lookup_sound_def lookup_amount_def utxo_amount_def split: option.splits)

lemma sum_list_concat_map: "sum_list (map f (concat xss)) = sum_list (map (\<lambda>xs. sum_list (map f xs)) xss)"
  by (induction xss) simp_all

lemma accepted_supply:
  assumes look: "lookup_sound lookup s" and inv: "block_invariants_ok C block lookup"
    and str: "block_structure_ok C block h"
  shows "total_supply (apply_block C block (block_spends block) s) \<le> total_supply s + unat (allowed_subsidy h)"
proof -
  from str obtain cb others where txs: "transactions block = cb # others"
    and cb: "is_coinbase cb" "output_total cb \<le> unat (allowed_subsidy h)"
    and oth: "\<forall>tx\<in>set others. \<not> is_coinbase tx"
    by (cases "transactions block") (auto simp: block_structure_ok_def list_all_iff)
  from oth have "filter (\<lambda>tx. \<not> is_coinbase tx) others = others" by simp
  then have spends: "block_spends block = concat (map tx_spends others)"
    using txs cb by (simp add: block_spends_def)
  have "output_total tx \<le> sum_list (map (utxo_amount s) (tx_spends tx))" if "tx \<in> set others" for tx
  proof -
    have "output_total tx \<le> input_total lookup tx"
      using inv that oth txs by (auto simp: block_invariants_ok_def list_all_iff tx_conserves_def)
    also have "\<dots> \<le> sum_list (map (utxo_amount s) (tx_spends tx))"
      unfolding input_total_def by (rule sum_list_map_mono) (rule lookup_amount_le [OF look])
    finally show ?thesis .
  qed
  then have "sum_list (map output_total others)
      \<le> sum_list (map (\<lambda>tx. sum_list (map (utxo_amount s) (tx_spends tx))) others)"
    by (rule sum_list_mono)
  also have "\<dots> = sum_list (map (utxo_amount s) (block_spends block))"
    by (simp add: spends sum_list_concat_map comp_def)
  finally have "sum_list (map output_total (transactions block))
      \<le> unat (allowed_subsidy h) + sum_list (map (utxo_amount s) (block_spends block))"
    using txs cb by simp
  moreover have "distinct (block_spends block)" using inv by (simp add: block_invariants_ok_def)
  note supply_apply_block [OF this, of C block s]
  ultimately show ?thesis by (simp add: output_total_def [abs_def])
qed

section \<open>The ledger invariant\<close>

definition issued_upto :: "nat \<Rightarrow> nat" where
  "issued_upto n = (\<Sum>i\<le>n. unat (allowed_subsidy (of_nat i)))"

definition tip_entry :: "'vk crypto \<Rightarrow> store \<Rightarrow> u64 \<times> hash256 \<Rightarrow> bool" where
  "tip_entry C s t \<longleftrightarrow>
     s (HEIGHT_INDEX, KU64 (fst t)) = Some (as_bytes (snd t)) \<and>
     (\<exists>block. s (BLOCKS_TABLE, KBytes (as_bytes (snd t))) = Some (encode_block block) \<and>
              block_hash C block = snd t \<and> height (header block) = fst t)"

definition ledger_inv :: "'vk crypto \<Rightarrow> store \<Rightarrow> bool" where
  "ledger_inv C s \<longleftrightarrow>
     (\<forall>h bs. s (HEIGHT_INDEX, KU64 h) = Some bs \<longrightarrow> length bs = 32) \<and>
     (case store_tip s of
        Inl _ \<Rightarrow> False
      | Inr None \<Rightarrow> total_supply s = 0
      | Inr (Some t) \<Rightarrow> tip_entry C s t \<and> total_supply s \<le> issued_upto (unat (fst t)))"

lemma issued_upto_Suc:
  "Suc n < 2 ^ 64 \<Longrightarrow> issued_upto (Suc n) = issued_upto n + unat (allowed_subsidy (of_nat (Suc n)))"
  by (simp add: issued_upto_def)

lemma unat_allowed_of_nat:
  "0 < i \<Longrightarrow> i < 2 ^ 64 \<Longrightarrow> unat (allowed_subsidy (of_nat i)) = subsidy_spec i"
proof -
  assume i: "0 < i" "i < 2 ^ 64"
  then have u: "unat (of_nat i :: u64) = i" by simp
  with i have "(of_nat i :: u64) \<noteq> 0" by (metis less_not_refl unat_0)
  with u show ?thesis by (simp add: unat_allowed_subsidy)
qed

lemma issued_upto_cap:
  assumes "n < 2 ^ 64"
  shows "issued_upto n \<le> amount MAX_TOTAL_SUPPLY_QUANTA"
proof -
  have "{..n} = insert 0 {1..n}" by auto
  then have "issued_upto n = unat (allowed_subsidy 0) + (\<Sum>i\<in>{1..n}. unat (allowed_subsidy (of_nat i)))"
    by (simp add: issued_upto_def)
  also have "(\<Sum>i\<in>{1..n}. unat (allowed_subsidy (of_nat i))) = (\<Sum>i\<in>{1..n}. subsidy_spec i)"
    using assms by (intro sum.cong) (auto simp: unat_allowed_of_nat)
  also have "\<dots> \<le> 3959999998000000" by (rule emission_bound) simp
  finally show ?thesis by (simp add: unat_allowed_subsidy monetary_constants)
qed

lemma apply_block_tables:
  "apply_block C block spent s (HEIGHT_INDEX, KU64 h) =
     (if h = height (header block) then Some (as_bytes (block_hash C block)) else s (HEIGHT_INDEX, KU64 h))"
  "apply_block C block spent s (BLOCKS_TABLE, KBytes bs) =
     (if bs = as_bytes (block_hash C block) then Some (encode_block block) else s (BLOCKS_TABLE, KBytes bs))"
  by (auto simp: apply_block_def apply_utxos_def)

lemma ledger_inv_apply:
  assumes inv: "ledger_inv C s"
    and sup: "total_supply (apply_block C block spent s) \<le> issued_upto (unat (height (header block)))"
  shows "ledger_inv C (apply_block C block spent s)"
  using inv sup
  by (auto simp: ledger_inv_def apply_block_tip apply_block_tables tip_entry_def)

lemma expected_next_Inr:
  "expected_next tip = Inr (h', p) \<longleftrightarrow>
     (case tip of None \<Rightarrow> h' = 0 \<and> p = ZERO_HASH
      | Some (h, parent) \<Rightarrow> unat h' = Suc (unat h) \<and> p = parent)"
  by (auto simp: expected_next_def checked_add_Some split: option.splits prod.splits)

lemma ledger_inv_accept:
  assumes inv: "ledger_inv C s" and con: "connects s block"
    and str: "block_structure_ok C block (height (header block))"
    and look: "lookup_sound lookup s" and ok: "block_invariants_ok C block lookup"
  shows "ledger_inv C (apply_block C block (block_spends block) s)"
proof (rule ledger_inv_apply [OF inv])
  let ?h = "height (header block)"
  note acc = accepted_supply [OF look ok str]
  from con obtain tip where tip: "store_tip s = Inr tip"
    "expected_next tip = Inr (?h, prev_block_hash (header block))"
    by (auto simp: connects_def)
  show "total_supply (apply_block C block (block_spends block) s) \<le> issued_upto (unat ?h)"
  proof (cases tip)
    case None
    with tip inv have "?h = 0" "total_supply s = 0"
      by (simp_all add: expected_next_Inr ledger_inv_def)
    with acc show ?thesis by (simp add: issued_upto_def)
  next
    case (Some t)
    with tip inv have h: "unat ?h = Suc (unat (fst t))"
      and s: "total_supply s \<le> issued_upto (unat (fst t))"
      by (auto simp: expected_next_Inr ledger_inv_def split: prod.splits)
    have "unat ?h < 2 ^ 64" using unat_bound [of ?h] by simp
    moreover have "of_nat (unat ?h) = ?h" by simp
    ultimately have "issued_upto (unat ?h) = issued_upto (unat (fst t)) + unat (allowed_subsidy ?h)"
      using issued_upto_Suc [of "unat (fst t)"] h by metis
    with s acc show ?thesis by simp
  qed
qed

lemma genesis_supply:
  "total_supply s = 0 \<Longrightarrow>
     total_supply (apply_block C (create_genesis_block C) [] s) \<le> issued_upto (unat (height (header (create_genesis_block C))))"
  using supply_apply_block [of "[]" C "create_genesis_block C" s] genesis_coinbase_facts(2)
  by (simp add: create_genesis_block_def issued_upto_def unat_allowed_subsidy output_total_def)

section \<open>The state machine\<close>

inductive authority_step ::
    "('db \<Rightarrow> store) \<Rightarrow> ('wtx \<Rightarrow> store) \<Rightarrow> ('rtx \<Rightarrow> store) \<Rightarrow> 'vk crypto
     \<Rightarrow> 'db authority \<Rightarrow> 'db authority \<Rightarrow> bool"
  for view wview rview C where
    step_init: "redb_laws R view wview rview \<Longrightarrow> initialize_genesis R C A = (res, A')
      \<Longrightarrow> authority_step view wview rview C A A'"
  | step_block: "redb_laws R view wview rview \<Longrightarrow> process_and_commit_block R C A block = (res, A')
      \<Longrightarrow> authority_step view wview rview C A A'"
  | step_fault: "authority_step view wview rview C A (fail_stop fault A)"

inductive reachable ::
    "('db \<Rightarrow> store) \<Rightarrow> ('wtx \<Rightarrow> store) \<Rightarrow> ('rtx \<Rightarrow> store) \<Rightarrow> 'vk crypto \<Rightarrow> 'db authority \<Rightarrow> bool"
  for view wview rview C where
    fresh: "view db = (\<lambda>_. None) \<Longrightarrow> reachable view wview rview C (AuthorityEngine_new db)"
  | step: "reachable view wview rview C A \<Longrightarrow> authority_step view wview rview C A A'
      \<Longrightarrow> reachable view wview rview C A'"

lemma ledger_inv_empty: "ledger_inv C (\<lambda>_. None)"
  by (simp add: ledger_inv_def store_tip_def total_supply_def utxo_amount_def store_utxo_def)

lemma ledger_inv_init:
  assumes laws: "redb_laws R view wview rview" and run: "initialize_genesis R C A = (res, A')"
    and inv: "ledger_inv C (view (auth_storage A))"
  shows "ledger_inv C (view (auth_storage A'))"
proof (cases res)
  case (Inl e)
  with redb_laws.initialize_err [OF laws] run inv show ?thesis by metis
next
  case (Inr u)
  from redb_laws.initialize_ok(2) [OF laws run [unfolded Inr]] show ?thesis
  proof
    assume "store_tip (view (auth_storage A)) = Inr None \<and> view (auth_storage A') =
      apply_block C (create_genesis_block C) [] (view (auth_storage A))"
    moreover from this inv have "total_supply (view (auth_storage A)) = 0"
      by (simp add: ledger_inv_def)
    ultimately show ?thesis using ledger_inv_apply [OF inv genesis_supply] by simp
  qed (use inv in auto)
qed

lemma ledger_inv_block:
  assumes laws: "redb_laws R view wview rview" and run: "process_and_commit_block R C A block = (res, A')"
    and inv: "ledger_inv C (view (auth_storage A))"
  shows "ledger_inv C (view (auth_storage A'))"
proof (cases res)
  case (Inl e)
  with redb_laws.process_err(1) [OF laws] run inv show ?thesis by metis
next
  case (Inr u)
  note ok = redb_laws.process_ok [OF laws run [unfolded Inr]]
  from ok(5) obtain lookup where "lookup_sound lookup (view (auth_storage A))"
    "block_invariants_ok C block lookup" by blast
  with ledger_inv_accept [OF inv ok(3,4)] ok(6) show ?thesis by simp
qed

lemma ledger_inv_step:
  assumes "authority_step view wview rview C A A'" "ledger_inv C (view (auth_storage A))"
  shows "ledger_inv C (view (auth_storage A'))"
  using assms by cases (auto intro: ledger_inv_init ledger_inv_block)

lemma reachable_inv: "reachable view wview rview C A \<Longrightarrow> ledger_inv C (view (auth_storage A))"
proof (induction rule: reachable.induct)
  case (fresh db)
  then show ?case by (simp add: AuthorityEngine_new_def ledger_inv_empty)
next
  case (step A A')
  then show ?case by (rule_tac ledger_inv_step)
qed

text \<open>
  A run of the engine with the blocks it was offered on the way: block submissions, genesis
  initialisations, faults and restarts on the same tables.
\<close>

inductive authority_run ::
    "('db \<Rightarrow> store) \<Rightarrow> ('wtx \<Rightarrow> store) \<Rightarrow> ('rtx \<Rightarrow> store) \<Rightarrow> 'vk crypto
     \<Rightarrow> 'db authority \<Rightarrow> block list \<Rightarrow> 'db authority \<Rightarrow> bool"
  for view wview rview C A where
    run_none: "authority_run view wview rview C A [] A"
  | run_block: "authority_run view wview rview C A blocks A' \<Longrightarrow> redb_laws R view wview rview \<Longrightarrow>
      process_and_commit_block R C A' block = (res, A'') \<Longrightarrow>
      authority_run view wview rview C A (blocks @ [block]) A''"
  | run_init: "authority_run view wview rview C A blocks A' \<Longrightarrow> redb_laws R view wview rview \<Longrightarrow>
      initialize_genesis R C A' = (res, A'') \<Longrightarrow> authority_run view wview rview C A blocks A''"
  | run_fault: "authority_run view wview rview C A blocks A' \<Longrightarrow>
      authority_run view wview rview C A blocks (fail_stop fault A')"
  | run_restart: "authority_run view wview rview C A blocks A' \<Longrightarrow> view db = view (auth_storage A') \<Longrightarrow>
      authority_run view wview rview C A blocks (AuthorityEngine_new db)"

text \<open>An outpoint that is absent from a chain with a tip stays absent while no block creates it.\<close>

lemma spent_stays_spent:
  assumes "authority_run view wview rview C A blocks A'"
    and "store_utxo (view (auth_storage A)) op = Inr None" "\<exists>t. store_tip (view (auth_storage A)) = Inr (Some t)"
    and "\<forall>block\<in>set blocks. op \<notin> fst ` set (block_outputs C block)"
  shows "store_utxo (view (auth_storage A')) op = Inr None \<and> (\<exists>t. store_tip (view (auth_storage A')) = Inr (Some t))"
  using assms
proof (induction rule: authority_run.induct)
  case (run_block blocks A' R block res A'')
  then have IH: "store_utxo (view (auth_storage A')) op = Inr None" "\<exists>t. store_tip (view (auth_storage A')) = Inr (Some t)"
    by simp_all
  show ?case
  proof (cases res)
    case (Inl e)
    with redb_laws.process_err(1) [OF run_block.hyps(2)] run_block.hyps(3) IH show ?thesis by metis
  next
    case (Inr u)
    have "map_of (rev (block_outputs C block)) op = None"
      using run_block.prems(3) by (simp add: map_of_eq_None_iff)
    then have "store_utxo (apply_block C block spent (view (auth_storage A'))) op = Inr None" for spent
      using IH(1) by (auto simp: store_utxo_def apply_block_utxo)
    with redb_laws.process_ok(6) [OF run_block.hyps(2) run_block.hyps(3) [unfolded Inr]] show ?thesis
      by (simp add: apply_block_tip)
  qed
next
  case (run_init blocks A' R res A'')
  then have IH: "store_utxo (view (auth_storage A')) op = Inr None" "\<exists>t. store_tip (view (auth_storage A')) = Inr (Some t)"
    by simp_all
  have "view (auth_storage A'') = view (auth_storage A')"
  proof (cases res)
    case (Inl e)
    with redb_laws.initialize_err(1) [OF run_init.hyps(2)] run_init.hyps(3) show ?thesis by metis
  next
    case (Inr u)
    with redb_laws.initialize_ok(2) [OF run_init.hyps(2) run_init.hyps(3) [unfolded Inr]] IH(2) show ?thesis by auto
  qed
  with IH show ?case by simp
qed (simp_all add: AuthorityEngine_new_def)

section \<open>Life cycle of the engine\<close>

definition lifecycle_inv :: "('db \<Rightarrow> store) \<Rightarrow> 'db authority \<Rightarrow> bool" where
  "lifecycle_inv view A \<longleftrightarrow>
     (auth_state A = Running \<longrightarrow> store_tip (view (auth_storage A)) \<noteq> Inr None) \<and>
     (is_failed (auth_state A) \<longrightarrow> cancel_signal A)"

lemma validate_block_failed:
  "validate_block R C A block = (res, A') \<Longrightarrow> A' = A \<or> (is_failed (auth_state A') \<and> cancel_signal A')"
  by (auto simp: validate_block_def split: sum.splits if_splits)

lemma lifecycle_inv_block:
  assumes laws: "redb_laws R view wview rview" and run: "process_and_commit_block R C A block = (res, A')"
    and inv: "lifecycle_inv view A"
  shows "lifecycle_inv view A'"
proof (cases res)
  case (Inl e)
  from redb_laws.process_err [OF laws run [unfolded Inl]]
  have "view (auth_storage A') = view (auth_storage A)" by simp
  moreover have "(auth_state A' = auth_state A \<and> cancel_signal A' = cancel_signal A)
      \<or> (is_failed (auth_state A') \<and> cancel_signal A')"
    using run [unfolded Inl] validate_block_failed [of R C A block]
    by (fastforce simp: process_and_commit_block_def commit_validated_def split: prod.splits sum.splits)
  ultimately show ?thesis using inv by (auto simp: lifecycle_inv_def)
next
  case (Inr u)
  note ok = redb_laws.process_ok [OF laws run [unfolded Inr]]
  from ok(2,6) show ?thesis by (simp add: lifecycle_inv_def apply_block_tip)
qed

lemma lifecycle_inv_init:
  assumes laws: "redb_laws R view wview rview" and run: "initialize_genesis R C A = (res, A')"
  shows "lifecycle_inv view A'"
proof (cases res)
  case (Inl e)
  from redb_laws.initialize_err(2) [OF laws run [unfolded Inl]] show ?thesis
    by (simp add: lifecycle_inv_def)
next
  case (Inr u)
  note ok = redb_laws.initialize_ok [OF laws run [unfolded Inr]]
  from ok show ?thesis by (auto simp: lifecycle_inv_def apply_block_tip)
qed

lemma reachable_lifecycle: "reachable view wview rview C A \<Longrightarrow> lifecycle_inv view A"
proof (induction rule: reachable.induct)
  case (fresh db)
  then show ?case by (simp add: lifecycle_inv_def AuthorityEngine_new_def)
next
  case (step A A')
  from step(2,3) show ?case
  proof cases
    case (step_fault fault)
    then show ?thesis by (simp add: lifecycle_inv_def)
  qed (auto intro: lifecycle_inv_init lifecycle_inv_block step.IH)
qed

section \<open>Panics come from the stored bytes only\<close>

context redb_laws
begin

lemma get_tip_panic: "get_tip R db = Inl SlicePanic \<Longrightarrow> store_tip (view db) = Inl SlicePanic"
  by (auto simp: get_tip_def store_tip_def read_table_def read_key_def bindR_eq_Inl map_err_eq_Inl
      dest!: get_reads begin_read_snapshot cong: option.case_cong)

lemma get_block_no_panic: "get_block R db hash \<noteq> Inl SlicePanic"
  by (auto simp: get_block_def read_table_def read_key_def bindR_eq_Inl map_err_eq_Inl
      split: option.splits)

lemma get_block_by_height_panic:
  assumes "get_block_by_height R db h = Inl SlicePanic"
  shows "\<exists>bs. view db (HEIGHT_INDEX, KU64 h) = Some bs \<and> length bs \<noteq> 32"
proof -
  have "read_table R db HEIGHT_INDEX (\<lambda>r. read_key R r HEIGHT_INDEX (KU64 h)) \<noteq> Inl SlicePanic"
    by (auto simp: read_table_def read_key_def bindR_eq_Inl map_err_eq_Inl)
  with assms obtain guard where
      read: "read_table R db HEIGHT_INDEX (\<lambda>r. read_key R r HEIGHT_INDEX (KU64 h)) = Inr guard"
    and g: "(case guard of Some val \<Rightarrow> if length val \<noteq> 32 then Inl SlicePanic
        else get_block R db (from_bytes val) | None \<Rightarrow> Inr None) = Inl SlicePanic"
    unfolding get_block_by_height_def bindR_eq_Inl by blast
  from read have "guard = view db (HEIGHT_INDEX, KU64 h)"
    by (auto elim!: read_table_view dest!: read_key_view)
  with g get_block_no_panic show ?thesis by (auto split: option.splits if_splits)
qed

end

section \<open>A healthy ledger\<close>

definition store_lookup :: "store \<Rightarrow> utxo_lookup" where
  "store_lookup s op = (case store_utxo s op of Inr res \<Rightarrow> res | Inl _ \<Rightarrow> None)"

context redb_healthy
begin

lemma canonical_lookup_ok: "canonical_lookup R db = store_lookup (view db)"
  by (simp add: fun_eq_iff canonical_lookup_def store_lookup_def get_utxo_ok)

lemma commit_validated_ok:
  "\<exists>db'. commit_validated R C A block spent = (Inr (), A\<lparr>auth_storage := db'\<rparr>) \<and>
         view db' = apply_block C block spent (view (auth_storage A))"
proof -
  obtain db' where "commit_block R C (auth_storage A) block spent = (Inr (), db')"
    using commit_block_ok by blast
  then show ?thesis by (auto simp: commit_validated_def commit_block_applies)
qed

lemma process_accepts_iff:
  "fst (process_and_commit_block R C A block) = Inr () \<longleftrightarrow>
     auth_state A = Running \<and> connects (view (auth_storage A)) block \<and>
     block_structure_ok C block (height (header block)) \<and>
     block_invariants_ok C block (store_lookup (view (auth_storage A)))"
    (is "?lhs \<longleftrightarrow> ?rhs")
proof
  assume ?lhs
  then obtain A' where run: "process_and_commit_block R C A block = (Inr (), A')"
    by (metis prod.collapse)
  then obtain spent A1 where "validate_block R C A block = (Inr spent, A1)"
    by (auto simp: process_and_commit_block_def split: prod.splits sum.splits)
  with process_ok(1,3,4) [OF run] show ?rhs
    by (auto simp: validate_block_Inr canonical_lookup_ok)
next
  assume ?rhs
  then have "validate_block R C A block = (Inr (block_spends block), A)"
    by (auto simp: validate_block_Inr connects_def get_tip_ok canonical_lookup_ok)
  with commit_validated_ok [of C A block "block_spends block"] show ?lhs
    by (auto simp: process_and_commit_block_def)
qed

end

section \<open>Concrete instances\<close>

abbreviation mem_reachable :: "store authority \<Rightarrow> bool" where
  "mem_reachable \<equiv> reachable id (id :: store \<Rightarrow> store) (id :: store \<Rightarrow> store) flat_crypto"

definition genesis_node :: "store authority" where
  "genesis_node = snd (initialize_genesis mem_redb flat_crypto (AuthorityEngine_new (\<lambda>_. None)))"

definition demo_coinbase :: transaction where
  "demo_coinbase = genesis_coinbase\<lparr>outputs := []\<rparr>"

definition demo_spend :: transaction where
  "demo_spend =
     \<lparr>tx_version = 1,
      inputs = map (\<lambda>vout. \<lparr>previous_output = OutPoint_new 0 vout, unlocking_script = [],
                            sequence = 0xFFFFFFFF, redeemer = None\<rparr>) [0, 1],
      outputs = [], locktime = 0\<rparr>"

text \<open>A block at height 1, empty or spending both genesis outputs.\<close>

definition demo_block :: "u64 \<Rightarrow> transaction list \<Rightarrow> block" where
  "demo_block n txs =
     \<lparr>header = \<lparr>version = 1, prev_block_hash = 0, merkle_root = 0, timestamp = 0,
                bits = MAX_TARGET_BITS, nonce = n, height = 1\<rparr>,
      transactions = demo_coinbase # txs\<rparr>"

lemma genesis_node_eq:
  "genesis_node = \<lparr>auth_state = Running,
     auth_storage = apply_block flat_crypto (create_genesis_block flat_crypto) [] (\<lambda>_. None),
     cancel_signal = False\<rparr>"
proof -
  obtain db where db: "commit_block mem_redb flat_crypto (\<lambda>_. None) (create_genesis_block flat_crypto) []
      = (Inr (), db)"
    using mem.commit_block_ok by blast
  moreover have "db = apply_block flat_crypto (create_genesis_block flat_crypto) [] (\<lambda>_. None)"
    using mem.commit_block_applies [OF db] by simp
  ultimately show ?thesis
    by (simp add: genesis_node_def initialize_genesis_def AuthorityEngine_new_def Let_def
        mem.get_tip_ok store_tip_def)
qed

lemma genesis_node_reachable: "mem_reachable genesis_node"
proof (rule reachable.step)
  show "mem_reachable (AuthorityEngine_new (\<lambda>_. None))"
    by (rule reachable.fresh) simp
  have laws: "redb_laws mem_redb id id id" by (rule mem.redb_laws_axioms)
  show "authority_step id id id flat_crypto (AuthorityEngine_new (\<lambda>_. None)) genesis_node"
    by (rule authority_step.step_init [OF laws]) (simp add: genesis_node_def prod_eq_iff)
qed

lemma flat_digest [simp]: "digest flat_crypto m = 0"
  by (simp add: digest_def flat_crypto_def)

lemma flat_merkle: "length hs \<le> 2 \<Longrightarrow> set hs \<subseteq> {0} \<Longrightarrow> compute_merkle_root flat_crypto hs = 0"
proof -
  assume "length hs \<le> 2" "set hs \<subseteq> {0}"
  then consider "hs = []" | "hs = [0]" | "hs = [0, 0]"
    by (cases hs; cases "tl hs"; cases "tl (tl hs)") auto
  then show ?thesis
    by cases (simp_all add: compute_merkle_root_def merkle_loop_step ZERO_HASH_def)
qed

lemma demo_connects: "connects (auth_storage genesis_node) (demo_block n txs)"
  by (simp add: connects_def genesis_node_eq apply_block_tip expected_next_Inr demo_block_def
      create_genesis_block_def block_hash_def header_hash_def)

lemma demo_coinbase_facts: "is_coinbase demo_coinbase" "output_total demo_coinbase = 0"
  "outputs demo_coinbase = []"
  by (simp_all add: demo_coinbase_def genesis_coinbase_def is_coinbase_def OutPoint_new_def
      output_total_def)

lemma demo_spend_facts: "\<not> is_coinbase demo_spend" "output_total demo_spend = 0"
  "tx_spends demo_spend = [OutPoint_new 0 0, OutPoint_new 0 1]" "outputs demo_spend = []"
  by (simp_all add: demo_spend_def is_coinbase_def output_total_def tx_spends_def)

lemma demo_structure:
  "txs = [] \<or> txs = [demo_spend] \<Longrightarrow> block_structure_ok flat_crypto (demo_block n txs) 1"
  by (auto simp: block_structure_ok_def demo_block_def demo_coinbase_facts demo_spend_facts
      block_hash_def header_hash_def calculate_merkle_root_def flat_merkle txid_def
      compact_valid_def MAX_TARGET_BITS_def compact_exponent_def)

lemma demo_block_accepted:
  "fst (process_and_commit_block mem_redb flat_crypto genesis_node (demo_block n [])) = Inr ()"
proof -
  have "block_invariants_ok flat_crypto (demo_block n []) lookup" for lookup
    by (simp add: block_invariants_ok_def block_spends_def demo_block_def demo_coinbase_facts)
  with demo_connects demo_structure [of "[]"] show ?thesis
    by (simp add: mem.process_accepts_iff genesis_node_eq) (simp add: demo_block_def)
qed

lemma demo_lookup:
  assumes "vout \<in> {0, 1}"
  shows "store_lookup (auth_storage genesis_node) (OutPoint_new 0 vout)
    = Some (outputs genesis_coinbase ! unat vout)"
proof -
  have "map_of (rev (block_outputs flat_crypto (create_genesis_block flat_crypto))) (OutPoint_new 0 vout)
      = Some (outputs genesis_coinbase ! unat vout)"
    using assms
    by (auto simp: block_outputs_def created_outputs_def create_genesis_block_def txid_def
        genesis_coinbase_def OutPoint_new_def)
  moreover have "wf_tx_output (outputs genesis_coinbase ! unat vout)"
    using assms by (auto simp: genesis_coinbase_def wf_defs)
  ultimately show ?thesis
    by (simp add: store_lookup_def store_utxo_def genesis_node_eq apply_block_utxo tx_output.roundtrip)
qed

lemma demo_spend_accepted:
  "fst (process_and_commit_block mem_redb flat_crypto genesis_node (demo_block n [demo_spend])) = Inr ()"
proof -
  let ?l = "store_lookup (auth_storage genesis_node)"
  have l: "?l (OutPoint_new 0 0) = Some (outputs genesis_coinbase ! 0)"
    "?l (OutPoint_new 0 1) = Some (outputs genesis_coinbase ! 1)"
    using demo_lookup [of 0] demo_lookup [of 1] by simp_all
  have "lookup_amount ?l (OutPoint_new 0 0) = 1980000000000000"
    "lookup_amount ?l (OutPoint_new 0 1) = 660000000000000"
    unfolding lookup_amount_def l
    by (simp_all add: genesis_coinbase_def saturating_mul_def CREATOR_ALLOCATION_AUR_def
        DEV_ALLOCATION_AUR_def QUANTA_PER_AUR_def)
  then have "tx_conserves ?l demo_spend"
    using l by (simp add: tx_conserves_def input_total_def demo_spend_facts)
  moreover have "tx_authorized flat_crypto ?l h demo_spend" for h
    using l by (simp add: tx_authorized_def demo_spend_def input_verdict_def genesis_coinbase_def
        op_true_contract)
  ultimately have "block_invariants_ok flat_crypto (demo_block n [demo_spend]) ?l"
    by (simp add: block_invariants_ok_def block_spends_def demo_block_def demo_coinbase_facts
        demo_spend_facts OutPoint_new_def)
  with demo_connects demo_structure [of "[demo_spend]"] show ?thesis
    by (simp add: mem.process_accepts_iff genesis_node_eq) (simp add: demo_block_def)
qed

text \<open>A database whose commits always fail.\<close>

definition broken_redb :: "(store, store, store) redb" where
  "broken_redb = mem_redb\<lparr>w_commit := (\<lambda>db w. (Inl ''disk full'', db))\<rparr>"

section \<open>Properties\<close>

text \<open>C7: the hard cap. In every state the authority engine can reach from an empty database, by
  any sequence of genesis initialisations, submitted blocks (valid or not) and faults, with any
  I/O failures on the way, the value held by the UTXO set is at most 66,000,000 AUR.\<close>

theorem supply_hard_cap:
  assumes "reachable view wview rview C A"
  shows "total_supply (view (auth_storage A)) \<le> amount MAX_TOTAL_SUPPLY_QUANTA"
proof -
  have inv: "ledger_inv C (view (auth_storage A))" by (rule reachable_inv [OF assms])
  show ?thesis
  proof (cases "store_tip (view (auth_storage A))")
    case (Inl e)
    with inv show ?thesis by (simp add: ledger_inv_def)
  next
    case (Inr tip)
    have "unat (h :: u64) < 2 ^ 64" for h using unat_bound [of h] by simp
    then show ?thesis using Inr inv issued_upto_cap
      by (cases tip) (auto simp: ledger_inv_def intro: order_trans)
  qed
qed

theorem supply_hard_cap_witness:
  "total_supply (auth_storage genesis_node) \<le> amount MAX_TOTAL_SUPPLY_QUANTA"
  using supply_hard_cap [OF genesis_node_reachable] by simp

text \<open>Issuance follows the schedule. The supply never exceeds the genesis premine plus the
  block subsidies up to the height of the tip, and the tip always names a stored block with
  that hash and height.\<close>

theorem supply_follows_schedule:
  assumes "reachable view wview rview C A" "store_tip (view (auth_storage A)) = Inr (Some t)"
  shows "total_supply (view (auth_storage A)) \<le> (\<Sum>i\<le>unat (fst t). unat (allowed_subsidy (of_nat i)))
    \<and> tip_entry C (view (auth_storage A)) t"
  using reachable_inv [OF assms(1)] assms(2) by (simp add: ledger_inv_def issued_upto_def)

theorem supply_follows_schedule_witness:
  "total_supply (auth_storage genesis_node) \<le> 2640000000000000
   \<and> tip_entry flat_crypto (auth_storage genesis_node) (0, 0)"
proof -
  have "store_tip (auth_storage genesis_node) = Inr (Some (0, 0))"
    by (simp add: genesis_node_eq apply_block_tip create_genesis_block_def block_hash_def
        header_hash_def digest_def flat_crypto_def)
  with supply_follows_schedule [OF genesis_node_reachable, of "(0, 0)"] show ?thesis
    by (simp add: unat_allowed_subsidy)
qed

text \<open>C12: one block is one atomic, value-conserving transition. When the engine reports success
  the ledger is exactly the abstract ledger update for that block, the block extends the tip,
  passed every structural rule, and the supply grew by at most the allowed subsidy; when it
  reports an error the tables are untouched and the node either keeps its state or has latched
  a fault.\<close>

theorem process_and_commit_block_atomic:
  assumes "redb_laws R view wview rview" "process_and_commit_block R C A block = (res, A')"
  shows "case res of
      Inr _ \<Rightarrow> connects (view (auth_storage A)) block \<and>
        block_structure_ok C block (height (header block)) \<and>
        view (auth_storage A') = apply_block C block (block_spends block) (view (auth_storage A)) \<and>
        total_supply (view (auth_storage A')) \<le>
          total_supply (view (auth_storage A)) + unat (allowed_subsidy (height (header block)))
    | Inl _ \<Rightarrow> view (auth_storage A') = view (auth_storage A) \<and>
        (auth_state A' = auth_state A \<or> is_failed (auth_state A'))"
proof (cases res)
  case (Inl e)
  with redb_laws.process_err [OF assms(1) assms(2) [unfolded Inl]] show ?thesis by simp
next
  case (Inr u)
  note ok = redb_laws.process_ok [OF assms(1) assms(2) [unfolded Inr]]
  from ok(5) accepted_supply [OF _ _ ok(4)] have
    "total_supply (apply_block C block (block_spends block) (view (auth_storage A))) \<le>
      total_supply (view (auth_storage A)) + unat (allowed_subsidy (height (header block)))"
    by blast
  with ok(3,4,6) Inr show ?thesis by simp
qed

theorem process_and_commit_block_atomic_witness:
  "auth_storage (snd (process_and_commit_block mem_redb flat_crypto genesis_node (demo_block 0 [demo_spend])))
   = apply_block flat_crypto (demo_block 0 [demo_spend]) (block_spends (demo_block 0 [demo_spend])) (auth_storage genesis_node)"
proof -
  obtain A' where "process_and_commit_block mem_redb flat_crypto genesis_node (demo_block 0 [demo_spend]) = (Inr (), A')"
    using demo_spend_accepted by (metis prod.collapse)
  with process_and_commit_block_atomic [OF mem.redb_laws_axioms this] show ?thesis by simp
qed

text \<open>C14: the engine is complete on a working database. It accepts a block exactly when the node
  runs, the block extends the tip, satisfies the structural rules, and its transactions spend
  existing outputs without duplication, conserve value and are authorised by their scripts.\<close>

theorem process_and_commit_block_accepts_iff:
  assumes "redb_healthy R view wview rview"
  shows "fst (process_and_commit_block R C A block) = Inr () \<longleftrightarrow>
     auth_state A = Running \<and> connects (view (auth_storage A)) block \<and>
     block_structure_ok C block (height (header block)) \<and>
     block_invariants_ok C block (store_lookup (view (auth_storage A)))"
  by (rule redb_healthy.process_accepts_iff [OF assms])

theorem process_and_commit_block_accepts_iff_witness:
  "\<not> connects (auth_storage genesis_node) (create_genesis_block flat_crypto) \<and>
   fst (process_and_commit_block mem_redb flat_crypto genesis_node (create_genesis_block flat_crypto))
     \<noteq> Inr ()"
proof -
  have "\<not> connects (auth_storage genesis_node) (create_genesis_block flat_crypto)"
    by (simp add: connects_def genesis_node_eq apply_block_tip expected_next_Inr create_genesis_block_def)
  then show ?thesis
    using process_and_commit_block_accepts_iff [OF mem.redb_healthy_axioms,
        of flat_crypto genesis_node "create_genesis_block flat_crypto"] by simp
qed

text \<open>C13: no output is spent twice. Once a committed block has spent an outpoint that it does not
  create again, every later block that spends the outpoint is rejected: after any further blocks,
  accepted or not, genesis initialisations, faults, restarts and I/O failures, as long as none of
  the blocks offered in between creates an output under the same identifier.\<close>

theorem no_double_spend:
  assumes "redb_laws R view wview rview" "redb_laws R' view wview' rview'"
    and "process_and_commit_block R C A block = (Inr u, A')"
    and "op \<in> set (block_spends block)" "op \<notin> fst ` set (block_outputs C block)"
    and "authority_run view wview rview C A' blocks A''"
    and "\<forall>b\<in>set blocks. op \<notin> fst ` set (block_outputs C b)"
    and "op \<in> set (block_spends block')"
  shows "fst (process_and_commit_block R' C A'' block') \<noteq> Inr u'"
proof
  assume "fst (process_and_commit_block R' C A'' block') = Inr u'"
  then obtain A3 where run: "process_and_commit_block R' C A'' block' = (Inr u', A3)"
    by (metis prod.collapse)
  have "map_of (rev (block_outputs C block)) op = None"
    using assms(5) by (simp add: map_of_eq_None_iff)
  then have "store_utxo (view (auth_storage A')) op = Inr None" "\<exists>t. store_tip (view (auth_storage A')) = Inr (Some t)"
    using redb_laws.process_ok(6) [OF assms(1,3)] assms(4)
    by (simp_all add: store_utxo_def apply_block_utxo apply_block_tip)
  from spent_stays_spent [OF assms(6) this assms(7)]
  have gone: "store_utxo (view (auth_storage A'')) op = Inr None" by simp
  from redb_laws.process_ok(5) [OF assms(2) run] obtain lookup where
    look: "lookup_sound lookup (view (auth_storage A''))" "block_invariants_ok C block' lookup" by blast
  from look(2) assms(8) have "lookup op \<noteq> None"
    by (auto simp: block_invariants_ok_def block_spends_def list_all_iff tx_conserves_def)
  with look(1) gone show False by (auto simp: lookup_sound_def)
qed

theorem no_double_spend_witness:
  "fst (process_and_commit_block mem_redb flat_crypto
     (snd (process_and_commit_block mem_redb flat_crypto
        (snd (process_and_commit_block mem_redb flat_crypto genesis_node (demo_block 0 [demo_spend])))
        (demo_block 2 [])))
     (demo_block 1 [demo_spend])) \<noteq> Inr ()"
proof (rule no_double_spend [OF mem.redb_laws_axioms mem.redb_laws_axioms])
  let ?A = "snd (process_and_commit_block mem_redb flat_crypto genesis_node (demo_block 0 [demo_spend]))"
  show "process_and_commit_block mem_redb flat_crypto genesis_node (demo_block 0 [demo_spend]) = (Inr (), ?A)"
    using demo_spend_accepted [of 0] by (simp add: prod_eq_iff)
  show "OutPoint_new 0 0 \<in> set (block_spends (demo_block 0 [demo_spend]))"
    "OutPoint_new 0 0 \<in> set (block_spends (demo_block 1 [demo_spend]))"
    by (simp_all add: block_spends_def demo_block_def demo_coinbase_facts demo_spend_facts)
  show "OutPoint_new 0 0 \<notin> fst ` set (block_outputs flat_crypto (demo_block 0 [demo_spend]))"
    "\<forall>b\<in>set ([] @ [demo_block 2 []]). OutPoint_new 0 0 \<notin> fst ` set (block_outputs flat_crypto b)"
    by (simp_all add: block_outputs_def created_outputs_def demo_block_def demo_coinbase_facts
        demo_spend_facts)
  show "authority_run id (id :: store \<Rightarrow> store) (id :: store \<Rightarrow> store) flat_crypto ?A ([] @ [demo_block 2 []])
      (snd (process_and_commit_block mem_redb flat_crypto ?A (demo_block 2 [])))"
    by (rule run_block [OF run_none mem.redb_laws_axioms]) (rule prod.collapse [symmetric])
qed

text \<open>The node never panics on its own ledger, and a running node always has a chain. In every
  reachable state the fixed-size copies in \<open>get_tip\<close> and \<open>get_block_by_height\<close> match the
  stored lengths, \<open>Running\<close> implies a committed tip, and a failed node has raised its cancel
  signal.\<close>

theorem reachable_storage_safe:
  assumes "reachable view wview rview C A" "redb_laws R view wview' rview'"
  shows "get_tip R (auth_storage A) \<noteq> Inl SlicePanic \<and>
    get_block_by_height R (auth_storage A) h \<noteq> Inl SlicePanic \<and>
    (auth_state A = Running \<longrightarrow> get_tip R (auth_storage A) \<noteq> Inr None) \<and>
    (is_failed (auth_state A) \<longrightarrow> cancel_signal A)"
proof -
  have inv: "ledger_inv C (view (auth_storage A))" by (rule reachable_inv [OF assms(1)])
  have life: "lifecycle_inv view A" by (rule reachable_lifecycle [OF assms(1)])
  have "get_tip R (auth_storage A) \<noteq> Inl SlicePanic"
    using redb_laws.get_tip_panic [OF assms(2)] inv by (auto simp: ledger_inv_def)
  moreover have "get_block_by_height R (auth_storage A) h \<noteq> Inl SlicePanic"
    using redb_laws.get_block_by_height_panic [OF assms(2)] inv by (auto simp: ledger_inv_def)
  ultimately show ?thesis
    using life redb_laws.get_tip_reads [OF assms(2)] by (auto simp: lifecycle_inv_def)
qed

theorem reachable_storage_safe_witness:
  "get_tip mem_redb (auth_storage genesis_node) \<noteq> Inl SlicePanic
   \<and> get_block_by_height mem_redb (auth_storage genesis_node) 0 \<noteq> Inl SlicePanic
   \<and> get_tip mem_redb (auth_storage genesis_node) \<noteq> Inr None"
  using reachable_storage_safe [OF genesis_node_reachable mem.redb_laws_axioms, of 0]
  by (simp add: genesis_node_eq)

text \<open>Fail-stop. A node that is not running rejects every block with \<open>NodeHalted\<close> and changes
  nothing; a failed commit always takes the node there.\<close>

theorem fail_stop_locks_ledger:
  assumes "commit_block R C (auth_storage A) block spent = (Inl err, db)"
    and "A' = snd (commit_validated R C A block spent)"
  shows "is_failed (auth_state A') \<and> cancel_signal A' \<and>
    process_and_commit_block R' C A' block' = (Inl NodeHalted, A')"
proof -
  have "is_failed (auth_state A')" "cancel_signal A'"
    using assms by (simp_all add: commit_validated_def)
  then show ?thesis by (auto intro: process_halted)
qed

theorem fail_stop_locks_ledger_witness:
  "fst (process_and_commit_block mem_redb flat_crypto
     (snd (commit_validated broken_redb flat_crypto genesis_node (demo_block 0 []) [])) (demo_block 0 []))
   = Inl NodeHalted"
proof -
  have "commit_block broken_redb flat_crypto (auth_storage genesis_node) (demo_block 0 []) []
      = (Inl (CommitError ''disk full''), auth_storage genesis_node)"
    by (simp add: commit_block_def storage_commit_def broken_redb_def mem_redb_def put_def
        demo_block_def insert_outputs_def demo_coinbase_facts Let_def)
  from fail_stop_locks_ledger [OF this refl, where R' = mem_redb and block' = "demo_block 0 []"]
  show ?thesis by simp
qed

text \<open>A fault is not permanent. Although \<open>fail_stop\<close> is documented as terminal, a later
  genesis initialisation on a working database takes a failed node back to \<open>Running\<close>.\<close>

theorem initialize_genesis_clears_fault:
  assumes "redb_healthy R view wview rview" "store_tip (view (auth_storage A)) = Inr (Some t)"
  shows "initialize_genesis R C (fail_stop fault A) =
    (Inr (), A\<lparr>auth_state := Running, cancel_signal := True\<rparr>)"
  using assms by (simp add: initialize_genesis_def redb_healthy.get_tip_ok fail_stop_def)

theorem initialize_genesis_clears_fault_witness:
  "auth_state (snd (initialize_genesis mem_redb flat_crypto
     (fail_stop (StateCorruption ''disk'') genesis_node))) = Running"
proof -
  have "store_tip (id (auth_storage genesis_node)) = Inr (Some (0, 0))"
    by (simp add: genesis_node_eq apply_block_tip create_genesis_block_def block_hash_def
        header_hash_def digest_def flat_crypto_def)
  then show ?thesis
    using initialize_genesis_clears_fault [OF mem.redb_healthy_axioms, of genesis_node "(0, 0)"
        flat_crypto "StateCorruption ''disk''"] by simp
qed

text \<open>C37: validation and commit are two separate critical sections. Two blocks validated against
  the same tip both commit, the second one at a height that is already taken; the engine would
  have rejected it had its validation run after the first commit.\<close>

theorem interleaved_commits_race:
  assumes "redb_healthy R view wview rview"
    and "validate_block R C A b1 = (Inr s1, A)" "validate_block R C A b2 = (Inr s2, A)"
    and "A1 = snd (commit_validated R C A b1 s1)"
  shows "fst (commit_validated R C A1 b2 s2) = Inr () \<and> height (header b1) = height (header b2) \<and>
    fst (process_and_commit_block R C A1 b2) \<noteq> Inr ()"
proof -
  from assms(2,3) have h: "height (header b1) = height (header b2)"
    by (auto simp: validate_block_Inr block_structure_ok_def)
  from redb_healthy.commit_validated_ok [OF assms(1), of C A b1 s1] assms(4)
  have "store_tip (view (auth_storage A1)) = Inr (Some (height (header b1), block_hash C b1))"
    by (auto simp: apply_block_tip)
  then have "\<not> connects (view (auth_storage A1)) b2"
    using h by (auto simp: connects_def expected_next_Inr)
  then have "fst (process_and_commit_block R C A1 b2) \<noteq> Inr ()"
    by (simp add: redb_healthy.process_accepts_iff [OF assms(1)])
  moreover have "fst (commit_validated R C A1 b2 s2) = Inr ()"
    using redb_healthy.commit_validated_ok [OF assms(1), of C A1 b2 s2] by auto
  ultimately show ?thesis using h by simp
qed

theorem interleaved_commits_race_witness:
  "fst (commit_validated mem_redb flat_crypto
     (snd (commit_validated mem_redb flat_crypto genesis_node (demo_block 0 [demo_spend])
        [OutPoint_new 0 0, OutPoint_new 0 1]))
     (demo_block 1 [demo_spend]) [OutPoint_new 0 0, OutPoint_new 0 1]) = Inr ()"
proof -
  have "validate_block mem_redb flat_crypto genesis_node (demo_block n [demo_spend])
      = (Inr [OutPoint_new 0 0, OutPoint_new 0 1], genesis_node)" for n
    using demo_spend_accepted [of n]
    by (auto simp: process_and_commit_block_def validate_block_Inr block_spends_def demo_block_def
        demo_coinbase_facts demo_spend_facts split: prod.splits sum.splits)
  from interleaved_commits_race [OF mem.redb_healthy_axioms this this refl] show ?thesis by simp
qed

end
