(* ===== verification/Fee_Rate.thy ===== *)
theory Fee_Rate
  imports Primitives
begin

text \<open>
  The fee-rate order of the mempool (\<open>mempool/fee_rate.rs\<close> of \<open>aurion-node\<close>): a 256-bit product
  of two \<open>u128\<close> in four 64-bit partial products, and the cross-multiplied comparison with its
  tie-break on the transaction id. The ordered index \<open>BTreeSet<FeeRateIndex>\<close> is the sorted list
  of its elements; its operations search by the order, as the standard library does.
\<close>

section \<open>Wide multiplication\<close>

definition wide_mul_u128 :: "u128 \<Rightarrow> u128 \<Rightarrow> u128 \<times> u128" where
  "wide_mul_u128 a b =
     (let u64_max = 0xFFFFFFFFFFFFFFFF;
          a_lo = a AND u64_max; a_hi = drop_bit 64 a;
          b_lo = b AND u64_max; b_hi = drop_bit 64 b;
          ll = a_lo * b_lo; lh = a_lo * b_hi; hl = a_hi * b_lo; hh = a_hi * b_hi;
          lo = ll + push_bit 64 lh + push_bit 64 hl;
          carry_lh = drop_bit 64 lh;
          carry_hl = drop_bit 64 hl;
          carry_lo_overflow = drop_bit 64 (drop_bit 64 ll + (lh AND u64_max) + (hl AND u64_max));
          hi = hh + carry_lh + carry_hl + carry_lo_overflow
      in (hi, lo))"

definition wide_value :: "u128 \<times> u128 \<Rightarrow> nat" where
  "wide_value p = unat (fst p) * 2 ^ 128 + unat (snd p)"

lemma unat_and_u64_max: "unat (w AND 0xFFFFFFFFFFFFFFFF :: u128) = unat w mod 2 ^ 64"
proof -
  have "w AND 0xFFFFFFFFFFFFFFFF = take_bit 64 w"
    by (simp add: take_bit_eq_mask mask_eq_exp_minus_1)
  then show ?thesis by (simp only: unsigned_take_bit_eq) (simp add: take_bit_eq_mod)
qed

lemma unat_shift_u64: "unat (drop_bit 64 w :: u128) = unat w div 2 ^ 64"
  by (simp only: unat_drop_bit_eq) (simp add: drop_bit_eq_div)

lemma unat_mult_small: "unat (a :: u128) * unat b < 2 ^ 128 \<Longrightarrow> unat (a * b) = unat a * unat b"
  by (simp add: unat_word_ariths)

lemma unat_add_small: "unat (a :: u128) + unat b < 2 ^ 128 \<Longrightarrow> unat (a + b) = unat a + unat b"
  by (simp add: unat_word_ariths)

lemma unat_sum_push:
  "unat (x + push_bit 64 y + push_bit 64 z :: u128) = (unat x + unat y * 2 ^ 64 + unat z * 2 ^ 64) mod 2 ^ 128"
proof -
  have "x + push_bit 64 y + push_bit 64 z = of_nat (unat x + unat y * 2 ^ 64 + unat z * 2 ^ 64)"
    by (simp add: push_bit_eq_mult)
  then show ?thesis by (simp only: unat_of_nat) (simp add: take_bit_eq_mod)
qed

lemma unat_sum4: "unat (x + y + z + w :: u128) = (unat x + unat y + unat z + unat w) mod 2 ^ 128"
proof -
  have "x + y + z + w = of_nat (unat x + unat y + unat z + unat w)" by simp
  then show ?thesis by (simp only: unat_of_nat) (simp add: take_bit_eq_mod)
qed

text \<open>The carry arithmetic on naturals, for any base.\<close>

lemma carry_split:
  fixes M :: nat assumes "0 < M"
  shows "(ll + lh * M + hl * M) div (M * M)
    = lh div M + hl div M + (ll div M + lh mod M + hl mod M) div M"
proof -
  have "(ll + lh * M + hl * M) div M = ll div M + lh + hl"
    using assms by (simp add: add.assoc distrib_right [symmetric])
  also have "\<dots> = (ll div M + lh mod M + hl mod M) + (lh div M + hl div M) * M"
    using div_mult_mod_eq [of lh M] div_mult_mod_eq [of hl M] by (simp add: algebra_simps)
  finally have "(ll + lh * M + hl * M) div M div M
      = ((ll div M + lh mod M + hl mod M) + (lh div M + hl div M) * M) div M" by (rule arg_cong)
  also have "\<dots> = (lh div M + hl div M) + (ll div M + lh mod M + hl mod M) div M"
    by (rule div_mult_self1) (use assms in simp)
  finally have "(ll + lh * M + hl * M) div M div M
      = (lh div M + hl div M) + (ll div M + lh mod M + hl mod M) div M" .
  then show ?thesis by (simp add: div_mult2_eq)
qed

lemma mult_lt_M: "(x :: nat) < M \<Longrightarrow> y < M \<Longrightarrow> x * y < M * M"
  by (simp add: mult_strict_mono')

lemma wide_mul_value: "wide_value (wide_mul_u128 a b) = unat a * unat b"
proof -
  define M :: nat where "M = 2 ^ 64"
  have MM: "M * M = 2 ^ 128" "0 < M" by (simp_all add: M_def)
  define al ah bl bh where "al = unat a mod M" and "ah = unat a div M"
    and "bl = unat b mod M" and "bh = unat b div M"
  have "unat a < M * M" "unat b < M * M"
    using unat_bound [of a] unat_bound [of b] by (simp_all only: MM) simp_all
  then have lt: "al < M" "bl < M" "ah < M" "bh < M"
    using MM(2) by (simp_all add: al_def bl_def ah_def bh_def less_mult_imp_div_less)
  have prods: "al * bl < M * M" "al * bh < M * M" "ah * bl < M * M" "ah * bh < M * M"
    using lt by (simp_all add: mult_lt_M)
  have ab: "unat a = ah * M + al" "unat b = bh * M + bl"
    by (simp_all add: al_def ah_def bl_def bh_def)
  let ?x = "0xFFFFFFFFFFFFFFFF :: u128"
  define ll lh hl hh where "ll = (a AND ?x) * (b AND ?x)" and "lh = (a AND ?x) * drop_bit 64 b"
    and "hl = drop_bit 64 a * (b AND ?x)" and "hh = drop_bit 64 a * drop_bit 64 b"
  have halves: "unat (a AND ?x) = al" "unat (b AND ?x) = bl"
    "unat (drop_bit 64 a) = ah" "unat (drop_bit 64 b) = bh"
    by (simp_all only: unat_and_u64_max unat_shift_u64 al_def bl_def ah_def bh_def M_def)
  have u: "unat ll = al * bl" "unat lh = al * bh" "unat hl = ah * bl" "unat hh = ah * bh"
    unfolding ll_def lh_def hl_def hh_def
    by (subst unat_mult_small; (simp only: halves MM(1) [symmetric] prods)?)+
  define mid where "mid = drop_bit 64 ll + (lh AND ?x) + (hl AND ?x)"
  have "al * bl div M < M" "al * bh mod M < M" "ah * bl mod M < M"
    using prods(1) MM(2) by (simp_all add: less_mult_imp_div_less)
  moreover have "3 * M < M * M" by (simp add: M_def)
  ultimately have "al * bl div M + al * bh mod M + ah * bl mod M < 2 ^ 128"
    using MM(1) by linarith
  then have mid: "unat mid = al * bl div M + al * bh mod M + ah * bl mod M"
    using unat_sum4 [of "drop_bit 64 ll" "lh AND ?x" "hl AND ?x" 0]
    by (simp only: mid_def unat_shift_u64 unat_and_u64_max u M_def [symmetric] mod_less unsigned_0 add_0_right)
  let ?S = "al * bl + al * bh * M + ah * bl * M"
  have lo: "unat (ll + push_bit 64 lh + push_bit 64 hl) = ?S mod (M * M)"
    by (simp only: unat_sum_push u M_def [symmetric] MM(1) [symmetric])
  have total: "ah * bh * (M * M) + ?S = unat a * unat b"
    by (simp add: ab algebra_simps)
  have "(ah * bh + ?S div (M * M)) * (M * M) \<le> ah * bh * (M * M) + ?S"
    by (simp add: distrib_right)
  also have "\<dots> < (M * M) * (M * M)"
    unfolding total using \<open>unat a < M * M\<close> \<open>unat b < M * M\<close> by (rule mult_lt_M)
  finally have "ah * bh + ?S div (M * M) < M * M" by simp
  moreover have "unat (hh + drop_bit 64 lh + drop_bit 64 hl + drop_bit 64 mid)
      = (ah * bh + al * bh div M + ah * bl div M
         + (al * bl div M + al * bh mod M + ah * bl mod M) div M) mod (M * M)"
    by (simp only: unat_sum4 unat_shift_u64 u mid M_def [symmetric] MM(1) [symmetric])
  ultimately have hi: "unat (hh + drop_bit 64 lh + drop_bit 64 hl + drop_bit 64 mid) = ah * bh + ?S div (M * M)"
    using carry_split [OF MM(2), of "al * bl" "al * bh" "ah * bl"] by (simp add: add.assoc)
  have "wide_mul_u128 a b = (hh + drop_bit 64 lh + drop_bit 64 hl + drop_bit 64 mid,
      ll + push_bit 64 lh + push_bit 64 hl)"
    by (simp add: wide_mul_u128_def Let_def ll_def lh_def hl_def hh_def mid_def)
  then have "wide_value (wide_mul_u128 a b) = (ah * bh + ?S div (M * M)) * (M * M) + ?S mod (M * M)"
    by (simp only: wide_value_def fst_conv snd_conv hi lo MM)
  also have "\<dots> = ah * bh * (M * M) + ?S"
    by (simp only: distrib_right add.assoc div_mult_mod_eq)
  finally show ?thesis by (simp only: total)
qed

section \<open>The fee-rate index\<close>

record fee_rate_index =
  fr_fee :: quantum
  fr_size :: usize
  fr_txid :: hash256

definition FeeRateIndex_new :: "quantum \<Rightarrow> usize \<Rightarrow> hash256 \<Rightarrow> fee_rate_index" where
  "FeeRateIndex_new fee sz tid = \<lparr>fr_fee = fee, fr_size = sz, fr_txid = tid\<rparr>"

definition cmp_u128 :: "u128 \<Rightarrow> u128 \<Rightarrow> ordering" where
  "cmp_u128 a b = (if a < b then Less else if a = b then Equal else Greater)"

definition cmp_pair :: "u128 \<times> u128 \<Rightarrow> u128 \<times> u128 \<Rightarrow> ordering" where
  "cmp_pair p q = (case cmp_u128 (fst p) (fst q) of Equal \<Rightarrow> cmp_u128 (snd p) (snd q) | c \<Rightarrow> c)"

definition rate_cmp :: "fee_rate_index \<Rightarrow> fee_rate_index \<Rightarrow> ordering" where
  "rate_cmp self other =
     (let lhs = wide_mul_u128 (raw (fr_fee self)) (of_nat (fr_size other));
          rhs = wide_mul_u128 (raw (fr_fee other)) (of_nat (fr_size self))
      in case cmp_pair lhs rhs of
           Equal \<Rightarrow> lex_cmp (as_bytes (fr_txid self)) (as_bytes (fr_txid other))
         | other_ord \<Rightarrow> other_ord)"

definition beats :: "fee_rate_index \<Rightarrow> fee_rate_index \<Rightarrow> bool" where
  "beats self other \<longleftrightarrow> rate_cmp self other = Greater"

text \<open>The reading over naturals: cross products, then the id as a 256-bit number.\<close>

definition cmp_nat :: "nat \<Rightarrow> nat \<Rightarrow> ordering" where
  "cmp_nat m n = (if m < n then Less else if m = n then Equal else Greater)"

definition wf_index :: "fee_rate_index \<Rightarrow> bool" where
  "wf_index a \<longleftrightarrow> 0 < fr_size a \<and> fr_size a < 2 ^ 64"

lemma cmp_pair_value: "cmp_pair p q = cmp_nat (wide_value p) (wide_value q)"
proof -
  have b: "unat (w :: u128) < 2 ^ 128" for w using unat_bound [of w] by simp
  have "unat (fst p) * 2 ^ 128 + unat (snd p) < unat (fst q) * 2 ^ 128 + unat (snd q)"
    if "unat (fst p) < unat (fst q)" for p q :: "u128 \<times> u128"
  proof -
    have "Suc (unat (fst p)) * 2 ^ 128 \<le> unat (fst q) * 2 ^ 128"
      using that by (intro mult_le_mono1) simp
    with b [of "snd p"] show ?thesis by simp
  qed
  from this [of p q] this [of q p] show ?thesis
    by (cases "unat (fst p)" "unat (fst q)" rule: linorder_cases)
      (auto simp: cmp_pair_def cmp_u128_def cmp_nat_def wide_value_def word_less_nat_alt
        word_unat_eq_iff)
qed

lemma rate_cmp_cross:
  assumes "fr_size a < 2 ^ 64" "fr_size b < 2 ^ 64"
  shows "rate_cmp a b =
    (case cmp_nat (amount (fr_fee a) * fr_size b) (amount (fr_fee b) * fr_size a) of
       Equal \<Rightarrow> cmp_nat (unat (fr_txid a)) (unat (fr_txid b)) | c \<Rightarrow> c)"
proof -
  have u: "unat (of_nat (fr_size a) :: u128) = fr_size a" "unat (of_nat (fr_size b) :: u128) = fr_size b"
    using assms by (intro unat_of_nat_less; simp)+
  have l: "lex_cmp (as_bytes x) (as_bytes y) = cmp_nat (unat x) (unat y)" for x y :: hash256
    by (simp add: lex_cmp_be_nat cmp_nat_def as_bytes_def be_nat_to_be_bytes [of 32])
  show ?thesis
    by (simp only: rate_cmp_def Let_def cmp_pair_value wide_mul_value u l)
qed

section \<open>Ordered sets\<close>

fun bt_insert :: "('a \<Rightarrow> 'a \<Rightarrow> ordering) \<Rightarrow> 'a \<Rightarrow> 'a list \<Rightarrow> 'a list" where
  "bt_insert cmp x [] = [x]"
| "bt_insert cmp x (y # ys) = (case cmp x y of
     Less \<Rightarrow> x # y # ys
   | Equal \<Rightarrow> y # ys
   | Greater \<Rightarrow> y # bt_insert cmp x ys)"

fun bt_remove :: "('a \<Rightarrow> 'a \<Rightarrow> ordering) \<Rightarrow> 'a \<Rightarrow> 'a list \<Rightarrow> 'a list" where
  "bt_remove cmp x [] = []"
| "bt_remove cmp x (y # ys) = (case cmp x y of
     Less \<Rightarrow> y # ys
   | Equal \<Rightarrow> ys
   | Greater \<Rightarrow> y # bt_remove cmp x ys)"

definition bt_sorted :: "('a \<Rightarrow> 'a \<Rightarrow> ordering) \<Rightarrow> 'a list \<Rightarrow> bool" where
  "bt_sorted cmp xs \<longleftrightarrow> sorted_wrt (\<lambda>x y. cmp x y = Less) xs"

text \<open>What \<open>Ord\<close> promises to \<open>BTreeSet\<close>, on the values that occur.\<close>

locale ord_laws =
  fixes cmp :: "'a \<Rightarrow> 'a \<Rightarrow> ordering" and valid :: "'a \<Rightarrow> bool"
  assumes cmp_flip: "valid x \<Longrightarrow> valid y \<Longrightarrow> cmp x y = Less \<longleftrightarrow> cmp y x = Greater"
    and less_trans: "valid x \<Longrightarrow> valid y \<Longrightarrow> valid z \<Longrightarrow> cmp x y = Less \<Longrightarrow> cmp y z = Less \<Longrightarrow> cmp x z = Less"
    and eq_less_trans: "valid x \<Longrightarrow> valid y \<Longrightarrow> valid z \<Longrightarrow> cmp x y = Equal \<Longrightarrow> cmp y z = Less \<Longrightarrow> cmp x z = Less"
begin

lemma bt_insert_subset: "set (bt_insert cmp x xs) \<subseteq> insert x (set xs)"
  by (induction xs) (auto split: ordering.splits)

lemma bt_insert_sorted:
  assumes "bt_sorted cmp xs" "\<forall>y\<in>set xs. valid y" "valid x"
  shows "bt_sorted cmp (bt_insert cmp x xs)"
  using assms
proof (induction xs)
  case (Cons y ys)
  show ?case
  proof (cases "cmp x y")
    case Less
    with Cons.prems show ?thesis by (auto simp: bt_sorted_def intro: less_trans)
  next
    case Equal
    with Cons.prems show ?thesis by simp
  next
    case Greater
    with Cons.prems have "cmp y x = Less" by (simp add: cmp_flip)
    with Greater Cons bt_insert_subset [of x ys] show ?thesis by (auto simp: bt_sorted_def)
  qed
qed (simp add: bt_sorted_def)

lemma set_bt_insert:
  assumes "bt_sorted cmp xs" "\<forall>y\<in>set xs. valid y" "valid x" "\<forall>y\<in>set xs. cmp x y \<noteq> Equal"
  shows "set (bt_insert cmp x xs) = insert x (set xs)"
  using assms by (induction xs) (auto simp: bt_sorted_def split: ordering.splits)

lemma bt_remove_subset: "set (bt_remove cmp x xs) \<subseteq> set xs"
  by (induction xs) (auto split: ordering.splits)

lemma bt_remove_sorted: "bt_sorted cmp xs \<Longrightarrow> bt_sorted cmp (bt_remove cmp x xs)"
proof (induction xs)
  case (Cons y ys)
  with bt_remove_subset [of x ys] show ?case by (auto simp: bt_sorted_def split: ordering.splits)
qed (simp add: bt_sorted_def)

lemma set_bt_remove:
  assumes "bt_sorted cmp xs" "\<forall>y\<in>set xs. valid y" "valid x"
  shows "set (bt_remove cmp x xs) = {y \<in> set xs. cmp x y \<noteq> Equal}"
  using assms
proof (induction xs)
  case (Cons y ys)
  have tail: "cmp x z = Less" if "z \<in> set ys" "cmp x y \<in> {Less, Equal}" for z
    using Cons.prems that by (auto simp: bt_sorted_def intro: less_trans eq_less_trans)
  show ?case
    using Cons tail by (cases "cmp x y") (fastforce simp: bt_sorted_def)+
qed simp

end

text \<open>The fee-rate comparison is a lawful order on indices of positive size.\<close>

lemma cross_trans:
  fixes fa :: nat
  assumes ab: "fa * sb \<le> fb * sa" and bc: "fb * sc \<le> fc * sb" and pos: "0 < sa" "0 < sb" "0 < sc"
  shows "fa * sc \<le> fc * sa"
    and "fa * sb < fb * sa \<or> fb * sc < fc * sb \<Longrightarrow> fa * sc < fc * sa"
proof -
  have 1: "fa * sc * sb \<le> fb * sa * sc" using mult_le_mono1 [OF ab, of sc] by (simp add: ac_simps)
  have 2: "fb * sa * sc \<le> fc * sa * sb" using mult_le_mono1 [OF bc, of sa] by (simp add: ac_simps)
  from 1 2 have "fa * sc * sb \<le> fc * sa * sb" by (rule order_trans)
  with pos show "fa * sc \<le> fc * sa" by simp
  assume "fa * sb < fb * sa \<or> fb * sc < fc * sb"
  then have "fa * sc * sb < fb * sa * sc \<or> fb * sa * sc < fc * sa * sb"
  proof
    assume "fa * sb < fb * sa"
    then have "fa * sb * sc < fb * sa * sc" using pos by simp
    then show ?thesis by (simp add: ac_simps)
  next
    assume "fb * sc < fc * sb"
    then have "fb * sc * sa < fc * sb * sa" using pos by simp
    then show ?thesis by (simp add: ac_simps)
  qed
  with 1 2 have "fa * sc * sb < fc * sa * sb" by linarith
  then show "fa * sc < fc * sa" by simp
qed

lemma rate_cmp_Less:
  assumes "wf_index a" "wf_index b"
  shows "rate_cmp a b = Less \<longleftrightarrow>
    amount (fr_fee a) * fr_size b < amount (fr_fee b) * fr_size a \<or>
    (amount (fr_fee a) * fr_size b = amount (fr_fee b) * fr_size a \<and> unat (fr_txid a) < unat (fr_txid b))"
    and "rate_cmp a b = Equal \<longleftrightarrow>
    amount (fr_fee a) * fr_size b = amount (fr_fee b) * fr_size a \<and> fr_txid a = fr_txid b"
    and "rate_cmp a b = Greater \<longleftrightarrow>
    amount (fr_fee b) * fr_size a < amount (fr_fee a) * fr_size b \<or>
    (amount (fr_fee b) * fr_size a = amount (fr_fee a) * fr_size b \<and> unat (fr_txid b) < unat (fr_txid a))"
  using assms
  by (auto simp: rate_cmp_cross wf_index_def cmp_nat_def word_unat_eq_iff)

interpretation fee_order: ord_laws rate_cmp wf_index
proof
  fix x y z
  assume v: "wf_index x" "wf_index y"
  then show "rate_cmp x y = Less \<longleftrightarrow> rate_cmp y x = Greater"
    by (auto simp: rate_cmp_Less)
  assume z: "wf_index z"
  have pos: "0 < fr_size x" "0 < fr_size y" "0 < fr_size z"
    using v z by (simp_all add: wf_index_def)
  note tr = cross_trans [OF _ _ pos, of "amount (fr_fee x)" "amount (fr_fee y)" "amount (fr_fee z)"]
  show "rate_cmp x z = Less" if "rate_cmp x y = Less" "rate_cmp y z = Less"
  proof -
    from that have le: "amount (fr_fee x) * fr_size y \<le> amount (fr_fee y) * fr_size x"
      "amount (fr_fee y) * fr_size z \<le> amount (fr_fee z) * fr_size y"
      using v z by (auto simp: rate_cmp_Less)
    show ?thesis
      using that tr [OF le] v z by (fastforce simp: rate_cmp_Less nat_less_le)
  qed
  show "rate_cmp x z = Less" if "rate_cmp x y = Equal" "rate_cmp y z = Less"
  proof -
    from that have le: "amount (fr_fee x) * fr_size y \<le> amount (fr_fee y) * fr_size x"
      "amount (fr_fee y) * fr_size z \<le> amount (fr_fee z) * fr_size y"
      using v z by (auto simp: rate_cmp_Less)
    show ?thesis
      using that tr [OF le] v z by (fastforce simp: rate_cmp_Less nat_less_le)
  qed
qed

section \<open>Properties\<close>

text \<open>C34: the four-product multiplication is exact: the pair it returns is the full 256-bit product
  of its arguments, with no carry lost.\<close>

theorem wide_mul_u128_exact:
  "unat (fst (wide_mul_u128 a b)) * 2 ^ 128 + unat (snd (wide_mul_u128 a b)) = unat a * unat b"
  using wide_mul_value [of a b] by (simp add: wide_value_def)

text \<open>C35: \<open>beats\<close> orders transactions by the exact ratio of fee to size. On indices of positive
  size it is asymmetric, transitive and total between different transactions, and a strictly
  higher fee per byte always wins.\<close>

theorem beats_fee_rate_order:
  assumes "wf_index a" "wf_index b" "wf_index c"
  shows "(beats a b \<longrightarrow> \<not> beats b a) \<and> (beats a b \<and> beats b c \<longrightarrow> beats a c) \<and>
    (fr_txid a \<noteq> fr_txid b \<longrightarrow> beats a b \<or> beats b a) \<and>
    (amount (fr_fee b) * fr_size a < amount (fr_fee a) * fr_size b \<longrightarrow> beats a b)"
proof -
  have "beats a c" if "beats a b" "beats b c"
    using that assms fee_order.less_trans [of c b a] fee_order.cmp_flip unfolding beats_def by blast
  moreover have "beats a b \<or> beats b a" if "fr_txid a \<noteq> fr_txid b"
    using that assms by (auto simp: beats_def rate_cmp_Less word_unat_eq_iff)
  ultimately show ?thesis using assms by (auto simp: beats_def rate_cmp_Less)
qed

theorem beats_fee_rate_order_witness:
  "beats (FeeRateIndex_new (Quantum 30) 2 0) (FeeRateIndex_new (Quantum 20) 2 0) \<and>
   \<not> beats (FeeRateIndex_new (Quantum 20) 2 0) (FeeRateIndex_new (Quantum 30) 2 0)"
  using beats_fee_rate_order [of "FeeRateIndex_new (Quantum 30) 2 0"
      "FeeRateIndex_new (Quantum 20) 2 0" "FeeRateIndex_new (Quantum 20) 2 0"]
  by (simp add: FeeRateIndex_new_def wf_index_def)

end
