(* ===== verification/Mempool.thy ===== *)
theory Mempool
  imports Fee_Rate Authority
begin

text \<open>
  The transaction pool of \<open>aurion-node\<close>: the rejection taxonomy (\<open>mempool/error.rs\<close>), entries
  (\<open>mempool/entry.rs\<close>), the admission pipeline (\<open>mempool/validation.rs\<close>) and the pool with its
  three indices (\<open>mempool/mod.rs\<close>). The hash map of entries is an association list, the hash map
  of reservations a partial map, the ordered index the sorted list of \<open>Fee_Rate\<close>.
\<close>

section \<open>Rejections\<close>

datatype mempool_reject =
    OversizedTransaction usize
  | EmptyTransaction
  | CoinbaseNotAllowed
  | DoubleSpendConflict outpoint hash256
  | MpMissingUtxo outpoint
  | ImmatureCoinbase string
  | LocktimeReject string
  | SequenceReject string
  | ValueConservationViolation
  | InsufficientFee string
  | FeeTooLow quantum quantum
  | MpScriptExecutionFailed string
  | ContractConditionFailed usize
  | MempoolFull
  | MpArithmeticOverflow

fun mempool_reject_display :: "mempool_reject \<Rightarrow> string" where
  "mempool_reject_display (OversizedTransaction sz) =
     ''transaction too large: '' @ show_nat sz @ '' bytes exceeds 100 KB limit''"
| "mempool_reject_display EmptyTransaction = ''transaction has empty inputs or outputs''"
| "mempool_reject_display CoinbaseNotAllowed =
     ''coinbase transactions are not accepted by the mempool''"
| "mempool_reject_display (DoubleSpendConflict op conflicting) =
     ''double-spend conflict: outpoint '' @ outpoint_display op @ '' already reserved by tx ''
     @ hash256_display conflicting"
| "mempool_reject_display (MpMissingUtxo op) =
     ''referenced UTXO not found in ledger: '' @ outpoint_display op"
| "mempool_reject_display (ImmatureCoinbase msg) = ''immature coinbase: '' @ msg"
| "mempool_reject_display (LocktimeReject msg) = ''locktime violation: '' @ msg"
| "mempool_reject_display (SequenceReject msg) = ''relative sequence violation: '' @ msg"
| "mempool_reject_display ValueConservationViolation =
     ''value conservation violated: outputs exceed inputs''"
| "mempool_reject_display (InsufficientFee msg) = ''insufficient fee: '' @ msg"
| "mempool_reject_display (FeeTooLow provided required) =
     ''fee too low: provided '' @ quantum_display provided @ '' < required ''
     @ quantum_display required"
| "mempool_reject_display (MpScriptExecutionFailed msg) = ''script execution failed: '' @ msg"
| "mempool_reject_display (ContractConditionFailed idx) =
     ''SPEC-05 contract condition failed for input index '' @ show_nat idx"
| "mempool_reject_display MempoolFull =
     ''mempool full: incoming transaction does not beat lowest fee-rate''"
| "mempool_reject_display MpArithmeticOverflow = ''arithmetic overflow during mempool calculation''"

section \<open>The six gates\<close>

definition gate_conflict ::
    "(outpoint \<rightharpoonup> hash256) \<Rightarrow> tx_input \<Rightarrow> unit \<Rightarrow> (mempool_reject, unit) result" where
  "gate_conflict mempool_spent inp u =
     (let op = previous_output inp in
      case mempool_spent op of
        Some conflicting_txid \<Rightarrow> Inl (DoubleSpendConflict op conflicting_txid)
      | None \<Rightarrow> Inr ())"

type_synonym resolved = "quantum \<times> (usize \<times> tx_input \<times> extended_utxo) list"

fun resolve_input ::
    "utxo_view \<Rightarrow> u64 \<Rightarrow> usize \<times> tx_input \<Rightarrow> resolved \<Rightarrow> (mempool_reject, resolved) result" where
  "resolve_input view next_block_height (idx, inp) (total_input_val, spent_utxos) =
     (let op = previous_output inp in
      bindR (ok_or (MpMissingUtxo op) (view op)) (\<lambda>utxo.
      bindR (map_err (\<lambda>e. ImmatureCoinbase (eutxo_error_display e))
               (verify_coinbase_maturity op utxo next_block_height)) (\<lambda>_.
      bindR (map_err (\<lambda>e. SequenceReject (eutxo_error_display e))
               (verify_relative_sequence (sequence inp) utxo next_block_height idx)) (\<lambda>_.
      bindR (map_err (\<lambda>_. MpArithmeticOverflow)
               (quantum_checked_add total_input_val (eu_value utxo))) (\<lambda>total_input_val.
        Inr (total_input_val, spent_utxos @ [(idx, inp, utxo)]))))))"

definition sum_outputs_mp :: "transaction \<Rightarrow> (mempool_reject, quantum) result" where
  "sum_outputs_mp tx =
     foldR (\<lambda>out acc. map_err (\<lambda>_. MpArithmeticOverflow) (quantum_checked_add acc (out_value out)))
       (outputs tx) QUANTUM_ZERO"

definition contract_verdict ::
    "'vk crypto \<Rightarrow> transaction \<Rightarrow> quantum \<Rightarrow> u64 \<Rightarrow> usize \<Rightarrow> tx_input \<Rightarrow> extended_utxo
     \<Rightarrow> (script_error, bool) result" where
  "contract_verdict C tx tx_fee h input_idx inp utxo =
     (let ctx = \<lparr>ctx_tx = tx, current_input_index = input_idx, current_spent_utxo = utxo,
                 ctx_fee = tx_fee, validation_height = h\<rparr>
      in execute_contract C (ScriptEngine_new C (Some ctx)) (eu_locking_script utxo)
           (unlocking_script inp) (eu_datum utxo) (redeemer inp))"

fun gate_contract ::
    "'vk crypto \<Rightarrow> transaction \<Rightarrow> quantum \<Rightarrow> u64 \<Rightarrow> usize \<times> tx_input \<times> extended_utxo \<Rightarrow> unit
     \<Rightarrow> (mempool_reject, unit) result" where
  "gate_contract C tx tx_fee h (input_idx, inp, utxo) u =
     bindR (map_err (\<lambda>e. MpScriptExecutionFailed (script_error_display e))
              (contract_verdict C tx tx_fee h input_idx inp utxo)) (\<lambda>valid.
       if \<not> valid then Inl (ContractConditionFailed input_idx) else Inr ())"

definition validate_for_mempool ::
    "'vk crypto \<Rightarrow> transaction \<Rightarrow> utxo_view \<Rightarrow> (outpoint \<rightharpoonup> hash256) \<Rightarrow> u64 \<Rightarrow> u64
     \<Rightarrow> (mempool_reject, quantum) result" where
  "validate_for_mempool C tx view mempool_spent current_tip_height median_time_past =
     (let tx_size = length (encode_tx tx) in
      if tx_size > MAX_TX_SIZE_BYTES then Inl (OversizedTransaction tx_size)
      else if inputs tx = [] \<or> outputs tx = [] then Inl EmptyTransaction
      else if is_coinbase tx then Inl CoinbaseNotAllowed
      else
        bindR (foldR (gate_conflict mempool_spent) (inputs tx) ()) (\<lambda>_.
        bindR (ok_or MpArithmeticOverflow (checked_add current_tip_height 1)) (\<lambda>next_block_height.
        bindR (map_err (\<lambda>e. LocktimeReject (eutxo_error_display e))
                 (verify_transaction_locktime tx next_block_height median_time_past)) (\<lambda>_.
        bindR (foldR (resolve_input view next_block_height) (enumerate_from 0 (inputs tx))
                 (QUANTUM_ZERO, [])) (\<lambda>(total_input_val, spent_utxos).
        bindR (sum_outputs_mp tx) (\<lambda>total_output_val.
        if total_input_val < total_output_val then Inl ValueConservationViolation
        else
          bindR (map_err (\<lambda>_. MpArithmeticOverflow)
                   (quantum_checked_sub total_input_val total_output_val)) (\<lambda>tx_fee.
          bindR (foldR (gate_contract C tx tx_fee next_block_height) spent_utxos ()) (\<lambda>_.
          bindR (ok_or MpArithmeticOverflow (checked_mul (of_nat tx_size) MIN_FEE_PER_BYTE_AUR))
            (\<lambda>required_raw.
          let required_fee = Quantum required_raw in
          bindR (map_err (\<lambda>e. InsufficientFee (eutxo_error_display e))
                   (verify_transaction_fee tx (raw total_input_val) (raw total_output_val))) (\<lambda>_.
            if tx_fee < required_fee then Inl (FeeTooLow tx_fee required_fee)
            else Inr tx_fee))))))))))"

section \<open>Entries and the pool\<close>

record mempool_entry =
  me_tx :: transaction
  me_txid :: hash256
  me_size :: usize
  me_fee :: quantum
  added_timestamp :: u64

definition MempoolEntry_new :: "'vk crypto \<Rightarrow> transaction \<Rightarrow> quantum \<Rightarrow> u64 \<Rightarrow> mempool_entry" where
  "MempoolEntry_new C tx fee now =
     \<lparr>me_tx = tx, me_txid = txid C tx, me_size = length (encode_tx tx), me_fee = fee,
      added_timestamp = now\<rparr>"

record mempool =
  by_txid :: "(hash256 \<times> mempool_entry) list"
  by_fee_rate :: "fee_rate_index list"
  spent_outpoints :: "outpoint \<rightharpoonup> hash256"
  total_bytes :: usize
  max_bytes :: usize

definition DEFAULT_MAX_MEMPOOL_BYTES :: usize where
  "DEFAULT_MAX_MEMPOOL_BYTES = 50 * 1024 * 1024"

definition Mempool_new :: "usize \<Rightarrow> mempool" where
  "Mempool_new limit =
     \<lparr>by_txid = [], by_fee_rate = [], spent_outpoints = Map.empty, total_bytes = 0,
      max_bytes = limit\<rparr>"

definition entry_index :: "mempool_entry \<Rightarrow> fee_rate_index" where
  "entry_index e = FeeRateIndex_new (me_fee e) (me_size e) (me_txid e)"

definition release :: "mempool_entry \<Rightarrow> (outpoint \<rightharpoonup> hash256) \<Rightarrow> (outpoint \<rightharpoonup> hash256)" where
  "release e = fold (\<lambda>inp m. m(previous_output inp := None)) (inputs (me_tx e))"

definition reserve :: "mempool_entry \<Rightarrow> (outpoint \<rightharpoonup> hash256) \<Rightarrow> (outpoint \<rightharpoonup> hash256)" where
  "reserve e = fold (\<lambda>inp m. m(previous_output inp \<mapsto> me_txid e)) (inputs (me_tx e))"

definition evict_victim :: "fee_rate_index \<Rightarrow> mempool \<Rightarrow> mempool" where
  "evict_victim victim_index M =
     (let M = M\<lparr>by_fee_rate := bt_remove rate_cmp victim_index (by_fee_rate M)\<rparr> in
      case map_of (by_txid M) (fr_txid victim_index) of
        None \<Rightarrow> M
      | Some victim_entry \<Rightarrow>
          M\<lparr>by_txid := AList.delete (fr_txid victim_index) (by_txid M),
            spent_outpoints := release victim_entry (spent_outpoints M),
            total_bytes := usize_saturating_sub (total_bytes M) (me_size victim_entry)\<rparr>)"

definition register :: "mempool_entry \<Rightarrow> mempool \<Rightarrow> mempool" where
  "register e M =
     M\<lparr>spent_outpoints := reserve e (spent_outpoints M),
       total_bytes := usize_saturating_add (total_bytes M) (me_size e),
       by_fee_rate := bt_insert rate_cmp (entry_index e) (by_fee_rate M),
       by_txid := AList.update (me_txid e) e (by_txid M)\<rparr>"

definition mempool_insert ::
    "'vk crypto \<Rightarrow> transaction \<Rightarrow> utxo_view \<Rightarrow> u64 \<Rightarrow> u64 \<Rightarrow> u64 \<Rightarrow> mempool
     \<Rightarrow> (mempool_reject, hash256) result \<times> mempool" where
  "mempool_insert C tx view tip_height mtp now M =
     (case validate_for_mempool C tx view (spent_outpoints M) tip_height mtp of
        Inl e \<Rightarrow> (Inl e, M)
      | Inr tx_fee \<Rightarrow>
          let entry = MempoolEntry_new C tx tx_fee now;
              incoming_index = entry_index entry in
          case usize_checked_add (total_bytes M) (me_size entry) of
            None \<Rightarrow> (Inl MpArithmeticOverflow, M)
          | Some new_total \<Rightarrow>
              if new_total > max_bytes M then
                (case by_fee_rate M of
                   victim_index # _ \<Rightarrow>
                     if beats incoming_index victim_index
                     then (Inr (me_txid entry), register entry (evict_victim victim_index M))
                     else (Inl MempoolFull, M)
                 | [] \<Rightarrow> (Inl MempoolFull, M))
              else (Inr (me_txid entry), register entry M))"

definition mempool_remove :: "hash256 \<Rightarrow> mempool \<Rightarrow> mempool_entry option \<times> mempool" where
  "mempool_remove tid M = (case map_of (by_txid M) tid of
     None \<Rightarrow> (None, M)
   | Some entry \<Rightarrow>
       (Some entry,
        M\<lparr>by_txid := AList.delete tid (by_txid M),
          spent_outpoints := release entry (spent_outpoints M),
          by_fee_rate := bt_remove rate_cmp (entry_index entry) (by_fee_rate M),
          total_bytes := usize_saturating_sub (total_bytes M) (me_size entry)\<rparr>))"

fun select_loop ::
    "mempool \<Rightarrow> usize \<Rightarrow> fee_rate_index list \<Rightarrow> usize \<Rightarrow> transaction list \<Rightarrow> transaction list" where
  "select_loop M max_block_bytes [] accumulated selected = selected"
| "select_loop M max_block_bytes (rate_idx # rest) accumulated selected =
     (case map_of (by_txid M) (fr_txid rate_idx) of
        None \<Rightarrow> select_loop M max_block_bytes rest accumulated selected
      | Some entry \<Rightarrow>
          (case usize_checked_add accumulated (me_size entry) of
             None \<Rightarrow> selected
           | Some new_size \<Rightarrow>
               if new_size > max_block_bytes
               then select_loop M max_block_bytes rest accumulated selected
               else select_loop M max_block_bytes rest new_size (selected @ [me_tx entry])))"

definition select_transactions_for_block :: "mempool \<Rightarrow> usize \<Rightarrow> transaction list" where
  "select_transactions_for_block M max_block_bytes =
     select_loop M max_block_bytes (rev (by_fee_rate M)) 0 []"

definition confirm_tx ::
    "'vk crypto \<Rightarrow> transaction \<Rightarrow> mempool \<times> outpoint list \<Rightarrow> mempool \<times> outpoint list" where
  "confirm_tx C tx = (\<lambda>(M, block_spent).
     (if map_of (by_txid M) (txid C tx) \<noteq> None then snd (mempool_remove (txid C tx) M) else M,
      block_spent @ map previous_output (inputs tx)))"

definition process_committed_block :: "'vk crypto \<Rightarrow> block \<Rightarrow> mempool \<Rightarrow> mempool" where
  "process_committed_block C block M =
     (let (M, block_spent) = fold (confirm_tx C) (transactions block) (M, []);
          conflicting_txids = List.map_filter (spent_outpoints M) block_spent
      in fold (\<lambda>t M. snd (mempool_remove t M)) conflicting_txids M)"

text \<open>The accessors of the public type \<open>Mempool\<close>; its other methods are the operations above.\<close>

definition Mempool_default_capacity :: mempool where
  "Mempool_default_capacity = Mempool_new DEFAULT_MAX_MEMPOOL_BYTES"

definition mempool_len :: "mempool \<Rightarrow> usize" where
  "mempool_len M = length (by_txid M)"

definition mempool_is_empty :: "mempool \<Rightarrow> bool" where
  "mempool_is_empty M \<longleftrightarrow> by_txid M = []"

section \<open>What admission means\<close>

definition view_amount :: "utxo_view \<Rightarrow> outpoint \<Rightarrow> nat" where
  "view_amount view op = (case view op of Some u \<Rightarrow> amount (eu_value u) | None \<Rightarrow> 0)"

definition view_total :: "utxo_view \<Rightarrow> transaction \<Rightarrow> nat" where
  "view_total view tx = sum_list (map (\<lambda>inp. view_amount view (previous_output inp)) (inputs tx))"

definition input_mature :: "utxo_view \<Rightarrow> u64 \<Rightarrow> tx_input \<Rightarrow> bool" where
  "input_mature view h inp \<longleftrightarrow> (case view (previous_output inp) of
     None \<Rightarrow> False
   | Some u \<Rightarrow> (eu_is_coinbase u \<longrightarrow> unat (creation_height u) + 100 \<le> unat h) \<and>
               sequence_satisfied (sequence inp) u h)"

definition contracts_ok :: "'vk crypto \<Rightarrow> utxo_view \<Rightarrow> transaction \<Rightarrow> quantum \<Rightarrow> u64 \<Rightarrow> bool" where
  "contracts_ok C view tx fee h \<longleftrightarrow>
     (\<forall>(idx, inp)\<in>set (enumerate_from 0 (inputs tx)).
        contract_verdict C tx fee h idx inp (the (view (previous_output inp))) = Inr True)"

definition mempool_admissible ::
    "'vk crypto \<Rightarrow> transaction \<Rightarrow> utxo_view \<Rightarrow> (outpoint \<rightharpoonup> hash256) \<Rightarrow> u64 \<Rightarrow> u64 \<Rightarrow> quantum \<Rightarrow> bool"
where
  "mempool_admissible C tx view spent tip mtp fee \<longleftrightarrow>
     length (encode_tx tx) \<le> 100000 \<and> inputs tx \<noteq> [] \<and> outputs tx \<noteq> [] \<and> \<not> is_coinbase tx \<and>
     (\<forall>inp\<in>set (inputs tx). spent (previous_output inp) = None) \<and>
     unat tip + 1 < 2 ^ 64 \<and> locktime_satisfied tx (tip + 1) mtp \<and>
     (\<forall>inp\<in>set (inputs tx). input_mature view (tip + 1) inp) \<and>
     view_total view tx < 2 ^ 128 \<and> view_total view tx = output_total tx + amount fee \<and>
     contracts_ok C view tx fee (tip + 1) \<and>
     10 * length (encode_tx tx) \<le> amount fee"

lemma gate_conflict_Inr:
  "foldR (gate_conflict spent) ins () = Inr u \<longleftrightarrow> (\<forall>inp\<in>set ins. spent (previous_output inp) = None)"
  by (induction ins) (auto simp: gate_conflict_def Let_def split: option.splits)

lemma sum_outputs_mp_Inr: "sum_outputs_mp tx = Inr q \<longleftrightarrow> amount q = output_total tx"
  by (simp add: sum_outputs_mp_def foldR_quantum_sum output_total_def)

lemma gate_contract_Inr:
  "foldR (gate_contract C tx fee h) items () = Inr u \<longleftrightarrow>
     (\<forall>(idx, inp, utxo)\<in>set items. contract_verdict C tx fee h idx inp utxo = Inr True)"
proof (induction items)
  case (Cons item items)
  obtain idx inp utxo where "item = (idx, inp, utxo)" by (cases item) auto
  with Cons show ?case by auto
qed simp

lemma resolve_inputs_Inr:
  "foldR (resolve_input view h) (enumerate_from k ins) (tot, acc) = Inr (tot', acc') \<longleftrightarrow>
     (\<forall>inp\<in>set ins. input_mature view h inp) \<and>
     amount tot' = amount tot + sum_list (map (\<lambda>inp. view_amount view (previous_output inp)) ins) \<and>
     acc' = acc @ map (\<lambda>(i, inp). (i, inp, the (view (previous_output inp)))) (enumerate_from k ins)"
proof (induction ins arbitrary: k tot acc)
  case Nil
  then show ?case using amount_inj by auto
next
  case (Cons inp ins)
  let ?op = "previous_output inp"
  show ?case
  proof (cases "view ?op")
    case None
    then show ?thesis by (simp add: Let_def input_mature_def)
  next
    case (Some utxo)
    have fits: "\<exists>c. amount c = amount tot + amount (eu_value utxo)"
      if "amount tot' = amount tot + (amount (eu_value utxo) + n)" for n
      using that amount_bound [of tot'] amount_Quantum_of_nat [of "amount tot + amount (eu_value utxo)"]
      by (metis add.assoc le_add1 order_le_less_trans)
    have "foldR (resolve_input view h) (enumerate_from k (inp # ins)) (tot, acc) = Inr (tot', acc') \<longleftrightarrow>
      input_mature view h inp \<and> (\<exists>c. amount c = amount tot + amount (eu_value utxo) \<and>
        foldR (resolve_input view h) (enumerate_from (Suc k) ins)
          (c, acc @ [(k, inp, utxo)]) = Inr (tot', acc'))"
      using Some
      by (auto simp: Let_def input_mature_def verify_coinbase_maturity_ok_iff
          verify_relative_sequence_ok_iff)
    then show ?thesis
      using Some fits by (auto simp: Cons.IH view_amount_def)
  qed
qed

lemma validate_for_mempool_Inr:
  "validate_for_mempool C tx view spent tip mtp = Inr fee \<longleftrightarrow>
     mempool_admissible C tx view spent tip mtp fee"
    (is "?lhs \<longleftrightarrow> ?rhs")
proof -
  let ?items = "map (\<lambda>(i, inp). (i, inp, the (view (previous_output inp)))) (enumerate_from 0 (inputs tx))"
  have con: "(\<forall>(idx, inp, utxo)\<in>set ?items. contract_verdict C tx fee h idx inp utxo = Inr True)
      \<longleftrightarrow> contracts_ok C view tx fee h" for h fee
    by (auto simp: contracts_ok_def)
  have tot: "sum_list (map (\<lambda>inp. view_amount view (previous_output inp)) (inputs tx)) = view_total view tx"
    by (simp add: view_total_def)
  have req: "unat (of_nat (10 * length (encode_tx tx)) :: u128) = 10 * length (encode_tx tx)"
    if "length (encode_tx tx) \<le> 100000"
    by (rule unat_of_nat_less) (use that in simp)
  have nxt: "checked_add tip 1 = Some h \<longleftrightarrow> unat tip + 1 < 2 ^ 64 \<and> h = tip + 1" for h
    by (auto simp: checked_add_def)
  show ?thesis
  proof
    assume ?lhs
    then obtain h tot' items out where
        g: "length (encode_tx tx) \<le> 100000" "inputs tx \<noteq> []" "outputs tx \<noteq> []" "\<not> is_coinbase tx"
          "foldR (gate_conflict spent) (inputs tx) () = Inr ()" "checked_add tip 1 = Some h"
          "verify_transaction_locktime tx h mtp = Inr ()"
      and r: "foldR (resolve_input view h) (enumerate_from 0 (inputs tx)) (QUANTUM_ZERO, []) = Inr (tot', items)"
      and o: "sum_outputs_mp tx = Inr out"
      and f: "amount tot' = amount out + amount fee"
      and c: "foldR (gate_contract C tx fee h) items () = Inr ()"
      and v: "\<exists>q. verify_transaction_fee tx (raw tot') (raw out) = Inr q"
      by (auto simp: validate_for_mempool_def Let_def MAX_TX_SIZE_BYTES_def split: if_splits)
    from r have rr: "\<forall>inp\<in>set (inputs tx). input_mature view h inp" "amount tot' = view_total view tx"
      "items = ?items"
      by (simp_all add: resolve_inputs_Inr tot)
    from v f have "10 * length (encode_tx tx) \<le> amount fee"
      by (auto simp: verify_transaction_fee_ok_iff)
    moreover from c rr(3) have "contracts_ok C view tx fee h"
      by (simp only: gate_contract_Inr con)
    ultimately show ?rhs
      using g rr o f amount_bound [of tot']
      by (simp add: mempool_admissible_def gate_conflict_Inr nxt verify_transaction_locktime_ok_iff
          sum_outputs_mp_Inr)
  next
    assume rhs: ?rhs
    define out where "out = Quantum (of_nat (output_total tx))"
    define tot' where "tot' = Quantum (of_nat (view_total view tx))"
    have am: "amount out = output_total tx" "amount tot' = view_total view tx"
      unfolding out_def tot'_def using rhs
      by (intro amount_Quantum_of_nat; simp add: mempool_admissible_def)+
    have "foldR (resolve_input view (tip + 1)) (enumerate_from 0 (inputs tx)) (QUANTUM_ZERO, [])
        = Inr (tot', ?items)"
      using rhs am by (simp add: resolve_inputs_Inr tot mempool_admissible_def)
    moreover have "sum_outputs_mp tx = Inr out" using am by (simp add: sum_outputs_mp_Inr)
    moreover have "quantum_checked_sub tot' out = Inr fee" "\<not> tot' < out"
      using rhs am by (simp_all add: mempool_admissible_def quantum_less_amount)
    moreover have "foldR (gate_contract C tx fee (tip + 1)) ?items () = Inr ()"
      using rhs by (simp only: gate_contract_Inr con) (simp add: mempool_admissible_def)
    moreover have "verify_transaction_fee tx (raw tot') (raw out) = Inr (raw fee)"
      using rhs am by (simp add: verify_transaction_fee_ok_iff mempool_admissible_def)
    moreover have "\<not> fee < Quantum (of_nat (10 * length (encode_tx tx)))"
      using rhs req by (simp only: quantum_less_amount quantum.sel) (simp add: mempool_admissible_def not_less)
    moreover have "foldR (gate_conflict spent) (inputs tx) () = Inr ()"
      "checked_add tip 1 = Some (tip + 1)" "verify_transaction_locktime tx (tip + 1) mtp = Inr ()"
      "length (encode_tx tx) \<le> 100000" "inputs tx \<noteq> []" "outputs tx \<noteq> []" "\<not> is_coinbase tx"
      using rhs by (simp_all add: mempool_admissible_def gate_conflict_Inr nxt verify_transaction_locktime_ok_iff)
    ultimately show ?lhs
      by (simp add: validate_for_mempool_def Let_def MAX_TX_SIZE_BYTES_def checked_mul_fee
          del: of_nat_mult quantum_checked_sub_Inr)
  qed
qed

section \<open>The pool invariant\<close>

definition entry_wf :: "'vk crypto \<Rightarrow> hash256 \<times> mempool_entry \<Rightarrow> bool" where
  "entry_wf C p \<longleftrightarrow> (let e = snd p in
     me_txid e = fst p \<and> me_txid e = txid C (me_tx e) \<and> me_size e = length (encode_tx (me_tx e)) \<and>
     me_size e \<le> 100000 \<and> inputs (me_tx e) \<noteq> [] \<and> \<not> is_coinbase (me_tx e))"

definition pool_inv :: "'vk crypto \<Rightarrow> mempool \<Rightarrow> bool" where
  "pool_inv C M \<longleftrightarrow>
     distinct (map fst (by_txid M)) \<and> (\<forall>p\<in>set (by_txid M). entry_wf C p) \<and>
     bt_sorted rate_cmp (by_fee_rate M) \<and>
     set (by_fee_rate M) = entry_index ` snd ` set (by_txid M) \<and>
     (\<forall>op t. spent_outpoints M op = Some t \<longleftrightarrow>
        (\<exists>e. (t, e) \<in> set (by_txid M) \<and> op \<in> set (tx_spends (me_tx e)))) \<and>
     total_bytes M = sum_list (map (\<lambda>p. me_size (snd p)) (by_txid M)) \<and> total_bytes M < 2 ^ 64"

lemma encode_tx_nonempty [simp]: "encode_tx tx \<noteq> []"
proof -
  have "length (encode_tx tx) \<noteq> 0" by (simp add: encode_tx_def)
  then show ?thesis by simp
qed

lemma entry_wf_index: "entry_wf C p \<Longrightarrow> wf_index (entry_index (snd p))"
  by (auto simp: entry_wf_def wf_index_def entry_index_def FeeRateIndex_new_def Let_def)

lemma release_at: "release e m op = (if op \<in> set (tx_spends (me_tx e)) then None else m op)"
proof -
  have "fold (\<lambda>inp m. m(previous_output inp := None)) ins m op =
      (if op \<in> previous_output ` set ins then None else m op)" for ins
    by (induction ins arbitrary: m) auto
  then show ?thesis by (simp only: release_def tx_spends_def set_map)
qed

lemma reserve_at: "reserve e m op = (if op \<in> set (tx_spends (me_tx e)) then Some (me_txid e) else m op)"
proof -
  have "fold (\<lambda>inp m. m(previous_output inp \<mapsto> me_txid e)) ins m op =
      (if op \<in> previous_output ` set ins then Some (me_txid e) else m op)" for ins
    by (induction ins arbitrary: m) auto
  then show ?thesis by (simp only: reserve_def tx_spends_def set_map)
qed

lemma pool_inv_mapof:
  "pool_inv C M \<Longrightarrow> map_of (by_txid M) t = Some e \<longleftrightarrow> (t, e) \<in> set (by_txid M)"
  by (simp add: pool_inv_def)

lemma pool_inv_valid: "pool_inv C M \<Longrightarrow> \<forall>y\<in>set (by_fee_rate M). wf_index y"
  using entry_wf_index [of C] by (auto simp: pool_inv_def)

lemma pool_inv_spent:
  "pool_inv C M \<Longrightarrow> (t, e) \<in> set (by_txid M) \<Longrightarrow> op \<in> set (tx_spends (me_tx e)) \<Longrightarrow>
     spent_outpoints M op = Some t"
  by (auto simp: pool_inv_def)

text \<open>Both removal paths delete one entry from all the indices.\<close>

definition drop_entry :: "mempool_entry \<Rightarrow> mempool \<Rightarrow> mempool" where
  "drop_entry e M =
     M\<lparr>by_txid := AList.delete (me_txid e) (by_txid M),
       spent_outpoints := release e (spent_outpoints M),
       by_fee_rate := bt_remove rate_cmp (entry_index e) (by_fee_rate M),
       total_bytes := total_bytes M - me_size e\<rparr>"

lemma drop_entry_set:
  "set (by_txid (drop_entry e M)) = {p \<in> set (by_txid M). fst p \<noteq> me_txid e}"
  by (auto simp: drop_entry_def AList.delete_eq)

lemma pool_inv_drop:
  assumes inv: "pool_inv C M" and e: "(me_txid e, e) \<in> set (by_txid M)"
  shows "pool_inv C (drop_entry e M)"
proof -
  let ?D = "drop_entry e M"
  have wf: "entry_wf C p" if "p \<in> set (by_txid M)" for p using inv that by (simp add: pool_inv_def)
  have uniq: "e' = e" if "(me_txid e, e') \<in> set (by_txid M)" for e'
    using inv that e by (auto simp: pool_inv_def dest: eq_key_imp_eq_value)
  have 1: "distinct (map fst (by_txid ?D))"
    using inv by (simp add: drop_entry_def pool_inv_def distinct_delete)
  have 2: "\<forall>p\<in>set (by_txid ?D). entry_wf C p"
    using wf by (simp add: drop_entry_set)
  note val = pool_inv_valid [OF inv] entry_wf_index [OF wf [OF e], simplified]
  have 3: "bt_sorted rate_cmp (by_fee_rate ?D)"
    using inv by (simp add: drop_entry_def pool_inv_def fee_order.bt_remove_sorted)
  have key: "rate_cmp (entry_index e) (entry_index (snd p)) = Equal \<longleftrightarrow> fst p = me_txid e"
    if "p \<in> set (by_txid M)" for p
  proof -
    have t: "me_txid (snd p) = fst p" using wf [OF that] by (simp add: entry_wf_def Let_def)
    have "snd p = e" if "fst p = me_txid e"
      using uniq [of "snd p"] \<open>p \<in> set (by_txid M)\<close> that by (cases p) simp
    with t show ?thesis
      using rate_cmp_Less(2) [OF val(2) entry_wf_index [OF wf [OF that]]]
      by (auto simp: entry_index_def FeeRateIndex_new_def)
  qed
  have "set (by_fee_rate ?D) = {y \<in> set (by_fee_rate M). rate_cmp (entry_index e) y \<noteq> Equal}"
    using inv fee_order.set_bt_remove [OF _ val] by (simp add: drop_entry_def pool_inv_def)
  also have "set (by_fee_rate M) = entry_index ` snd ` set (by_txid M)"
    using inv by (simp add: pool_inv_def)
  also have "{y \<in> entry_index ` snd ` set (by_txid M). rate_cmp (entry_index e) y \<noteq> Equal}
      = entry_index ` snd ` {p \<in> set (by_txid M). fst p \<noteq> me_txid e}"
    using key by (auto simp: image_iff)
  finally have 4: "set (by_fee_rate ?D) = entry_index ` snd ` set (by_txid ?D)"
    by (simp add: drop_entry_set)
  have 5: "spent_outpoints ?D op = Some t \<longleftrightarrow>
      (\<exists>e'. (t, e') \<in> set (by_txid ?D) \<and> op \<in> set (tx_spends (me_tx e')))" for op t
  proof -
    have sp: "spent_outpoints M op = Some t \<longleftrightarrow>
        (\<exists>e. (t, e) \<in> set (by_txid M) \<and> op \<in> set (tx_spends (me_tx e)))" for t
      using inv by (simp add: pool_inv_def)
    show ?thesis
    proof (cases "op \<in> set (tx_spends (me_tx e))")
      case True
      with sp e have "spent_outpoints M op = Some (me_txid e)" by blast
      with sp [of t] have "t = me_txid e" if "(t, e') \<in> set (by_txid M)" "op \<in> set (tx_spends (me_tx e'))" for e'
        using that by auto
      with True show ?thesis unfolding drop_entry_set by (auto simp: drop_entry_def release_at)
    next
      case False
      then have "spent_outpoints ?D op = spent_outpoints M op" by (simp add: drop_entry_def release_at)
      with sp [of t] uniq False show ?thesis unfolding drop_entry_set by auto
    qed
  qed
  have "total_bytes M = me_size e + sum_list (map (\<lambda>p. me_size (snd p)) (AList.delete (me_txid e) (by_txid M)))"
    using inv e alist_delete_sum [of "by_txid M" "me_txid e" e "\<lambda>p. me_size (snd p)"]
    by (simp add: pool_inv_def)
  moreover have "total_bytes M < 2 ^ 64" using inv by (simp add: pool_inv_def)
  ultimately have 6: "total_bytes ?D = sum_list (map (\<lambda>p. me_size (snd p)) (by_txid ?D))"
    "total_bytes ?D < 2 ^ 64"
    by (simp_all add: drop_entry_def)
  from 1 2 3 4 5 6 show ?thesis by (simp add: pool_inv_def)
qed

lemma mempool_remove_drop:
  assumes "pool_inv C M" "map_of (by_txid M) t = Some e"
  shows "mempool_remove t M = (Some e, drop_entry e M)" "(me_txid e, e) \<in> set (by_txid M)" "me_txid e = t"
proof -
  from assms have "(t, e) \<in> set (by_txid M)" by (simp add: pool_inv_mapof)
  moreover from this assms(1) have "me_txid e = t" by (auto simp: pool_inv_def entry_wf_def Let_def)
  ultimately show "mempool_remove t M = (Some e, drop_entry e M)" "(me_txid e, e) \<in> set (by_txid M)"
    "me_txid e = t"
    using assms(2) by (simp_all add: mempool_remove_def drop_entry_def usize_saturating_sub_def)
qed

lemma pool_inv_remove: "pool_inv C M \<Longrightarrow> pool_inv C (snd (mempool_remove t M))"
  using mempool_remove_drop [of C M t] pool_inv_drop [of C M]
  by (cases "map_of (by_txid M) t") (auto simp: mempool_remove_def)

lemma mempool_remove_set:
  assumes "pool_inv C M"
  shows "set (by_txid (snd (mempool_remove t M))) = {p \<in> set (by_txid M). fst p \<noteq> t}"
proof (cases "map_of (by_txid M) t")
  case None
  then have "t \<notin> fst ` set (by_txid M)" by (simp add: map_of_eq_None_iff)
  moreover have "snd (mempool_remove t M) = M" by (simp add: mempool_remove_def None)
  ultimately show ?thesis by force
next
  case (Some e)
  from mempool_remove_drop [OF assms Some] show ?thesis by (simp add: drop_entry_set)
qed

lemma evict_victim_drop:
  assumes inv: "pool_inv C M" and v: "v \<in> set (by_fee_rate M)"
  obtains e where "(me_txid e, e) \<in> set (by_txid M)" "v = entry_index e" "evict_victim v M = drop_entry e M"
proof -
  from inv v obtain p where p: "p \<in> set (by_txid M)" "v = entry_index (snd p)"
    by (auto simp: pool_inv_def)
  then have t: "fr_txid v = fst p" "me_txid (snd p) = fst p"
    using inv by (auto simp: pool_inv_def entry_wf_def entry_index_def FeeRateIndex_new_def Let_def)
  with p inv have "map_of (by_txid M) (fr_txid v) = Some (snd p)" by (simp add: pool_inv_mapof)
  then have "evict_victim v M = drop_entry (snd p) M"
    using p t by (simp add: evict_victim_def drop_entry_def usize_saturating_sub_def Let_def)
  with p t that [of "snd p"] show thesis by simp
qed

lemma pool_inv_register:
  assumes inv: "pool_inv C M" and wf: "entry_wf C (me_txid e, e)"
    and new: "me_txid e \<notin> fst ` set (by_txid M)"
    and free: "\<forall>op\<in>set (tx_spends (me_tx e)). spent_outpoints M op = None"
    and fits: "total_bytes M + me_size e < 2 ^ 64"
  shows "pool_inv C (register e M)"
proof -
  let ?N = "register e M"
  have txs: "by_txid ?N = by_txid M @ [(me_txid e, e)]"
    using new by (simp add: register_def alist_update_fresh)
  note val = pool_inv_valid [OF inv] entry_wf_index [OF wf, simplified]
  have ne: "\<forall>y\<in>set (by_fee_rate M). rate_cmp (entry_index e) y \<noteq> Equal"
  proof
    fix y assume y: "y \<in> set (by_fee_rate M)"
    then obtain p where "p \<in> set (by_txid M)" "y = entry_index (snd p)"
      using inv by (auto simp: pool_inv_def)
    moreover from this inv have "me_txid (snd p) = fst p"
      by (simp add: pool_inv_def entry_wf_def Let_def)
    ultimately have "fr_txid y \<in> fst ` set (by_txid M)"
      by (simp add: entry_index_def FeeRateIndex_new_def)
    with new have "fr_txid y \<noteq> me_txid e" by metis
    then show "rate_cmp (entry_index e) y \<noteq> Equal"
      using rate_cmp_Less(2) [OF val(2)] val(1) y by (auto simp: entry_index_def FeeRateIndex_new_def)
  qed
  have 3: "bt_sorted rate_cmp (by_fee_rate ?N)"
    using inv val by (simp add: register_def pool_inv_def fee_order.bt_insert_sorted)
  have 4: "set (by_fee_rate ?N) = entry_index ` snd ` set (by_txid ?N)"
    using inv val ne by (simp add: txs) (simp add: register_def pool_inv_def fee_order.set_bt_insert)
  have 5: "spent_outpoints ?N op = Some t \<longleftrightarrow>
      (\<exists>e'. (t, e') \<in> set (by_txid ?N) \<and> op \<in> set (tx_spends (me_tx e')))" for op t
  proof -
    have sp: "spent_outpoints M op = Some t \<longleftrightarrow>
        (\<exists>e. (t, e) \<in> set (by_txid M) \<and> op \<in> set (tx_spends (me_tx e)))"
      using inv by (simp add: pool_inv_def)
    show ?thesis
      using sp free by (auto simp: txs) (auto simp: register_def reserve_at split: if_splits)
  qed
  have 6: "total_bytes ?N = sum_list (map (\<lambda>p. me_size (snd p)) (by_txid ?N))" "total_bytes ?N < 2 ^ 64"
    using inv fits by (simp_all add: txs) (simp_all add: register_def pool_inv_def usize_saturating_add_def)
  have "distinct (map fst (by_txid ?N))" "\<forall>p\<in>set (by_txid ?N). entry_wf C p"
    using inv wf new by (simp_all add: txs pool_inv_def)
  with 3 4 5 6 show ?thesis by (simp add: pool_inv_def)
qed

text \<open>
  Collision freedom, relative to the transactions at hand: no pooled transaction other than the
  incoming one has its identifier.
\<close>

definition no_collision :: "'vk crypto \<Rightarrow> mempool \<Rightarrow> transaction \<Rightarrow> bool" where
  "no_collision C M tx \<longleftrightarrow> (\<forall>p\<in>set (by_txid M). txid C (me_tx (snd p)) = txid C tx \<longrightarrow> me_tx (snd p) = tx)"

lemma admitted_fresh:
  assumes inv: "pool_inv C M" and adm: "mempool_admissible C tx view (spent_outpoints M) tip mtp fee"
    and col: "no_collision C M tx"
  shows "txid C tx \<notin> fst ` set (by_txid M)"
proof
  assume "txid C tx \<in> fst ` set (by_txid M)"
  then obtain p where p: "p \<in> set (by_txid M)" "fst p = txid C tx" by auto
  then have "entry_wf C p" using inv by (simp add: pool_inv_def)
  with p col have tx: "me_tx (snd p) = tx" by (auto simp: entry_wf_def no_collision_def Let_def)
  from adm obtain inp where inp: "inp \<in> set (inputs tx)"
    by (auto simp: mempool_admissible_def) (metis list.set_intros(1) neq_Nil_conv)
  then have "previous_output inp \<in> set (tx_spends (me_tx (snd p)))" by (simp add: tx_spends_def tx)
  moreover have "(fst p, snd p) \<in> set (by_txid M)" using p(1) by simp
  ultimately have "spent_outpoints M (previous_output inp) = Some (fst p)"
    using pool_inv_spent [OF inv] by blast
  with adm inp show False by (simp add: mempool_admissible_def)
qed

lemma entry_wf_new:
  assumes "mempool_admissible C tx view spent tip mtp fee"
  shows "entry_wf C (txid C tx, MempoolEntry_new C tx fee now)"
  using assms by (simp add: entry_wf_def MempoolEntry_new_def mempool_admissible_def)

lemma MempoolEntry_new_simps [simp]:
  "me_txid (MempoolEntry_new C tx fee now) = txid C tx" "me_tx (MempoolEntry_new C tx fee now) = tx"
  "me_size (MempoolEntry_new C tx fee now) = length (encode_tx tx)"
  "me_fee (MempoolEntry_new C tx fee now) = fee"
  by (simp_all add: MempoolEntry_new_def)

text \<open>The shapes of a successful insertion.\<close>

lemma mempool_insert_Inr:
  assumes "mempool_insert C tx view tip mtp now M = (Inr t, M')"
  obtains (room) fee where "mempool_admissible C tx view (spent_outpoints M) tip mtp fee"
      "t = txid C tx" "total_bytes M + length (encode_tx tx) \<le> max_bytes M"
      "total_bytes M + length (encode_tx tx) < 2 ^ 64"
      "M' = register (MempoolEntry_new C tx fee now) M"
    | (evict) fee v vs where "mempool_admissible C tx view (spent_outpoints M) tip mtp fee"
      "t = txid C tx" "max_bytes M < total_bytes M + length (encode_tx tx)"
      "total_bytes M + length (encode_tx tx) < 2 ^ 64"
      "by_fee_rate M = v # vs" "beats (entry_index (MempoolEntry_new C tx fee now)) v"
      "M' = register (MempoolEntry_new C tx fee now) (evict_victim v M)"
  using assms
  by (auto simp: mempool_insert_def validate_for_mempool_Inr usize_checked_add_def Let_def
      split: sum.splits option.splits if_splits list.splits)

lemma pool_inv_insert:
  assumes inv: "pool_inv C M" and col: "no_collision C M tx"
    and run: "mempool_insert C tx view tip mtp now M = (res, M')"
  shows "pool_inv C M'"
proof (cases res)
  case (Inl e)
  with run inv show ?thesis
    by (auto simp: mempool_insert_def Let_def split: sum.splits option.splits if_splits list.splits)
next
  case (Inr t)
  from run [unfolded Inr] show ?thesis
  proof (cases rule: mempool_insert_Inr)
    case (room fee)
    have "pool_inv C (register (MempoolEntry_new C tx fee now) M)"
      using admitted_fresh [OF inv room(1) col] entry_wf_new [OF room(1), of now] room(1,4)
      by (intro pool_inv_register [OF inv]) (auto simp: mempool_admissible_def tx_spends_def)
    with room show ?thesis by simp
  next
    case (evict fee v vs)
    then have "v \<in> set (by_fee_rate M)" by simp
    from evict_victim_drop [OF inv this] obtain e where
      e: "(me_txid e, e) \<in> set (by_txid M)" "evict_victim v M = drop_entry e M" by metis
    have "pool_inv C (register (MempoolEntry_new C tx fee now) (drop_entry e M))"
    proof (intro pool_inv_register pool_inv_drop [OF inv e(1)])
      show "entry_wf C (me_txid (MempoolEntry_new C tx fee now), MempoolEntry_new C tx fee now)"
        using entry_wf_new [OF evict(1)] by simp
      show "me_txid (MempoolEntry_new C tx fee now) \<notin> fst ` set (by_txid (drop_entry e M))"
        using admitted_fresh [OF inv evict(1) col] by (auto simp: drop_entry_set)
      show "\<forall>op\<in>set (tx_spends (me_tx (MempoolEntry_new C tx fee now))).
          spent_outpoints (drop_entry e M) op = None"
        using evict(1) by (auto simp: mempool_admissible_def tx_spends_def drop_entry_def release_at)
      show "total_bytes (drop_entry e M) + me_size (MempoolEntry_new C tx fee now) < 2 ^ 64"
        using evict(4) by (simp add: drop_entry_def)
    qed
    with evict e show ?thesis by simp
  qed
qed

section \<open>Selection and confirmation\<close>

lemma select_loop_spec:
  assumes "\<forall>i\<in>set idxs. \<exists>e. map_of (by_txid M) (fr_txid i) = Some e \<and> me_size e \<le> 100000"
    and "acc \<le> mx" "mx + 100000 < 2 ^ 64" "distinct (map fr_txid idxs)"
    and key: "\<And>t e. map_of (by_txid M) t = Some e \<Longrightarrow> me_txid e = t"
  shows "\<exists>es. select_loop M mx idxs acc sel = sel @ map me_tx es \<and> distinct es \<and>
    acc + sum_list (map me_size es) \<le> mx \<and>
    (\<forall>e\<in>set es. \<exists>i\<in>set idxs. map_of (by_txid M) (fr_txid i) = Some e) \<and>
    (\<forall>i\<in>set idxs. the (map_of (by_txid M) (fr_txid i)) \<in> set es \<or>
       mx < acc + sum_list (map me_size es) + me_size (the (map_of (by_txid M) (fr_txid i))))"
  using assms(1-4)
proof (induction idxs arbitrary: acc sel)
  case Nil
  then show ?case by simp
next
  case (Cons i idxs)
  from Cons.prems(1) obtain e where e: "map_of (by_txid M) (fr_txid i) = Some e" "me_size e \<le> 100000"
    by auto
  with Cons.prems(2,3) have add: "usize_checked_add acc (me_size e) = Some (acc + me_size e)"
    by (simp add: usize_checked_add_def)
  show ?case
  proof (cases "acc + me_size e > mx")
    case True
    obtain es where "select_loop M mx idxs acc sel = sel @ map me_tx es" "distinct es"
      "acc + sum_list (map me_size es) \<le> mx"
      "\<forall>e\<in>set es. \<exists>i\<in>set idxs. map_of (by_txid M) (fr_txid i) = Some e"
      "\<forall>i\<in>set idxs. the (map_of (by_txid M) (fr_txid i)) \<in> set es \<or>
         mx < acc + sum_list (map me_size es) + me_size (the (map_of (by_txid M) (fr_txid i)))"
      using Cons.IH [of acc sel] Cons.prems by auto
    with e add True show ?thesis by (intro exI [of _ es]) auto
  next
    case False
    obtain es where "select_loop M mx idxs (acc + me_size e) (sel @ [me_tx e]) = (sel @ [me_tx e]) @ map me_tx es"
      "distinct es"
      "acc + me_size e + sum_list (map me_size es) \<le> mx"
      "\<forall>e\<in>set es. \<exists>i\<in>set idxs. map_of (by_txid M) (fr_txid i) = Some e"
      "\<forall>i\<in>set idxs. the (map_of (by_txid M) (fr_txid i)) \<in> set es \<or>
         mx < acc + me_size e + sum_list (map me_size es) + me_size (the (map_of (by_txid M) (fr_txid i)))"
      using Cons.IH [of "acc + me_size e" "sel @ [me_tx e]"] Cons.prems False by auto
    moreover have "e \<notin> set es"
    proof
      assume "e \<in> set es"
      with calculation(4) obtain i' where "i' \<in> set idxs" "map_of (by_txid M) (fr_txid i') = Some e" by blast
      moreover from this key e(1) have "fr_txid i = fr_txid i'" by metis
      ultimately show False using Cons.prems(4) by auto
    qed
    ultimately show ?thesis using e add False by (intro exI [of _ "e # es"]) (auto simp: add.assoc)
  qed
qed

lemma pool_index_entry:
  assumes inv: "pool_inv C M" and i: "i \<in> set (by_fee_rate M)"
  obtains e where "(me_txid e, e) \<in> set (by_txid M)" "i = entry_index e" "fr_txid i = me_txid e"
    "map_of (by_txid M) (fr_txid i) = Some e" "me_size e \<le> 100000"
proof -
  from inv i obtain p where p: "p \<in> set (by_txid M)" "i = entry_index (snd p)"
    by (auto simp: pool_inv_def)
  then have "entry_wf C p" using inv by (simp add: pool_inv_def)
  with p inv that [of "snd p"] show thesis
    by (auto simp: entry_wf_def Let_def entry_index_def FeeRateIndex_new_def pool_inv_mapof)
qed

lemma pool_fee_rate_distinct:
  assumes inv: "pool_inv C M"
  shows "distinct (map fr_txid (by_fee_rate M))"
proof -
  have "sorted_wrt (\<lambda>x y. fr_txid x \<noteq> fr_txid y) (by_fee_rate M)"
  proof (rule sorted_wrt_mono_rel)
    show "sorted_wrt (\<lambda>x y. rate_cmp x y = Less) (by_fee_rate M)"
      using inv by (simp add: pool_inv_def bt_sorted_def)
    fix x y
    assume x: "x \<in> set (by_fee_rate M)" and y: "y \<in> set (by_fee_rate M)" and l: "rate_cmp x y = Less"
    show "fr_txid x \<noteq> fr_txid y"
    proof
      assume eq: "fr_txid x = fr_txid y"
      from pool_index_entry [OF inv x] pool_index_entry [OF inv y] eq have "x = y"
        by (metis option.inject)
      with l x pool_inv_valid [OF inv] show False by (simp add: rate_cmp_Less)
    qed
  qed
  then show ?thesis by (rule distinct_map_sorted_wrt)
qed

lemma confirm_fold:
  assumes "pool_inv C M" "fold (confirm_tx C) txs (M, sp) = (M', sp')"
  shows "pool_inv C M' \<and> sp' = sp @ concat (map tx_spends txs) \<and>
    set (by_txid M') = {p \<in> set (by_txid M). fst p \<notin> txid C ` set txs}"
  using assms
proof (induction txs arbitrary: M sp)
  case (Cons tx txs)
  let ?M = "if map_of (by_txid M) (txid C tx) \<noteq> None then snd (mempool_remove (txid C tx) M) else M"
  have inv: "pool_inv C ?M" using pool_inv_remove [OF Cons.prems(1)] Cons.prems(1) by simp
  have "set (by_txid ?M) = {p \<in> set (by_txid M). fst p \<noteq> txid C tx}"
  proof (cases "map_of (by_txid M) (txid C tx) = None")
    case True
    then have "txid C tx \<notin> fst ` set (by_txid M)" by (simp add: map_of_eq_None_iff)
    then show ?thesis using True by force
  next
    case False
    then show ?thesis using mempool_remove_set [OF Cons.prems(1)] by simp
  qed
  with Cons.IH [OF inv, of "sp @ map previous_output (inputs tx)"] Cons.prems(2) show ?case
    by (auto simp: confirm_tx_def tx_spends_def)
qed auto

lemma remove_fold:
  assumes "pool_inv C M"
  shows "pool_inv C (fold (\<lambda>t M. snd (mempool_remove t M)) ts M) \<and>
    set (by_txid (fold (\<lambda>t M. snd (mempool_remove t M)) ts M)) = {p \<in> set (by_txid M). fst p \<notin> set ts}"
  using assms
proof (induction ts arbitrary: M)
  case (Cons t ts)
  with Cons.IH [OF pool_inv_remove [OF Cons.prems]] mempool_remove_set [OF Cons.prems, of t]
  show ?case by auto
qed simp

lemma process_committed_block_spec:
  assumes inv: "pool_inv C M" and M'_def: "M' = process_committed_block C block M"
  shows "pool_inv C M'" "set (by_txid M') \<subseteq> set (by_txid M)"
    and "(t, e) \<in> set (by_txid M') \<Longrightarrow> t \<notin> txid C ` set (transactions block) \<and>
      set (tx_spends (me_tx e)) \<inter> set (concat (map tx_spends (transactions block))) = {}"
proof -
  obtain M1 sp where fold: "fold (confirm_tx C) (transactions block) (M, []) = (M1, sp)"
    by (metis surj_pair)
  from confirm_fold [OF inv fold] have 1: "pool_inv C M1"
    "sp = concat (map tx_spends (transactions block))"
    "set (by_txid M1) = {p \<in> set (by_txid M). fst p \<notin> txid C ` set (transactions block)}" by simp_all
  let ?ts = "List.map_filter (spent_outpoints M1) sp"
  have M': "M' = fold (\<lambda>t M. snd (mempool_remove t M)) ?ts M1"
    by (simp add: M'_def process_committed_block_def fold)
  note 2 = remove_fold [OF 1(1), of ?ts, folded M']
  show "pool_inv C M'" "set (by_txid M') \<subseteq> set (by_txid M)" using 1 2 by auto
  assume te: "(t, e) \<in> set (by_txid M')"
  have "op \<notin> set sp" if "op \<in> set (tx_spends (me_tx e))" for op
  proof
    assume op: "op \<in> set sp"
    from te 2 have "(t, e) \<in> set (by_txid M1)" "t \<notin> set ?ts" by auto
    moreover from this that 1(1) have "spent_outpoints M1 op = Some t" by (auto simp: pool_inv_def)
    ultimately show False using op by (force simp: List.map_filter_def)
  qed
  with te 1 2 show "t \<notin> txid C ` set (transactions block) \<and>
      set (tx_spends (me_tx e)) \<inter> set (concat (map tx_spends (transactions block))) = {}" by auto
qed

text \<open>Template selection, from the invariant.\<close>

lemma select_transactions_spec:
  assumes inv: "pool_inv C M" and room: "mx + 100000 < 2 ^ 64"
  shows "\<exists>es. select_transactions_for_block M mx = map me_tx es \<and> distinct es \<and>
    set es \<subseteq> snd ` set (by_txid M) \<and> sum_list (map me_size es) \<le> mx \<and>
    (\<forall>e\<in>snd ` set (by_txid M) - set es. mx < sum_list (map me_size es) + me_size e)"
proof -
  have key: "me_txid e = t" if "map_of (by_txid M) t = Some e" for t e
    using mempool_remove_drop(3) [OF inv that] .
  have "\<forall>i\<in>set (rev (by_fee_rate M)). \<exists>e. map_of (by_txid M) (fr_txid i) = Some e \<and> me_size e \<le> 100000"
    using pool_index_entry [OF inv] by (metis set_rev)
  from select_loop_spec [OF this, of 0 mx "[]"] assms(2) pool_fee_rate_distinct [OF inv] key
  obtain es where es: "select_transactions_for_block M mx = map me_tx es" "distinct es"
    "sum_list (map me_size es) \<le> mx"
    and sub: "\<forall>e\<in>set es. \<exists>i\<in>set (by_fee_rate M). map_of (by_txid M) (fr_txid i) = Some e"
    and mx: "\<forall>i\<in>set (by_fee_rate M). the (map_of (by_txid M) (fr_txid i)) \<in> set es \<or>
       mx < sum_list (map me_size es) + me_size (the (map_of (by_txid M) (fr_txid i)))"
    by (auto simp: select_transactions_for_block_def rev_map [symmetric])
  have "set es \<subseteq> snd ` set (by_txid M)"
    using sub by (force dest: map_of_SomeD)
  moreover have "mx < sum_list (map me_size es) + me_size e" if "p \<in> set (by_txid M)" "e = snd p" "e \<notin> set es" for p e
  proof -
    have "entry_index e \<in> set (by_fee_rate M)" using inv that by (auto simp: pool_inv_def)
    moreover have "map_of (by_txid M) (fr_txid (entry_index e)) = Some e"
      using inv that by (auto simp: entry_index_def FeeRateIndex_new_def pool_inv_def entry_wf_def Let_def)
    ultimately show ?thesis using mx that(3) by force
  qed
  ultimately show ?thesis using es by (intro exI [of _ es]) auto
qed

text \<open>Admission against a view without creation metadata implies the invariants of a block.\<close>

lemma admitted_confirms:
  assumes "validate_for_mempool C tx (\<lambda>op. map_option (\<lambda>out. from_output out 0 False) (lookup op))
      spent tip mtp = Inr fee"
  shows "tx_conserves lookup tx \<and> tx_authorized C lookup (tip + 1) tx"
proof -
  let ?view = "\<lambda>op. map_option (\<lambda>out. from_output out 0 False) (lookup op)"
  have adm: "mempool_admissible C tx ?view spent tip mtp fee"
    using assms by (simp add: validate_for_mempool_Inr)
  then have known: "\<forall>inp\<in>set (inputs tx). lookup (previous_output inp) \<noteq> None"
    by (auto simp: mempool_admissible_def input_mature_def split: option.splits)
  have "view_amount ?view op = lookup_amount lookup op" for op
    by (simp add: view_amount_def lookup_amount_def split: option.split)
  then have tot: "view_total ?view tx = input_total lookup tx"
    by (simp add: view_total_def input_total_def tx_spends_def comp_def)
  have fee: "fee = Quantum (of_nat (input_total lookup tx - output_total tx))"
    using adm tot quantum_eq_of_amount [of fee] by (simp add: mempool_admissible_def)
  have "input_verdict C tx fee (tip + 1) idx inp (the (lookup (previous_output inp))) = Inr True"
    if "(idx, inp) \<in> set (enumerate_from 0 (inputs tx))" for idx inp
  proof -
    from that have "inp \<in> set (inputs tx)" by (auto simp: enumerate_from_def dest: set_zip_rightD)
    then have "the (?view (previous_output inp)) = from_output (the (lookup (previous_output inp))) 0 False"
      using known by auto
    with adm that show ?thesis
      by (auto simp: mempool_admissible_def contracts_ok_def contract_verdict_def input_verdict_def Let_def)
  qed
  then have "tx_authorized C lookup (tip + 1) tx" using fee by (auto simp: tx_authorized_def)
  moreover have "tx_conserves lookup tx"
    using adm tot known by (auto simp: tx_conserves_def mempool_admissible_def tx_spends_def)
  ultimately show ?thesis by simp
qed

section \<open>The pool as a state machine\<close>

inductive pool_reachable :: "'vk crypto \<Rightarrow> mempool \<Rightarrow> bool" for C where
    pool_new: "pool_reachable C (Mempool_new limit)"
  | pool_insert: "pool_reachable C M \<Longrightarrow> no_collision C M tx \<Longrightarrow>
      mempool_insert C tx view tip mtp now M = (res, M') \<Longrightarrow> pool_reachable C M'"
  | pool_remove: "pool_reachable C M \<Longrightarrow> mempool_remove t M = (res, M') \<Longrightarrow> pool_reachable C M'"
  | pool_block: "pool_reachable C M \<Longrightarrow> pool_reachable C (process_committed_block C block M)"

lemma pool_inv_new: "pool_inv C (Mempool_new limit)"
  by (simp add: pool_inv_def Mempool_new_def bt_sorted_def)

lemma pool_reachable_inv: "pool_reachable C M \<Longrightarrow> pool_inv C M"
proof (induction rule: pool_reachable.induct)
  case (pool_new limit)
  show ?case by (rule pool_inv_new)
next
  case (pool_insert M tx view tip mtp now res M')
  then show ?case by (rule_tac pool_inv_insert)
next
  case (pool_remove M t res M')
  then show ?case using pool_inv_remove [of C M t] by simp
next
  case (pool_block M block)
  then show ?case using process_committed_block_spec(1) by blast
qed

section \<open>Concrete transactions\<close>

text \<open>A spend of anyone-can-spend outputs worth 1000000 each.\<close>

definition demo_pay :: "outpoint list \<Rightarrow> transaction" where
  "demo_pay ops =
     \<lparr>tx_version = 1,
      inputs = map (\<lambda>op. \<lparr>previous_output = op, unlocking_script = [], sequence = 0xFFFFFFFF,
                          redeemer = None\<rparr>) ops,
      outputs = [\<lparr>out_value = Quantum 1, locking_script = [0x51], out_datum = DatumNone\<rparr>],
      locktime = 0\<rparr>"

definition demo_view :: utxo_view where
  "demo_view = (\<lambda>op. Some \<lparr>eu_value = Quantum 1000000, eu_locking_script = [0x51],
                           creation_height = 0, eu_is_coinbase = False, eu_datum = DatumNone\<rparr>)"

definition demo_fee :: "nat \<Rightarrow> quantum" where
  "demo_fee n = Quantum (of_nat (1000000 * n - 1))"

lemma demo_fee_2 [simp]: "demo_fee (Suc (Suc 0)) = demo_fee 2"
  by (simp add: demo_fee_def)

lemma demo_pay_size: "length (encode_tx (demo_pay ops)) = 42 + 45 * length ops"
proof -
  have "length (concat (map encode_tx_input (inputs (demo_pay ops)))) = 45 * length ops"
    by (simp add: demo_pay_def length_concat comp_def encode_tx_input_def encode_outpoint_def
        encode_vec_bytes_def encode_redeemer_def sum_list_triv)
  then show ?thesis
    by (simp add: encode_tx_def) (simp add: demo_pay_def encode_tx_output_def encode_quantum_def
        encode_vec_bytes_def)
qed

lemma demo_pay_admissible:
  assumes ops: "ops \<noteq> []" "length ops \<le> 100" "length ops = 1 \<longrightarrow> op_txid (hd ops) \<noteq> ZERO_HASH"
    and free: "\<forall>op\<in>set ops. spent op = None"
  shows "mempool_admissible C (demo_pay ops) demo_view spent 0 0 (demo_fee (length ops))"
proof -
  have n: "0 < length ops" using ops by simp
  have tot: "view_total demo_view (demo_pay ops) = 1000000 * length ops"
    by (simp add: view_total_def view_amount_def demo_view_def demo_pay_def comp_def sum_list_triv)
  have fee: "amount (demo_fee (length ops)) = 1000000 * length ops - 1"
    unfolding demo_fee_def using ops by (intro amount_Quantum_of_nat) simp
  have "\<not> is_coinbase (demo_pay ops)"
    using ops by (cases ops) (auto simp: is_coinbase_def demo_pay_def)
  moreover have "contracts_ok C demo_view (demo_pay ops) fee 1" for fee
  proof -
    have "unlocking_script inp = [] \<and> redeemer inp = None" if "(i, inp) \<in> set (enumerate_from 0 (inputs (demo_pay ops)))" for i inp
      using that by (auto simp: enumerate_from_def demo_pay_def dest!: set_zip_rightD)
    then show ?thesis
      by (auto simp: contracts_ok_def contract_verdict_def demo_view_def op_true_contract)
  qed
  moreover have "input_mature demo_view 1 inp" if "inp \<in> set (inputs (demo_pay ops))" for inp
    using that by (auto simp: input_mature_def demo_view_def demo_pay_def sequence_satisfied_def)
  moreover have "output_total (demo_pay ops) = 1" by (simp add: output_total_def demo_pay_def)
  moreover have "locktime_satisfied (demo_pay ops) 1 0" by (simp add: locktime_satisfied_def demo_pay_def)
  moreover have "inputs (demo_pay ops) \<noteq> []" "outputs (demo_pay ops) \<noteq> []"
    "\<forall>inp\<in>set (inputs (demo_pay ops)). spent (previous_output inp) = None"
    using ops free by (auto simp: demo_pay_def)
  moreover have "420 + 450 * length ops \<le> 1000000 * length ops - 1" using n by linarith
  ultimately show ?thesis
    using n ops tot fee by (simp add: mempool_admissible_def demo_pay_size)
qed

definition demo_op :: "hash256 \<Rightarrow> outpoint" where
  "demo_op t = OutPoint_new t 0"

abbreviation demo_insert :: "outpoint list \<Rightarrow> mempool \<Rightarrow> (mempool_reject, hash256) result \<times> mempool" where
  "demo_insert ops \<equiv> mempool_insert length_crypto (demo_pay ops) demo_view 0 0 0"

abbreviation demo_entry :: "outpoint list \<Rightarrow> mempool_entry" where
  "demo_entry ops \<equiv> MempoolEntry_new length_crypto (demo_pay ops) (demo_fee (length ops)) 0"

lemma demo_validate:
  assumes "ops \<noteq> []" "length ops \<le> 100" "\<forall>op\<in>set ops. op_txid op \<noteq> 0 \<and> spent op = None"
  shows "validate_for_mempool length_crypto (demo_pay ops) demo_view spent 0 0 = Inr (demo_fee (length ops))"
proof -
  have "op_txid (hd ops) \<noteq> ZERO_HASH" using assms by (simp add: ZERO_HASH_def)
  with assms demo_pay_admissible [of ops spent length_crypto] show ?thesis
    by (simp add: validate_for_mempool_Inr)
qed

lemma demo_insert_room:
  assumes "ops \<noteq> []" "length ops \<le> 100" "\<forall>op\<in>set ops. op_txid op \<noteq> 0 \<and> spent_outpoints M op = None"
    and "total_bytes M + 42 + 45 * length ops \<le> max_bytes M" "max_bytes M < 2 ^ 64"
  shows "demo_insert ops M = (Inr (txid length_crypto (demo_pay ops)), register (demo_entry ops) M)"
  using assms demo_validate [OF assms(1-3)]
  by (simp add: mempool_insert_def demo_pay_size usize_checked_add_def)

lemma demo_txid: "length ops \<le> 100 \<Longrightarrow> txid length_crypto (demo_pay ops) = of_nat (42 + 45 * length ops)"
  by (simp only: txid_def digest_def length_crypto_def flat_crypto_def crypto.simps demo_pay_size)

definition pool_one :: "usize \<Rightarrow> mempool" where
  "pool_one limit = register (demo_entry [demo_op 1]) (Mempool_new limit)"

definition pool_two :: mempool where
  "pool_two = register (demo_entry [demo_op 2, demo_op 3]) (pool_one 500)"

lemma demo_op_simps [simp]: "op_txid (demo_op t) = t" "demo_op a = demo_op b \<longleftrightarrow> a = b"
  by (simp_all add: demo_op_def OutPoint_new_def)

lemma tx_spends_demo_pay [simp]: "tx_spends (demo_pay ops) = ops"
  by (simp add: tx_spends_def demo_pay_def comp_def)

lemma pool_one_fields:
  "by_txid (pool_one n) = [(87, demo_entry [demo_op 1])]" "total_bytes (pool_one n) = 87"
  "max_bytes (pool_one n) = n" "by_fee_rate (pool_one n) = [entry_index (demo_entry [demo_op 1])]"
  "spent_outpoints (pool_one n) op = (if op = demo_op 1 then Some 87 else None)"
  by (simp_all add: pool_one_def register_def Mempool_new_def demo_txid demo_pay_size
      usize_saturating_add_def reserve_at)

lemma pool_one_reachable: "87 \<le> n \<Longrightarrow> n < 2 ^ 64 \<Longrightarrow> pool_reachable length_crypto (pool_one n)"
proof (rule pool_reachable.pool_insert)
  show "pool_reachable length_crypto (Mempool_new n)" by (rule pool_reachable.pool_new)
  show "no_collision length_crypto (Mempool_new n) (demo_pay [demo_op 1])"
    by (simp add: no_collision_def Mempool_new_def)
  assume "87 \<le> n" "n < 2 ^ 64"
  then show "demo_insert [demo_op 1] (Mempool_new n) =
     (Inr (txid length_crypto (demo_pay [demo_op 1])), pool_one n)"
    by (subst demo_insert_room) (simp_all add: Mempool_new_def pool_one_def)
qed

lemma pool_two_reachable: "pool_reachable length_crypto pool_two"
proof (rule pool_reachable.pool_insert)
  show "pool_reachable length_crypto (pool_one 500)" by (rule pool_one_reachable) simp_all
  show "no_collision length_crypto (pool_one 500) (demo_pay [demo_op 2, demo_op 3])"
    by (simp add: no_collision_def pool_one_fields demo_txid)
  show "demo_insert [demo_op 2, demo_op 3] (pool_one 500) =
     (Inr (txid length_crypto (demo_pay [demo_op 2, demo_op 3])), pool_two)"
    by (subst demo_insert_room) (simp_all add: pool_one_fields pool_two_def)
qed

lemma pool_two_fields:
  "by_txid pool_two = [(87, demo_entry [demo_op 1]), (132, demo_entry [demo_op 2, demo_op 3])]"
  "spent_outpoints pool_two (demo_op t) = (if t \<in> {2, 3} then Some 132 else if t = 1 then Some 87 else None)"
  by (simp_all add: pool_two_def register_def pool_one_fields demo_txid reserve_at)

section \<open>Properties\<close>

text \<open>C18: the three indices of the pool always agree. After any sequence of insertions, removals
  and block confirmations, the fee-rate index holds exactly the pooled entries in strictly
  ascending order, an outpoint is reserved by a transaction exactly when that pooled
  transaction spends it, and the byte counter is the sum of the entry sizes.\<close>

theorem mempool_indices_agree:
  assumes "pool_reachable C M"
  shows "pool_inv C M"
  using assms by (rule pool_reachable_inv)

theorem mempool_indices_agree_witness: "pool_inv length_crypto pool_two"
  by (rule mempool_indices_agree [OF pool_two_reachable])

text \<open>No double spend inside the pool. Two different pooled transactions never spend the same
  outpoint.\<close>

theorem mempool_no_conflicts:
  assumes "pool_reachable C M" "(t1, e1) \<in> set (by_txid M)" "(t2, e2) \<in> set (by_txid M)" "t1 \<noteq> t2"
  shows "set (tx_spends (me_tx e1)) \<inter> set (tx_spends (me_tx e2)) = {}"
  using pool_inv_spent [OF pool_reachable_inv [OF assms(1)]] assms(2-4)
  by (metis disjoint_iff option.inject)

theorem mempool_no_conflicts_witness:
  "set (tx_spends (demo_pay [demo_op 1])) \<inter> set (tx_spends (demo_pay [demo_op 2, demo_op 3])) = {}"
  using mempool_no_conflicts [OF pool_two_reachable, of 87 "demo_entry [demo_op 1]" 132
      "demo_entry [demo_op 2, demo_op 3]"]
  by (simp add: pool_two_fields)

text \<open>C20: the six gates admit exactly the transactions that are small enough, non-empty, not
  coinbase, free of pool conflicts, final, mature, value-conserving, authorised by every
  contract and paying at least 10 base units per byte; the fee returned is inputs minus outputs.\<close>

theorem validate_for_mempool_iff:
  "validate_for_mempool C tx view spent tip mtp = Inr fee \<longleftrightarrow>
     mempool_admissible C tx view spent tip mtp fee"
  by (rule validate_for_mempool_Inr)

text \<open>C19: admission predicts confirmation. Take transactions that the six gates admit against the outputs
  of one ledger, at one tip but whatever pool and time each was judged with, and that together
  name no output twice, not even within one transaction. The block of the next height made of a
  coinbase and these transactions passes the invariant checker on that ledger, which returns
  exactly their spent outpoints.\<close>

theorem admission_predicts_confirmation:
  assumes "\<forall>tx\<in>set txs. \<exists>spent mtp fee.
      validate_for_mempool C tx (\<lambda>op. map_option (\<lambda>out. from_output out 0 False) (lookup op)) spent tip mtp = Inr fee"
    and "distinct (concat (map tx_spends txs))"
    and "transactions block = cb # txs" "is_coinbase cb" "height (header block) = tip + 1"
  shows "verify_block_invariants C block lookup = Inr (concat (map tx_spends txs))"
proof -
  have adm: "\<not> is_coinbase tx \<and> tx_conserves lookup tx \<and> tx_authorized C lookup (tip + 1) tx"
    if "tx \<in> set txs" for tx
  proof -
    from assms(1) that obtain spent mtp fee where v: "validate_for_mempool C tx
        (\<lambda>op. map_option (\<lambda>out. from_output out 0 False) (lookup op)) spent tip mtp = Inr fee" by blast
    then have "\<not> is_coinbase tx" by (simp add: validate_for_mempool_Inr mempool_admissible_def)
    with admitted_confirms [OF v] show ?thesis by simp
  qed
  then have "filter (\<lambda>tx. \<not> is_coinbase tx) txs = txs" by (simp add: filter_id_conv)
  then have "block_spends block = concat (map tx_spends txs)"
    using assms(3,4) by (simp add: block_spends_def)
  with adm assms show ?thesis
    by (simp add: verify_block_invariants_ok_iff block_invariants_ok_def list_all_iff)
qed

theorem admission_predicts_confirmation_witness:
  "verify_block_invariants length_crypto
     \<lparr>header = (header (create_genesis_block length_crypto))\<lparr>height := 1\<rparr>,
      transactions = [genesis_coinbase, demo_pay [demo_op 1], demo_pay [demo_op 2, demo_op 3]]\<rparr>
     (\<lambda>_. Some \<lparr>out_value = Quantum 1000000, locking_script = [0x51], out_datum = DatumNone\<rparr>)
   = Inr [demo_op 1, demo_op 2, demo_op 3]"
proof -
  let ?l = "\<lambda>_ :: outpoint. Some \<lparr>out_value = Quantum 1000000, locking_script = [0x51], out_datum = DatumNone\<rparr>"
  let ?txs = "[demo_pay [demo_op 1], demo_pay [demo_op 2, demo_op 3]]"
  have view: "demo_view = (\<lambda>op. map_option (\<lambda>out. from_output out 0 False) (?l op))"
    by (simp add: demo_view_def from_output_def)
  have "\<forall>tx\<in>set ?txs. \<exists>spent mtp fee. validate_for_mempool length_crypto tx
      (\<lambda>op. map_option (\<lambda>out. from_output out 0 False) (?l op)) spent 0 mtp = Inr fee"
    using demo_validate [of "[demo_op 1]" Map.empty] demo_validate [of "[demo_op 2, demo_op 3]" Map.empty]
    unfolding view by auto
  from admission_predicts_confirmation [OF this, where cb = genesis_coinbase and block = "\<lparr>header =
      (header (create_genesis_block length_crypto))\<lparr>height := 1\<rparr>, transactions = genesis_coinbase # ?txs\<rparr>"]
  show ?thesis by (simp add: tx_spends_demo_pay genesis_coinbase_facts demo_op_simps)
qed

text \<open>Block templates respect the size limit and waste no room. The selected transactions are
  distinct pool entries whose sizes sum to at most the limit, and every pooled transaction left
  out would have exceeded it.\<close>

theorem select_transactions_greedy:
  assumes "pool_reachable C M" "mx + 100000 < 2 ^ 64"
  shows "\<exists>es. select_transactions_for_block M mx = map me_tx es \<and> distinct es \<and>
    set es \<subseteq> snd ` set (by_txid M) \<and> sum_list (map me_size es) \<le> mx \<and>
    (\<forall>e\<in>snd ` set (by_txid M) - set es. mx < sum_list (map me_size es) + me_size e)"
  using select_transactions_spec [OF pool_reachable_inv [OF assms(1)] assms(2)] .

theorem select_transactions_greedy_witness:
  "\<exists>es :: mempool_entry list. select_transactions_for_block pool_two 100 = map me_tx es \<and> sum_list (map me_size es) \<le> 100"
proof -
  have "(100 :: nat) + 100000 < 2 ^ 64" by simp
  from select_transactions_greedy [OF pool_two_reachable this] show ?thesis by blast
qed

text \<open>After a block is committed no pooled transaction is confirmed by it or spends an outpoint
  that it consumed, nothing is added, and the indices stay consistent.\<close>

theorem process_committed_block_clears_conflicts:
  assumes "pool_reachable C M" "M' = process_committed_block C block M" "(t, e) \<in> set (by_txid M')"
  shows "(t, e) \<in> set (by_txid M) \<and> t \<notin> txid C ` set (transactions block) \<and>
    set (tx_spends (me_tx e)) \<inter> set (concat (map tx_spends (transactions block))) = {} \<and> pool_inv C M'"
  using process_committed_block_spec [OF pool_reachable_inv [OF assms(1)] assms(2)] assms(3) by blast

theorem process_committed_block_clears_conflicts_witness:
  "demo_op 1 \<notin> set (concat (map tx_spends (transactions
     \<lparr>header = undefined, transactions = [demo_pay [demo_op 7, demo_op 8, demo_op 9]]\<rparr>)))"
proof -
  let ?b = "\<lparr>header = undefined, transactions = [demo_pay [demo_op 7, demo_op 8, demo_op 9]]\<rparr>"
  have "process_committed_block length_crypto ?b pool_two = pool_two"
    by (simp add: process_committed_block_def confirm_tx_def demo_txid pool_two_fields
        tx_spends_def [symmetric] List.map_filter_def)
  then have "(87, demo_entry [demo_op 1]) \<in> set (by_txid (process_committed_block length_crypto ?b pool_two))"
    by (simp add: pool_two_fields)
  from process_committed_block_clears_conflicts [OF pool_two_reachable refl this] show ?thesis by simp
qed

text \<open>The byte ceiling is not a ceiling. Insertion evicts at most one victim, so a larger
  transaction with a better fee rate is admitted although the pool then exceeds its limit.\<close>

theorem mempool_exceeds_capacity:
  "fst (demo_insert [demo_op 2, demo_op 3] (pool_one 90)) = Inr 132 \<and>
   total_bytes (snd (demo_insert [demo_op 2, demo_op 3] (pool_one 90))) = 132 \<and>
   max_bytes (snd (demo_insert [demo_op 2, demo_op 3] (pool_one 90))) = 90"
proof -
  let ?e1 = "entry_index (demo_entry [demo_op 1])" and ?e2 = "entry_index (demo_entry [demo_op 2, demo_op 3])"
  have fee: "amount (demo_fee (Suc 0)) = 999999" "amount (demo_fee 2) = 1999999"
    by (simp_all add: demo_fee_def)
  have b: "beats ?e2 ?e1"
    using fee by (simp add: beats_def rate_cmp_Less wf_index_def entry_index_def FeeRateIndex_new_def
        demo_pay_size)
  have "rate_cmp ?e1 ?e1 = Equal"
    by (simp add: rate_cmp_Less wf_index_def entry_index_def FeeRateIndex_new_def demo_pay_size)
  then have v: "evict_victim ?e1 (pool_one 90) =
      (pool_one 90)\<lparr>by_txid := [], by_fee_rate := [],
        spent_outpoints := release (demo_entry [demo_op 1]) (spent_outpoints (pool_one 90)), total_bytes := 0\<rparr>"
    by (simp add: evict_victim_def pool_one_fields entry_index_def FeeRateIndex_new_def demo_txid
        demo_pay_size usize_saturating_sub_def)
  have "validate_for_mempool length_crypto (demo_pay [demo_op 2, demo_op 3]) demo_view
      (spent_outpoints (pool_one 90)) 0 0 = Inr (demo_fee 2)"
    using demo_validate [of "[demo_op 2, demo_op 3]" "spent_outpoints (pool_one 90)"]
    by (simp add: pool_one_fields)
  then have "demo_insert [demo_op 2, demo_op 3] (pool_one 90) = (Inr 132,
      register (demo_entry [demo_op 2, demo_op 3]) (evict_victim ?e1 (pool_one 90)))"
    using b by (simp add: mempool_insert_def pool_one_fields demo_pay_size usize_checked_add_def
        demo_txid)
  then show ?thesis
    using v by (simp add: register_def pool_one_fields demo_pay_size usize_saturating_add_def)
qed

text \<open>C40: duplicate inputs pass the pool and poison blocks. The gates do not compare the inputs of
  one transaction with each other: a transaction that spends the same outpoint twice is
  admitted, and every block that contains it is rejected.\<close>

theorem duplicate_inputs_admitted_but_unminable:
  "validate_for_mempool length_crypto (demo_pay [demo_op 1, demo_op 1]) demo_view Map.empty 0 0
     = Inr (demo_fee 2) \<and>
   verify_block_invariants length_crypto
     \<lparr>header = h, transactions = pre @ demo_pay [demo_op 1, demo_op 1] # post\<rparr> lookup \<noteq> Inr spent"
proof -
  have "\<not> is_coinbase (demo_pay [demo_op 1, demo_op 1])" by (simp add: is_coinbase_def demo_pay_def)
  then have "\<not> distinct (block_spends
      \<lparr>header = h, transactions = pre @ demo_pay [demo_op 1, demo_op 1] # post\<rparr>)"
    by (simp add: block_spends_def)
  then show ?thesis
    using demo_validate [of "[demo_op 1, demo_op 1]" Map.empty]
    by (simp add: verify_block_invariants_ok_iff block_invariants_ok_def)
qed

end
