(* ===== verification/Network.thy ===== *)
theory Network
  imports Core_Block
begin

text \<open>
  The crate \<open>aurion-network\<close>: the 52-byte wire frame (\<open>frame.rs\<close>), the gossip payloads
  (\<open>gossip.rs\<close>), the query engine (\<open>query.rs\<close>), the session configuration (\<open>session.rs\<close>)
  and the key expressions (\<open>topics.rs\<close>). The Zenoh session is a third-party object: the record
  \<open>zenoh\<close> holds the calls made on it. UTF-8 validation is the one of the Rust standard library.
\<close>

section \<open>UTF-8 validation\<close>

text \<open>
  \<open>core::str::from_utf8\<close>: \<open>None\<close> when valid, otherwise the length of the valid prefix and the
  length of the offending sequence (absent when the input ends inside a character).
\<close>

definition is_cont :: "u8 \<Rightarrow> bool" where
  "is_cont b \<longleftrightarrow> 0x80 \<le> b \<and> b \<le> 0xBF"

definition second_of_three :: "u8 \<Rightarrow> u8 \<Rightarrow> bool" where
  "second_of_three a b \<longleftrightarrow>
     (if a = 0xE0 then 0xA0 \<le> b \<and> b \<le> 0xBF
      else if a = 0xED then 0x80 \<le> b \<and> b \<le> 0x9F
      else is_cont b)"

definition second_of_four :: "u8 \<Rightarrow> u8 \<Rightarrow> bool" where
  "second_of_four a b \<longleftrightarrow>
     (if a = 0xF0 then 0x90 \<le> b \<and> b \<le> 0xBF
      else if a = 0xF4 then 0x80 \<le> b \<and> b \<le> 0x8F
      else is_cont b)"

fun utf8_check :: "nat \<Rightarrow> bytes \<Rightarrow> (nat \<times> nat option) option" where
  "utf8_check i [] = None"
| "utf8_check i (a # rest) =
     (if a < 0x80 then utf8_check (i + 1) rest
      else if 0xC2 \<le> a \<and> a \<le> 0xDF then
        (case rest of
           [] \<Rightarrow> Some (i, None)
         | b # r1 \<Rightarrow> if \<not> is_cont b then Some (i, Some 1) else utf8_check (i + 2) r1)
      else if 0xE0 \<le> a \<and> a \<le> 0xEF then
        (case rest of
           [] \<Rightarrow> Some (i, None)
         | b # r1 \<Rightarrow>
             if \<not> second_of_three a b then Some (i, Some 1)
             else (case r1 of
                     [] \<Rightarrow> Some (i, None)
                   | c # r2 \<Rightarrow> if \<not> is_cont c then Some (i, Some 2) else utf8_check (i + 3) r2))
      else if 0xF0 \<le> a \<and> a \<le> 0xF4 then
        (case rest of
           [] \<Rightarrow> Some (i, None)
         | b # r1 \<Rightarrow>
             if \<not> second_of_four a b then Some (i, Some 1)
             else (case r1 of
                     [] \<Rightarrow> Some (i, None)
                   | c # r2 \<Rightarrow>
                       if \<not> is_cont c then Some (i, Some 2)
                       else (case r2 of
                               [] \<Rightarrow> Some (i, None)
                             | d # r3 \<Rightarrow>
                                 if \<not> is_cont d then Some (i, Some 3) else utf8_check (i + 4) r3)))
      else Some (i, Some 1))"

definition from_utf8 :: "bytes \<Rightarrow> (nat \<times> nat option, string) result" where
  "from_utf8 bs = (case utf8_check 0 bs of None \<Rightarrow> Inr (bytes_str bs) | Some e \<Rightarrow> Inl e)"

fun utf8_error_display :: "nat \<times> nat option \<Rightarrow> string" where
  "utf8_error_display (valid_up_to, Some error_len) =
     ''invalid utf-8 sequence of '' @ show_nat error_len @ '' bytes from index ''
     @ show_nat valid_up_to"
| "utf8_error_display (valid_up_to, None) =
     ''incomplete utf-8 byte sequence from index '' @ show_nat valid_up_to"

text \<open>A Rust string is a byte string that passes validation; ASCII strings always do.\<close>

definition utf8_string :: "string \<Rightarrow> bool" where
  "utf8_string s \<longleftrightarrow> utf8_check 0 (str_bytes s) = None"

lemma utf8_check_ascii: "list_all (\<lambda>b. b < 0x80) bs \<Longrightarrow> utf8_check i bs = None"
  by (induction bs arbitrary: i) auto

lemma from_utf8_str_bytes [simp]: "utf8_string s \<Longrightarrow> from_utf8 (str_bytes s) = Inr s"
  by (simp add: from_utf8_def utf8_string_def)

lemma from_utf8_Inr: "from_utf8 bs = Inr s \<longleftrightarrow> utf8_string s \<and> bs = str_bytes s"
  by (auto simp: from_utf8_def utf8_string_def split: option.splits)

section \<open>Errors\<close>

datatype network_error =
    IncompleteHeader usize
  | InvalidMagic bytes
  | CommandTooLong string
  | InvalidCommandEncoding
  | PayloadTooLarge usize usize
  | TruncatedPayload usize usize
  | ChecksumMismatch
  | NetCodecError string
  | TransportError string
  | NetArithmeticOverflow

fun join_comma :: "string list \<Rightarrow> string" where
  "join_comma [] = ''''"
| "join_comma [s] = s"
| "join_comma (s # t # rest) = s @ '', '' @ join_comma (t # rest)"

fun network_error_display :: "network_error \<Rightarrow> string" where
  "network_error_display (IncompleteHeader n) =
     ''incomplete header: received '' @ show_nat n @ '' bytes, need at least 52''"
| "network_error_display (InvalidMagic m) =
     ''invalid magic bytes: ['' @ join_comma (map (\<lambda>b. show_nat (unat b)) m) @ '']''"
| "network_error_display (CommandTooLong c) =
     ''command too long: '' @ [CHR 0x27] @ c @ [CHR 0x27]
     @ '' exceeds the 12-byte ASCII command field''"
| "network_error_display InvalidCommandEncoding =
     ''invalid command encoding: command field is not valid UTF-8''"
| "network_error_display (PayloadTooLarge declared limit) =
     ''payload too large: declared '' @ show_nat declared @ '' bytes exceeds maximum allowed ''
     @ show_nat limit @ '' bytes''"
| "network_error_display (TruncatedPayload declared actual) =
     ''truncated payload: declared '' @ show_nat declared @ '' bytes but only ''
     @ show_nat actual @ '' bytes present''"
| "network_error_display ChecksumMismatch =
     ''checksum mismatch: payload corrupt or tampered with''"
| "network_error_display (NetCodecError msg) = ''canonical codec error: '' @ msg"
| "network_error_display (TransportError msg) = ''transport error: '' @ msg"
| "network_error_display NetArithmeticOverflow = ''arithmetic overflow in network encoding''"

section \<open>The wire frame\<close>

definition MAGIC_BYTES :: bytes where
  "MAGIC_BYTES = [0x41, 0x55, 0x52, 0x01]"

definition HEADER_SIZE :: usize where
  "HEADER_SIZE = 52"

definition COMMAND_SIZE :: usize where
  "COMMAND_SIZE = 12"

definition MAX_PAYLOAD_SIZE :: usize where
  "MAX_PAYLOAD_SIZE = 4 * 1024 * 1024"

definition pack_frame :: "'vk crypto \<Rightarrow> string \<Rightarrow> bytes \<Rightarrow> (network_error, bytes) result" where
  "pack_frame C command payload =
     (if length command > COMMAND_SIZE then Inl (CommandTooLong command)
      else if length payload > MAX_PAYLOAD_SIZE
      then Inl (PayloadTooLarge (length payload) MAX_PAYLOAD_SIZE)
      else
        let checksum = blake3 C payload;
            payload_len = of_nat (length payload) :: u32;
            cmd_bytes = str_bytes command @ replicate (COMMAND_SIZE - length command) 0
        in Inr (MAGIC_BYTES @ cmd_bytes @ to_be_bytes payload_len @ to_be_bytes checksum @ payload))"

definition unpack_frame :: "'vk crypto \<Rightarrow> bytes \<Rightarrow> (network_error, string \<times> bytes) result" where
  "unpack_frame C frm =
     (if length frm < HEADER_SIZE then Inl (IncompleteHeader (length frm))
      else
        let header = take HEADER_SIZE frm;
            body = drop HEADER_SIZE frm;
            magic = take 4 header in
        if magic \<noteq> MAGIC_BYTES then Inl (InvalidMagic magic)
        else
          let cmd_raw = take 12 (drop 4 header) in
          bindR (map_err (\<lambda>_. InvalidCommandEncoding) (from_utf8 (takeWhile (\<lambda>b. b \<noteq> 0) cmd_raw)))
            (\<lambda>cmd_str.
          let payload_len = unat (from_be_bytes (take 4 (drop 16 header)) :: u32) in
          if payload_len > MAX_PAYLOAD_SIZE then Inl (PayloadTooLarge payload_len MAX_PAYLOAD_SIZE)
          else if length body < payload_len then Inl (TruncatedPayload payload_len (length body))
          else
            let payload = take payload_len body;
                expected = take 32 (drop 20 header);
                actual = blake3 C payload in
            if to_be_bytes actual \<noteq> expected then Inl ChecksumMismatch
            else Inr (cmd_str, payload)))"

section \<open>Gossip\<close>

definition decode_block_frame :: "'vk crypto \<Rightarrow> bytes \<Rightarrow> (network_error, block) result" where
  "decode_block_frame C frm =
     bindR (unpack_frame C frm) (\<lambda>(cmd, payload).
       if cmd \<noteq> ''block''
       then Inl (NetCodecError (''expected '' @ [CHR 0x27] @ ''block'' @ [CHR 0x27]
              @ '' command, got '' @ [CHR 0x27] @ cmd @ [CHR 0x27]))
       else map_err (\<lambda>e. NetCodecError (codec_error_display e))
              (decode_canonical decode_block payload))"

definition decode_tx_frame :: "'vk crypto \<Rightarrow> bytes \<Rightarrow> (network_error, transaction) result" where
  "decode_tx_frame C frm =
     bindR (unpack_frame C frm) (\<lambda>(cmd, payload).
       if cmd \<noteq> ''tx''
       then Inl (NetCodecError (''expected '' @ [CHR 0x27] @ ''tx'' @ [CHR 0x27]
              @ '' command, got '' @ [CHR 0x27] @ cmd @ [CHR 0x27]))
       else map_err (\<lambda>e. NetCodecError (codec_error_display e))
              (decode_canonical decode_tx payload))"

definition TOPIC_BLOCKS_NEW :: string where
  "TOPIC_BLOCKS_NEW = ''aurion/net/v1/blocks/new''"

definition TOPIC_TX_NEW :: string where
  "TOPIC_TX_NEW = ''aurion/net/v1/tx/new''"

definition TOPIC_PEERS_ANNOUNCE :: string where
  "TOPIC_PEERS_ANNOUNCE = ''aurion/net/v1/peers/announce''"

definition TOPIC_PEERS_LIST :: string where
  "TOPIC_PEERS_LIST = ''aurion/net/v1/peers/list''"

definition TOPIC_SYNC_HEADERS :: string where
  "TOPIC_SYNC_HEADERS = ''aurion/net/v1/sync/headers''"

definition TOPIC_SYNC_BLOCKS :: string where
  "TOPIC_SYNC_BLOCKS = ''aurion/net/v1/sync/blocks''"

definition TOPIC_IPC_MINER_TEMPLATE :: string where
  "TOPIC_IPC_MINER_TEMPLATE = ''aurion/ipc/v1/miner/template''"

definition TOPIC_IPC_MINER_SUBMIT :: string where
  "TOPIC_IPC_MINER_SUBMIT = ''aurion/ipc/v1/miner/submit''"

lemma topics_distinct:
  "distinct [TOPIC_BLOCKS_NEW, TOPIC_TX_NEW, TOPIC_PEERS_ANNOUNCE, TOPIC_PEERS_LIST, TOPIC_SYNC_HEADERS,
     TOPIC_SYNC_BLOCKS, TOPIC_IPC_MINER_TEMPLATE, TOPIC_IPC_MINER_SUBMIT]"
  by (simp add: TOPIC_BLOCKS_NEW_def TOPIC_TX_NEW_def TOPIC_PEERS_ANNOUNCE_def TOPIC_PEERS_LIST_def
      TOPIC_SYNC_HEADERS_def TOPIC_SYNC_BLOCKS_def TOPIC_IPC_MINER_TEMPLATE_def TOPIC_IPC_MINER_SUBMIT_def)

text \<open>
  The calls made on a Zenoh session: publishing, and a query whose outcome is the first reply
  (absent when the reply channel closes), itself a sample or an error with its debug text. A
  declared subscriber is the sequence of outcomes of its receive calls, up to the time that is
  looked at; a queryable is declared with its callback, which answers each query with a key and
  a frame or not at all, and is represented by a handle. The debug and error texts are those of
  the crate.
\<close>

type_synonym subscriber = "(string, bytes) result list"

record zenoh =
  z_put :: "string \<Rightarrow> bytes \<Rightarrow> (string, unit) result"
  z_get :: "string \<Rightarrow> bytes option \<Rightarrow> (string, (string, bytes) result option) result"
  z_declare_subscriber :: "string \<Rightarrow> (string, subscriber) result"
  z_declare_queryable :: "string \<Rightarrow> (unit \<Rightarrow> (string \<times> bytes) option) \<Rightarrow> (string, nat) result"

text \<open>The sample a broadcast puts on the session: its key and its frame.\<close>

definition block_sample :: "'vk crypto \<Rightarrow> block \<Rightarrow> (network_error, string \<times> bytes) result" where
  "block_sample C block =
     bindR (pack_frame C ''block'' (encode_block block)) (\<lambda>frame. Inr (TOPIC_BLOCKS_NEW, frame))"

definition tx_sample :: "'vk crypto \<Rightarrow> transaction \<Rightarrow> (network_error, string \<times> bytes) result" where
  "tx_sample C tx = bindR (pack_frame C ''tx'' (encode_tx tx)) (\<lambda>frame. Inr (TOPIC_TX_NEW, frame))"

definition broadcast_block :: "'vk crypto \<Rightarrow> zenoh \<Rightarrow> block \<Rightarrow> (network_error, unit) result" where
  "broadcast_block C Z block =
     bindR (block_sample C block) (\<lambda>(topic, frame). map_err TransportError (z_put Z topic frame))"

definition broadcast_transaction ::
    "'vk crypto \<Rightarrow> zenoh \<Rightarrow> transaction \<Rightarrow> (network_error, unit) result" where
  "broadcast_transaction C Z tx =
     bindR (tx_sample C tx) (\<lambda>(topic, frame). map_err TransportError (z_put Z topic frame))"

text \<open>The streams of a subscriber: every received sample is decoded on its own, and the stream ends
  with the first failed receive.\<close>

fun unfold_stream :: "(bytes \<Rightarrow> 'a) \<Rightarrow> subscriber \<Rightarrow> 'a list" where
  "unfold_stream decode_frame [] = []"
| "unfold_stream decode_frame (Inr frm # sub) = decode_frame frm # unfold_stream decode_frame sub"
| "unfold_stream decode_frame (Inl _ # _) = []"

definition subscribe_blocks ::
    "'vk crypto \<Rightarrow> zenoh \<Rightarrow> (network_error, (network_error, block) result list) result" where
  "subscribe_blocks C Z =
     bindR (map_err TransportError (z_declare_subscriber Z TOPIC_BLOCKS_NEW)) (\<lambda>subscriber.
       Inr (unfold_stream (decode_block_frame C) subscriber))"

definition subscribe_transactions ::
    "'vk crypto \<Rightarrow> zenoh \<Rightarrow> (network_error, (network_error, transaction) result list) result" where
  "subscribe_transactions C Z =
     bindR (map_err TransportError (z_declare_subscriber Z TOPIC_TX_NEW)) (\<lambda>subscriber.
       Inr (unfold_stream (decode_tx_frame C) subscriber))"

lemma unfold_stream_all [simp]: "unfold_stream f (map Inr frames) = map f frames"
  by (induction frames) simp_all

section \<open>Queries\<close>

definition unframe_reply ::
    "'vk crypto \<Rightarrow> string \<Rightarrow> string \<Rightarrow> (string, bytes) result option \<Rightarrow> (network_error, bytes) result" where
  "unframe_reply C err_prefix no_reply reply = (case reply of
     None \<Rightarrow> Inl (TransportError no_reply)
   | Some (Inl e) \<Rightarrow> Inl (TransportError (err_prefix @ e))
   | Some (Inr frm) \<Rightarrow>
       if length frm < HEADER_SIZE then Inl (IncompleteHeader (length frm))
       else bindR (unpack_frame C frm) (\<lambda>(_, payload). Inr payload))"

definition request_block_template :: "'vk crypto \<Rightarrow> zenoh \<Rightarrow> (network_error, bytes) result" where
  "request_block_template C Z =
     bindR (map_err TransportError (z_get Z TOPIC_IPC_MINER_TEMPLATE None))
       (unframe_reply C ''query reply error: '' ''no reply received for block template request'')"

text \<open>The callback of the queryable. A reply that fails is only logged, like a payload that cannot be
  framed.\<close>

definition template_provider :: "'vk crypto \<Rightarrow> (unit \<Rightarrow> bytes) \<Rightarrow> unit \<Rightarrow> (string \<times> bytes) option" where
  "template_provider C handler query = (case pack_frame C ''template'' (handler ()) of
     Inr frame \<Rightarrow> Some (TOPIC_IPC_MINER_TEMPLATE, frame) | Inl _ \<Rightarrow> None)"

definition register_block_template_provider ::
    "'vk crypto \<Rightarrow> zenoh \<Rightarrow> (unit \<Rightarrow> bytes) \<Rightarrow> (network_error, nat) result" where
  "register_block_template_provider C Z handler =
     map_err TransportError (z_declare_queryable Z TOPIC_IPC_MINER_TEMPLATE (template_provider C handler))"

definition sync_headers :: "'vk crypto \<Rightarrow> zenoh \<Rightarrow> bytes \<Rightarrow> (network_error, bytes) result" where
  "sync_headers C Z request_payload =
     bindR (pack_frame C ''getheaders'' request_payload) (\<lambda>frame.
     bindR (map_err TransportError (z_get Z TOPIC_SYNC_HEADERS (Some frame)))
       (unframe_reply C ''sync reply error: '' ''no reply received for sync headers query''))"

definition sync_blocks :: "'vk crypto \<Rightarrow> zenoh \<Rightarrow> bytes \<Rightarrow> (network_error, bytes) result" where
  "sync_blocks C Z request_payload =
     bindR (pack_frame C ''getblocks'' request_payload) (\<lambda>frame.
     bindR (map_err TransportError (z_get Z TOPIC_SYNC_BLOCKS (Some frame)))
       (unframe_reply C ''sync reply error: '' ''no reply received for sync blocks query''))"

section \<open>Session configuration\<close>

record network_config =
  listen_endpoints :: "string list"
  peer_endpoints :: "string list"
  enable_multicast_scouting :: bool
  enable_shared_memory :: bool

definition NetworkConfig_default :: network_config where
  "NetworkConfig_default =
     \<lparr>listen_endpoints = [''tcp/0.0.0.0:7447''], peer_endpoints = [],
      enable_multicast_scouting = True, enable_shared_memory = False\<rparr>"

definition with_port :: "u16 \<Rightarrow> network_config" where
  "with_port port =
     \<lparr>listen_endpoints = [''tcp/127.0.0.1:'' @ show_nat (unat port)], peer_endpoints = [],
      enable_multicast_scouting = False, enable_shared_memory = False\<rparr>"

definition endpoints_to_json5_array :: "string list \<Rightarrow> string" where
  "endpoints_to_json5_array endpoints =
     ''['' @ join_comma (map (\<lambda>ep. [CHR 0x22] @ ep @ [CHR 0x22]) endpoints) @ '']''"

definition json_bool :: "bool \<Rightarrow> string" where
  "json_bool b = (if b then ''true'' else ''false'')"

definition quoted :: "string \<Rightarrow> string" where
  "quoted s = [CHR 0x22] @ s @ [CHR 0x22]"

definition to_zenoh_json5 :: "network_config \<Rightarrow> string" where
  "to_zenoh_json5 cfg =
     (let listen_json = endpoints_to_json5_array (listen_endpoints cfg);
          connect_json = endpoints_to_json5_array (peer_endpoints cfg);
          line = (\<lambda>depth txt. [CHR 0x0A] @ replicate (16 + depth) (CHR 0x20) @ txt);
          autoconnect = ''autoconnect: ['' @ quoted ''peer'' @ ''],''
      in ''{'' @ line 0 (''mode: '' @ quoted ''peer'' @ '','')
         @ line 0 ''listen: {'' @ line 4 (''endpoints: '' @ listen_json @ '','') @ line 0 ''},''
         @ line 0 ''connect: {'' @ line 4 (''endpoints: '' @ connect_json @ '','') @ line 0 ''},''
         @ line 0 ''scouting: {''
         @ line 4 ''multicast: {''
         @ line 8 (''enabled: '' @ json_bool (enable_multicast_scouting cfg) @ '','')
         @ line 8 autoconnect @ line 4 ''},''
         @ line 4 ''gossip: {'' @ line 8 ''enabled: true,'' @ line 8 autoconnect @ line 4 ''},''
         @ line 0 ''},''
         @ line 0 ''transport: {'' @ line 4 ''shared_memory: {''
         @ line 8 (''enabled: '' @ json_bool (enable_shared_memory cfg) @ '','')
         @ line 4 ''},'' @ line 0 ''},''
         @ [CHR 0x0A] @ replicate 12 (CHR 0x20) @ ''}'')"

section \<open>Frames round trip\<close>

lemma str_bytes_nonzero: "CHR 0x00 \<notin> set s \<Longrightarrow> b \<in> set (str_bytes s) \<Longrightarrow> b \<noteq> 0"
proof -
  assume s: "CHR 0x00 \<notin> set s" and b: "b \<in> set (str_bytes s)"
  then obtain c where c: "c \<in> set s" "b = of_nat (of_char c)" by (auto simp: str_bytes_def)
  have "str_bytes [c] = [b]" by (simp add: str_bytes_def c)
  then have "[c] = bytes_str [b]" by (metis bytes_str_bytes)
  moreover have "bytes_str [0] = [CHR 0x00]" by (simp add: bytes_str_def char_of_def)
  ultimately show "b \<noteq> 0" using s c by auto
qed

lemma takeWhile_command:
  assumes "CHR 0x00 \<notin> set command"
  shows "takeWhile (\<lambda>b. b \<noteq> 0) (str_bytes command @ replicate k 0) = str_bytes command"
  using str_bytes_nonzero [OF assms] by (cases k) (simp_all add: takeWhile_append2)

text \<open>The frame with its fields in place: reading each field back.\<close>

definition frame_bytes :: "string \<Rightarrow> u32 \<Rightarrow> bytes32 \<Rightarrow> bytes \<Rightarrow> bytes" where
  "frame_bytes command n h body =
     MAGIC_BYTES @ (str_bytes command @ replicate (COMMAND_SIZE - length command) 0)
     @ to_be_bytes n @ to_be_bytes h @ body"

lemma frame_fields:
  assumes "length command \<le> 12"
  shows "take 4 (take 52 (frame_bytes command n h body)) = MAGIC_BYTES"
    "take 12 (drop 4 (take 52 (frame_bytes command n h body))) =
       str_bytes command @ replicate (COMMAND_SIZE - length command) 0"
    "take 4 (drop 16 (take 52 (frame_bytes command n h body))) = to_be_bytes n"
    "take 32 (drop 20 (take 52 (frame_bytes command n h body))) = to_be_bytes h"
    "drop 52 (frame_bytes command n h body) = body"
    "length (frame_bytes command n h body) = 52 + length body"
proof -
  define cmd where "cmd = str_bytes command @ replicate (COMMAND_SIZE - length command) 0"
  have l: "length cmd = 12" "length MAGIC_BYTES = 4"
    using assms by (simp_all add: cmd_def COMMAND_SIZE_def MAGIC_BYTES_def)
  have f: "frame_bytes command n h body = MAGIC_BYTES @ cmd @ to_be_bytes n @ to_be_bytes h @ body"
    by (simp add: frame_bytes_def cmd_def)
  show "take 4 (take 52 (frame_bytes command n h body)) = MAGIC_BYTES"
    "take 4 (drop 16 (take 52 (frame_bytes command n h body))) = to_be_bytes n"
    "take 32 (drop 20 (take 52 (frame_bytes command n h body))) = to_be_bytes h"
    "drop 52 (frame_bytes command n h body) = body"
    "length (frame_bytes command n h body) = 52 + length body"
    by (simp_all add: f l)
  have "take 12 (drop 4 (take 52 (frame_bytes command n h body))) = cmd" by (simp add: f l)
  then show "take 12 (drop 4 (take 52 (frame_bytes command n h body))) =
       str_bytes command @ replicate (COMMAND_SIZE - length command) 0"
    by (simp only: cmd_def)
qed

lemma pack_frame_Inr:
  "pack_frame C command payload = Inr frame \<longleftrightarrow>
     length command \<le> 12 \<and> length payload \<le> 4194304 \<and>
     frame = frame_bytes command (of_nat (length payload)) (blake3 C payload) payload"
  by (auto simp: pack_frame_def COMMAND_SIZE_def MAX_PAYLOAD_SIZE_def frame_bytes_def Let_def)

lemma unpack_frame_bytes:
  assumes "length command \<le> 12" "utf8_string command" "CHR 0x00 \<notin> set command"
    and "n \<le> 4194304" "n \<le> length body"
  shows "unpack_frame C (frame_bytes command (of_nat n) h body) =
    (if blake3 C (take n body) = h then Inr (command, take n body) else Inl ChecksumMismatch)"
proof -
  have n: "unat (of_nat n :: u32) = n" using assms(4) by (intro unat_of_nat_less) simp
  have inj: "to_be_bytes (x :: bytes32) = to_be_bytes y \<longleftrightarrow> x = y" for x y
    using as_bytes_inj by (simp add: as_bytes_def)
  show ?thesis
    unfolding unpack_frame_def HEADER_SIZE_def Let_def frame_fields [OF assms(1)]
    using assms n inj by (simp add: takeWhile_command MAX_PAYLOAD_SIZE_def)
qed

lemma block_frame_roundtrip:
  assumes "wf_block block" "length (encode_block block) \<le> 4194304"
  shows "\<exists>frame. pack_frame C ''block'' (encode_block block) = Inr frame \<and> decode_block_frame C frame = Inr block"
proof -
  have u: "utf8_string ''block''" by (simp add: utf8_string_def str_bytes_def)
  obtain frame where f: "pack_frame C ''block'' (encode_block block) = Inr frame"
    using assms(2) by (simp add: pack_frame_Inr)
  then have "unpack_frame C frame = Inr (''block'', encode_block block)"
    using unpack_frame_bytes [of "''block''" "length (encode_block block)" "encode_block block" C "blake3 C (encode_block block)"]
      u assms(2) by (simp add: pack_frame_Inr)
  with f assms(1) show ?thesis by (simp add: decode_block_frame_def block.roundtrip)
qed

lemma tx_frame_roundtrip:
  assumes "wf_tx tx" "length (encode_tx tx) \<le> 4194304"
  shows "\<exists>frame. pack_frame C ''tx'' (encode_tx tx) = Inr frame \<and> decode_tx_frame C frame = Inr tx"
proof -
  have u: "utf8_string ''tx''" by (simp add: utf8_string_def str_bytes_def)
  obtain frame where f: "pack_frame C ''tx'' (encode_tx tx) = Inr frame"
    using assms(2) by (simp add: pack_frame_Inr)
  then have "unpack_frame C frame = Inr (''tx'', encode_tx tx)"
    using unpack_frame_bytes [of "''tx''" "length (encode_tx tx)" "encode_tx tx" C "blake3 C (encode_tx tx)"]
      u assms(2) by (simp add: pack_frame_Inr)
  with f assms(1) show ?thesis by (simp add: decode_tx_frame_def tx.roundtrip)
qed

section \<open>Properties\<close>

text \<open>Frames round trip. What \<open>pack_frame\<close> produces for a text command and a payload,
  \<open>unpack_frame\<close> reads back, whatever follows the frame on the wire.\<close>

theorem frame_roundtrip:
  assumes "pack_frame C command payload = Inr frame" "utf8_string command" "CHR 0x00 \<notin> set command"
  shows "unpack_frame C (frame @ rest) = Inr (command, payload)"
proof -
  from assms(1) have p: "length command \<le> 12" "length payload \<le> 4194304"
    "frame @ rest = frame_bytes command (of_nat (length payload)) (blake3 C payload) (payload @ rest)"
    by (auto simp: pack_frame_Inr frame_bytes_def)
  show ?thesis
    unfolding p(3) using unpack_frame_bytes [OF p(1) assms(2,3) p(2), of "payload @ rest" C "blake3 C payload"] by simp
qed

theorem frame_roundtrip_witness:
  "unpack_frame flat_crypto (frame_bytes ''tx'' 3 0 [7, 8, 9] @ [1]) = Inr (''tx'', [7, 8, 9])"
proof -
  have "pack_frame flat_crypto ''tx'' [7, 8, 9] = Inr (frame_bytes ''tx'' 3 0 [7, 8, 9])"
    by (simp add: pack_frame_Inr flat_crypto_def)
  from frame_roundtrip [OF this, of "[1]"] show ?thesis
    by (simp add: utf8_string_def str_bytes_def)
qed

text \<open>Corruption is detected. A payload replaced by another of the same length, under the
  original header, is refused unless the two payloads collide under the hash.\<close>

theorem tampered_payload_rejected:
  assumes "pack_frame C command payload = Inr frame" "utf8_string command" "CHR 0x00 \<notin> set command"
    and "length payload' = length payload" "blake3 C payload' \<noteq> blake3 C payload"
  shows "unpack_frame C (take 52 frame @ payload') = Inl ChecksumMismatch"
proof -
  from assms(1) have p: "length command \<le> 12" "length payload \<le> 4194304"
    "frame = frame_bytes command (of_nat (length payload)) (blake3 C payload) payload"
    by (auto simp: pack_frame_Inr)
  have "take 52 frame @ payload' = frame_bytes command (of_nat (length payload)) (blake3 C payload) payload'"
    using p(1) by (simp add: p(3) frame_bytes_def MAGIC_BYTES_def COMMAND_SIZE_def)
  then show ?thesis
    using unpack_frame_bytes [OF p(1) assms(2,3) p(2), of payload' C "blake3 C payload"] assms(4,5) by simp
qed

theorem tampered_payload_rejected_witness:
  "unpack_frame (flat_crypto\<lparr>blake3 := (\<lambda>m. if m = [1] then 1 else 0)\<rparr>)
     (take 52 (frame_bytes ''tx'' 1 1 [1]) @ [2]) = Inl ChecksumMismatch"
proof -
  let ?C = "flat_crypto\<lparr>blake3 := (\<lambda>m. if m = [1] then 1 else 0)\<rparr>"
  have "pack_frame ?C ''tx'' [1] = Inr (frame_bytes ''tx'' 1 1 [1])"
    by (simp add: pack_frame_Inr)
  from tampered_payload_rejected [OF this, of "[2]"] show ?thesis
    by (simp add: utf8_string_def str_bytes_def)
qed

text \<open>Block gossip is lossless. Every well-formed block of at most 4 MB that is published can be
  decoded by a subscriber to the same block, and transactions likewise.\<close>

theorem gossip_lossless:
  assumes "wf_block block" "length (encode_block block) \<le> 4194304"
    and "wf_tx tx" "length (encode_tx tx) \<le> 4194304"
  shows "\<exists>bf tf. pack_frame C ''block'' (encode_block block) = Inr bf \<and> decode_block_frame C bf = Inr block \<and>
     pack_frame C ''tx'' (encode_tx tx) = Inr tf \<and> decode_tx_frame C tf = Inr tx"
  using block_frame_roundtrip [OF assms(1,2), of C] tx_frame_roundtrip [OF assms(3,4), of C] by blast

theorem gossip_lossless_witness:
  "\<exists>bf. decode_block_frame flat_crypto bf = Inr
     \<lparr>header = \<lparr>version = 1, prev_block_hash = 0, merkle_root = 0, timestamp = 0, bits = 0, nonce = 0,
        height = 7\<rparr>, transactions = []\<rparr>"
proof -
  let ?b = "\<lparr>header = \<lparr>version = 1, prev_block_hash = 0, merkle_root = 0, timestamp = 0, bits = 0,
      nonce = 0, height = 7\<rparr>, transactions = []\<rparr> :: block"
  let ?t = "\<lparr>tx_version = 1, inputs = [], outputs = [], locktime = 0\<rparr> :: transaction"
  have "wf_block ?b" "length (encode_block ?b) \<le> 4194304" "wf_tx ?t" "length (encode_tx ?t) \<le> 4194304"
    by (simp_all add: wf_block_def wf_tx_def encode_block_def encode_header_def encode_tx_def)
  from gossip_lossless [OF this, of flat_crypto] show ?thesis by blast
qed

end
