(* ===== verification/Rpc.thy ===== *)
theory Rpc
  imports Network "HOL-Library.Sublist"
begin

text \<open>
  The crate \<open>aurion-rpc\<close>: block templates and submission results (\<open>template.rs\<close>), requests and
  responses (\<open>protocol.rs\<close>), the length-delimited frames (\<open>frame.rs\<close>), the connection loop of
  the server (\<open>server.rs\<close>) and the client calls (\<open>client.rs\<close>). A socket is the bytes that
  arrive on it with the condition reported after them, the bytes it has taken and the point where
  it fails. The trait
  \<open>NodeRpcHandler\<close> is the record \<open>rpc_handler\<close> of state-passing functions.
\<close>

section \<open>Errors\<close>

datatype io_error = IoUnexpectedEof | IoOther string

datatype rpc_error =
    RpcIo io_error
  | RpcPayloadTooLarge usize
  | RpcSerialization string
  | ConnectionFailed string
  | NodeRejected string
  | ProtocolMismatch

fun codec_error_debug :: "codec_error \<Rightarrow> string" where
  "codec_error_debug UnexpectedEof = ''UnexpectedEof''"
| "codec_error_debug TrailingBytes = ''TrailingBytes''"
| "codec_error_debug (InvalidData msg) = ''InvalidData('' @ quoted msg @ '')''"

section \<open>Strings on the wire\<close>

definition encode_string :: "string \<Rightarrow> bytes" where
  "encode_string s = to_be_bytes (of_nat (length s) :: u32) @ str_bytes s"

definition decode_string :: "string decoder" where
  "decode_string cursor =
     bindR (decode_be cursor) (\<lambda>(len :: u32, cursor).
     bindR (split_at_checked (unat len) cursor) (\<lambda>(bs, rest).
     bindR (map_err (\<lambda>e. InvalidData (''invalid UTF-8: '' @ utf8_error_display e)) (from_utf8 bs))
       (\<lambda>s. Inr (s, rest))))"

definition wf_string :: "string \<Rightarrow> bool" where
  "wf_string s \<longleftrightarrow> utf8_string s \<and> length s < 2 ^ 32"

interpretation str: canonical_codec encode_string decode_string wf_string
proof unfold_locales
  fix x rest
  assume "wf_string x"
  then show "decode_string (encode_string x @ rest) = Inr (x, rest)"
    by (simp add: encode_string_def decode_string_def wf_string_def u32.dec_enc)
next
  fix bs x rest
  assume "decode_string bs = Inr (x, rest)"
  then show "wf_string x \<and> bs = encode_string x @ rest"
    by (auto simp: encode_string_def decode_string_def wf_string_def from_utf8_Inr
        split: prod.splits dest!: u32.dec_sound)
qed

section \<open>Templates and results\<close>

record block_template =
  bt_height :: u64
  bt_prev :: hash256
  bt_target :: hash256
  bt_timestamp :: u64
  coinbase_subsidy :: quantum
  total_fee :: quantum
  bt_transactions :: "transaction list"

definition encode_template :: "block_template \<Rightarrow> bytes" where
  "encode_template t =
     to_be_bytes (bt_height t) @ as_bytes (bt_prev t) @ as_bytes (bt_target t)
     @ to_be_bytes (bt_timestamp t) @ encode_quantum (coinbase_subsidy t)
     @ encode_quantum (total_fee t)
     @ to_be_bytes (of_nat (length (bt_transactions t)) :: u32)
     @ concat (map encode_tx (bt_transactions t))"

definition decode_template :: "block_template decoder" where
  "decode_template cursor =
     bindR (decode_be cursor) (\<lambda>(height, cursor).
     bindR (decode_hash256 cursor) (\<lambda>(prev, cursor).
     bindR (decode_hash256 cursor) (\<lambda>(target, cursor).
     bindR (decode_be cursor) (\<lambda>(timestamp, cursor).
     bindR (decode_quantum cursor) (\<lambda>(subsidy, cursor).
     bindR (decode_quantum cursor) (\<lambda>(fee, cursor).
     bindR (decode_be cursor) (\<lambda>(tx_count :: u32, cursor).
     bindR (decode_n decode_tx (unat tx_count) cursor) (\<lambda>(txs, cursor).
       Inr (\<lparr>bt_height = height, bt_prev = prev, bt_target = target, bt_timestamp = timestamp,
             coinbase_subsidy = subsidy, total_fee = fee, bt_transactions = txs\<rparr>, cursor)))))))))"

definition wf_template :: "block_template \<Rightarrow> bool" where
  "wf_template t \<longleftrightarrow> length (bt_transactions t) < 2 ^ 32 \<and> list_all wf_tx (bt_transactions t)"

datatype submit_result = Accepted hash256 u64 | Rejected string

fun encode_submit_result :: "submit_result \<Rightarrow> bytes" where
  "encode_submit_result (Accepted bh h) = 0x00 # as_bytes bh @ to_be_bytes h"
| "encode_submit_result (Rejected reason) = 0x01 # encode_string reason"

definition decode_submit_result :: "submit_result decoder" where
  "decode_submit_result cursor = (case cursor of
     [] \<Rightarrow> Inl UnexpectedEof
   | tag # cursor \<Rightarrow>
       if tag = 0x00 then
         bindR (decode_hash256 cursor) (\<lambda>(block_hash, cursor).
         bindR (decode_be cursor) (\<lambda>(height, cursor). Inr (Accepted block_hash height, cursor)))
       else if tag = 0x01 then
         bindR (decode_string cursor) (\<lambda>(reason, cursor). Inr (Rejected reason, cursor))
       else Inl (InvalidData (''invalid SubmitResult tag: '' @ fmt_hex_u8 tag)))"

fun wf_submit_result :: "submit_result \<Rightarrow> bool" where
  "wf_submit_result (Rejected reason) \<longleftrightarrow> wf_string reason"
| "wf_submit_result (Accepted _ _) \<longleftrightarrow> True"

lemmas wire_laws = u32.dec_enc u64.dec_enc quantum.dec_enc tx.dec_enc block.dec_enc vec.dec_enc
  str.dec_enc tx.decode_n_enc

lemmas wire_sound = u32.dec_sound u64.dec_sound quantum.dec_sound tx.dec_sound block.dec_sound
  vec.dec_sound str.dec_sound tx.decode_n_sound hash256.dec_sound

lemma decode_hash_enc [simp]: "decode_hash256 (as_bytes h @ rest) = Inr (h, rest)"
  using hash256.dec_enc [of h rest] by (simp add: encode_hash256_def)

interpretation template: canonical_codec encode_template decode_template wf_template
proof unfold_locales
  fix x rest
  assume "wf_template x"
  then show "decode_template (encode_template x @ rest) = Inr (x, rest)"
    by (simp add: encode_template_def decode_template_def wf_template_def wire_laws)
next
  fix bs x rest
  assume "decode_template bs = Inr (x, rest)"
  then show "wf_template x \<and> bs = encode_template x @ rest"
    by (auto simp: encode_template_def decode_template_def wf_template_def encode_hash256_def
        split: prod.splits dest!: wire_sound)
qed

interpretation submit_result: canonical_codec encode_submit_result decode_submit_result wf_submit_result
proof unfold_locales
  fix x rest
  assume "wf_submit_result x"
  then show "decode_submit_result (encode_submit_result x @ rest) = Inr (x, rest)"
    by (cases x) (simp_all add: decode_submit_result_def wire_laws)
next
  fix bs x rest
  assume "decode_submit_result bs = Inr (x, rest)"
  then show "wf_submit_result x \<and> bs = encode_submit_result x @ rest"
    by (auto simp: decode_submit_result_def encode_hash256_def
        split: list.splits prod.splits if_splits dest!: wire_sound)
qed

section \<open>Requests and responses\<close>

datatype rpc_request =
    GetBlockTemplate bytes
  | SubmitBlock block
  | SendRawTransaction transaction
  | GetTipStatus

datatype rpc_response =
    RespBlockTemplate block_template
  | RespSubmitBlock submit_result
  | TransactionAccepted hash256
  | TipStatus u64 hash256 usize
  | RespError string

fun encode_request :: "rpc_request \<Rightarrow> bytes" where
  "encode_request (GetBlockTemplate payout_address) = 0x00 # encode_vec_bytes payout_address"
| "encode_request (SubmitBlock block) = 0x01 # encode_block block"
| "encode_request (SendRawTransaction tx) = 0x02 # encode_tx tx"
| "encode_request GetTipStatus = [0x03]"

definition decode_request :: "rpc_request decoder" where
  "decode_request cursor = (case cursor of
     [] \<Rightarrow> Inl UnexpectedEof
   | tag # cursor \<Rightarrow>
       if tag = 0x00 then
         bindR (decode_vec_bytes cursor) (\<lambda>(payout_address, cursor).
           Inr (GetBlockTemplate payout_address, cursor))
       else if tag = 0x01 then
         bindR (decode_block cursor) (\<lambda>(block, cursor). Inr (SubmitBlock block, cursor))
       else if tag = 0x02 then
         bindR (decode_tx cursor) (\<lambda>(tx, cursor). Inr (SendRawTransaction tx, cursor))
       else if tag = 0x03 then Inr (GetTipStatus, cursor)
       else Inl (InvalidData (''invalid RpcRequest tag: '' @ fmt_hex_u8 tag)))"

fun wf_request :: "rpc_request \<Rightarrow> bool" where
  "wf_request (GetBlockTemplate payout_address) \<longleftrightarrow> wf_vec payout_address"
| "wf_request (SubmitBlock block) \<longleftrightarrow> wf_block block"
| "wf_request (SendRawTransaction tx) \<longleftrightarrow> wf_tx tx"
| "wf_request GetTipStatus \<longleftrightarrow> True"

fun encode_response :: "rpc_response \<Rightarrow> bytes" where
  "encode_response (RespBlockTemplate tmpl) = 0x00 # encode_template tmpl"
| "encode_response (RespSubmitBlock result) = 0x01 # encode_submit_result result"
| "encode_response (TransactionAccepted tid) = 0x02 # as_bytes tid"
| "encode_response (TipStatus h best_block_hash mempool_size) =
     0x03 # to_be_bytes h @ as_bytes best_block_hash @ to_be_bytes (of_nat mempool_size :: u64)"
| "encode_response (RespError err) = 0x04 # encode_string err"

definition decode_response :: "rpc_response decoder" where
  "decode_response cursor = (case cursor of
     [] \<Rightarrow> Inl UnexpectedEof
   | tag # cursor \<Rightarrow>
       if tag = 0x00 then
         bindR (decode_template cursor) (\<lambda>(tmpl, cursor). Inr (RespBlockTemplate tmpl, cursor))
       else if tag = 0x01 then
         bindR (decode_submit_result cursor) (\<lambda>(result, cursor). Inr (RespSubmitBlock result, cursor))
       else if tag = 0x02 then
         bindR (decode_hash256 cursor) (\<lambda>(txid, cursor). Inr (TransactionAccepted txid, cursor))
       else if tag = 0x03 then
         bindR (decode_be cursor) (\<lambda>(height, cursor).
         bindR (decode_hash256 cursor) (\<lambda>(best_block_hash, cursor).
         bindR (decode_be cursor) (\<lambda>(mempool_size :: u64, cursor).
           Inr (TipStatus height best_block_hash (unat mempool_size), cursor))))
       else if tag = 0x04 then
         bindR (decode_string cursor) (\<lambda>(reason, cursor). Inr (RespError reason, cursor))
       else Inl (InvalidData (''invalid RpcResponse tag: '' @ fmt_hex_u8 tag)))"

fun wf_response :: "rpc_response \<Rightarrow> bool" where
  "wf_response (RespBlockTemplate tmpl) \<longleftrightarrow> wf_template tmpl"
| "wf_response (RespSubmitBlock result) \<longleftrightarrow> wf_submit_result result"
| "wf_response (TransactionAccepted _) \<longleftrightarrow> True"
| "wf_response (TipStatus _ _ mempool_size) \<longleftrightarrow> mempool_size < 2 ^ 64"
| "wf_response (RespError err) \<longleftrightarrow> wf_string err"

interpretation request: canonical_codec encode_request decode_request wf_request
proof unfold_locales
  fix x rest
  assume "wf_request x"
  then show "decode_request (encode_request x @ rest) = Inr (x, rest)"
    by (cases x) (simp_all add: decode_request_def wire_laws)
next
  fix bs x rest
  assume "decode_request bs = Inr (x, rest)"
  then show "wf_request x \<and> bs = encode_request x @ rest"
    by (auto simp: decode_request_def split: list.splits prod.splits if_splits dest!: wire_sound)
qed

lemma unat_u64_bound [simp]: "unat (w :: u64) < 18446744073709551616"
  using unat_bound [of w] by simp

interpretation response: canonical_codec encode_response decode_response wf_response
proof unfold_locales
  fix x rest
  assume "wf_response x"
  then show "decode_response (encode_response x @ rest) = Inr (x, rest)"
    by (cases x) (simp_all add: decode_response_def wire_laws template.dec_enc submit_result.dec_enc)
next
  fix bs x rest
  assume "decode_response bs = Inr (x, rest)"
  then show "wf_response x \<and> bs = encode_response x @ rest"
    by (auto simp: decode_response_def encode_hash256_def split: list.splits prod.splits if_splits
        dest!: wire_sound template.dec_sound submit_result.dec_sound)
qed

section \<open>Framed transport\<close>

definition MAX_RPC_FRAME_SIZE :: usize where
  "MAX_RPC_FRAME_SIZE = 4 * 1024 * 1024"

text \<open>A reader: the bytes that will arrive, and what the transport reports after them.\<close>

record reader =
  rd_bytes :: bytes
  rd_end :: io_error

text \<open>
  A writer: the bytes the transport has taken so far, how many more it will take before it fails
  and with which error, and the outcome of \<open>flush\<close>. A write that fails may have sent a part.
\<close>

record writer =
  wr_bytes :: bytes
  wr_room :: "(nat \<times> io_error) option"
  wr_flush :: "io_error option"

definition fresh_writer :: writer where
  "fresh_writer = \<lparr>wr_bytes = [], wr_room = None, wr_flush = None\<rparr>"

definition intact :: "writer \<Rightarrow> bool" where
  "intact w \<longleftrightarrow> wr_room w = None \<and> wr_flush w = None"

definition read_exact :: "usize \<Rightarrow> reader \<Rightarrow> (rpc_error, bytes \<times> reader) result" where
  "read_exact n r =
     (if length (rd_bytes r) < n then Inl (RpcIo (rd_end r))
      else Inr (take n (rd_bytes r), r\<lparr>rd_bytes := drop n (rd_bytes r)\<rparr>))"

definition write_all :: "bytes \<Rightarrow> writer \<Rightarrow> (rpc_error, unit) result \<times> writer" where
  "write_all bs w = (case wr_room w of
     None \<Rightarrow> (Inr (), w\<lparr>wr_bytes := wr_bytes w @ bs\<rparr>)
   | Some (k, e) \<Rightarrow>
       if length bs \<le> k
       then (Inr (), w\<lparr>wr_bytes := wr_bytes w @ bs, wr_room := Some (k - length bs, e)\<rparr>)
       else (Inl (RpcIo e), w\<lparr>wr_bytes := wr_bytes w @ take k bs, wr_room := Some (0, e)\<rparr>))"

definition flush_writer :: "writer \<Rightarrow> (rpc_error, unit) result" where
  "flush_writer w = (case wr_flush w of None \<Rightarrow> Inr () | Some e \<Rightarrow> Inl (RpcIo e))"

definition write_frame :: "bytes \<Rightarrow> writer \<Rightarrow> (rpc_error, unit) result \<times> writer" where
  "write_frame payload w =
     (if length payload > MAX_RPC_FRAME_SIZE then (Inl (RpcPayloadTooLarge (length payload)), w)
      else
        let len = of_nat (length payload) :: u32 in
        case write_all (to_be_bytes len) w of
          (Inl e, w) \<Rightarrow> (Inl e, w)
        | (Inr _, w) \<Rightarrow>
            (case write_all payload w of
               (Inl e, w) \<Rightarrow> (Inl e, w)
             | (Inr _, w) \<Rightarrow> (flush_writer w, w)))"

definition read_frame :: "reader \<Rightarrow> (rpc_error, bytes \<times> reader) result" where
  "read_frame r =
     bindR (read_exact 4 r) (\<lambda>(len_buf, r).
       let len = unat (from_be_bytes len_buf :: u32) in
       if len > MAX_RPC_FRAME_SIZE then Inl (RpcPayloadTooLarge len)
       else read_exact len r)"

lemma read_frame_shrinks:
  "read_frame r = Inr (bs, r') \<Longrightarrow> length (rd_bytes r') < length (rd_bytes r)"
  by (auto simp: read_frame_def read_exact_def Let_def split: if_splits)

section \<open>The server\<close>

record 'n rpc_handler =
  handle_get_block_template :: "bytes \<Rightarrow> 'n \<Rightarrow> (string, block_template) result \<times> 'n"
  handle_submit_block :: "block \<Rightarrow> 'n \<Rightarrow> (string, submit_result) result \<times> 'n"
  handle_send_raw_tx :: "transaction \<Rightarrow> 'n \<Rightarrow> (string, hash256) result \<times> 'n"
  handle_get_tip_status :: "'n \<Rightarrow> (string, u64 \<times> hash256 \<times> usize) result \<times> 'n"

definition respond :: "('a \<Rightarrow> rpc_response) \<Rightarrow> (string, 'a) result \<times> 'n \<Rightarrow> rpc_response \<times> 'n" where
  "respond f p = (case fst p of Inr x \<Rightarrow> f x | Inl err \<Rightarrow> RespError err, snd p)"

fun dispatch :: "'n rpc_handler \<Rightarrow> rpc_request \<Rightarrow> 'n \<Rightarrow> rpc_response \<times> 'n" where
  "dispatch H (GetBlockTemplate payout_address) n =
     respond RespBlockTemplate (handle_get_block_template H payout_address n)"
| "dispatch H (SubmitBlock block) n = respond RespSubmitBlock (handle_submit_block H block n)"
| "dispatch H (SendRawTransaction tx) n = respond TransactionAccepted (handle_send_raw_tx H tx n)"
| "dispatch H GetTipStatus n =
     respond (\<lambda>(h, best, sz). TipStatus h best sz) (handle_get_tip_status H n)"

function handle_connection ::
    "'n rpc_handler \<Rightarrow> reader \<Rightarrow> writer \<Rightarrow> 'n \<Rightarrow> (rpc_error, unit) result \<times> writer \<times> 'n" where
  "handle_connection H r w n = (case read_frame r of
     Inl e \<Rightarrow> (if e = RpcIo IoUnexpectedEof then Inr () else Inl e, w, n)
   | Inr (bs, r') \<Rightarrow>
       (case decode_canonical decode_request bs of
          Inl e \<Rightarrow> (Inl (RpcSerialization (codec_error_debug e)), w, n)
        | Inr request \<Rightarrow>
            (case dispatch H request n of (response, n') \<Rightarrow>
               (case write_frame (encode_response response) w of
                  (Inl e, w') \<Rightarrow> (Inl e, w', n')
                | (Inr _, w') \<Rightarrow> handle_connection H r' w' n'))))"
  by pat_completeness auto
termination
  by (relation "measure (\<lambda>(H, r, w, n). length (rd_bytes r))") (auto dest: read_frame_shrinks)

declare handle_connection.simps [simp del]

section \<open>What a service owes to its clients\<close>

text \<open>
  The contract of \<open>NodeRpcHandler\<close>: an invariant of the node that every handler keeps when its
  arguments come from the decoder. The connection loop then keeps it on any input bytes.
\<close>

locale handler_contract =
  fixes H :: "'n rpc_handler" and inv :: "'n \<Rightarrow> bool"
  assumes template_inv: "inv n \<Longrightarrow> inv (snd (handle_get_block_template H payout n))"
    and submit_inv: "inv n \<Longrightarrow> wf_block block \<Longrightarrow> inv (snd (handle_submit_block H block n))"
    and send_inv: "inv n \<Longrightarrow> wf_tx tx \<Longrightarrow> inv (snd (handle_send_raw_tx H tx n))"
    and tip_inv: "inv n \<Longrightarrow> inv (snd (handle_get_tip_status H n))"
begin

lemma dispatch_inv: "inv n \<Longrightarrow> wf_request req \<Longrightarrow> inv (snd (dispatch H req n))"
  by (cases req) (simp_all add: respond_def template_inv submit_inv send_inv tip_inv)

lemma connection_inv: "inv n \<Longrightarrow> inv (snd (snd (handle_connection H r w n)))"
proof (induction "length (rd_bytes r)" arbitrary: r w n rule: less_induct)
  case less
  show ?case
  proof (cases "read_frame r")
    case (Inl e)
    with less.prems show ?thesis by (simp add: handle_connection.simps)
  next
    case (Inr p)
    obtain bs r' where p: "p = (bs, r')" by (cases p)
    show ?thesis
    proof (cases "decode_canonical decode_request bs")
      case (Inl e)
      with less.prems Inr p show ?thesis by (simp add: handle_connection.simps)
    next
      case req: (Inr req)
      obtain resp n' where d: "dispatch H req n = (resp, n')" by (cases "dispatch H req n")
      from req have "wf_request req" by (simp add: request.decode_canonical_iff)
      with dispatch_inv [OF less.prems] d have n': "inv n'" by (metis snd_conv)
      show ?thesis
      proof (cases "write_frame (encode_response resp) w")
        case (Pair sent w')
        from read_frame_shrinks Inr p have "length (rd_bytes r') < length (rd_bytes r)" by simp
        from less.hyps [OF this n'] n' Pair Inr p req d show ?thesis
          by (subst handle_connection.simps) (simp split: sum.split)
      qed
    qed
  qed
qed

end

section \<open>The client\<close>

text \<open>
  \<open>call\<close> against a peer: the connection attempt, and the bytes the peer sends back once it has
  received the request frame.
\<close>

definition rpc_call ::
    "(string, unit) result \<Rightarrow> (bytes \<Rightarrow> reader) \<Rightarrow> writer \<Rightarrow> rpc_request \<Rightarrow> (rpc_error, rpc_response) result" where
  "rpc_call connect peer w request =
     bindR (map_err ConnectionFailed connect) (\<lambda>_.
     let (sent, w') = write_frame (encode_request request) w in
     bindR sent (\<lambda>_.
     bindR (read_frame (peer (wr_bytes w'))) (\<lambda>(resp_bytes, _).
       map_err (\<lambda>e. RpcSerialization (codec_error_debug e)) (decode_canonical decode_response resp_bytes))))"

definition client_get_block_template ::
    "(string, unit) result \<Rightarrow> (bytes \<Rightarrow> reader) \<Rightarrow> writer \<Rightarrow> bytes \<Rightarrow> (rpc_error, block_template) result" where
  "client_get_block_template connect peer w payout_address =
     bindR (rpc_call connect peer w (GetBlockTemplate payout_address)) (\<lambda>response. case response of
       RespBlockTemplate tmpl \<Rightarrow> Inr tmpl
     | RespError err \<Rightarrow> Inl (NodeRejected err)
     | _ \<Rightarrow> Inl ProtocolMismatch)"

definition client_submit_block ::
    "(string, unit) result \<Rightarrow> (bytes \<Rightarrow> reader) \<Rightarrow> writer \<Rightarrow> block \<Rightarrow> (rpc_error, submit_result) result" where
  "client_submit_block connect peer w block =
     bindR (rpc_call connect peer w (SubmitBlock block)) (\<lambda>response. case response of
       RespSubmitBlock res \<Rightarrow> Inr res
     | RespError err \<Rightarrow> Inl (NodeRejected err)
     | _ \<Rightarrow> Inl ProtocolMismatch)"

section \<open>Sessions\<close>

definition frame_of :: "bytes \<Rightarrow> bytes" where
  "frame_of payload = to_be_bytes (of_nat (length payload) :: u32) @ payload"

lemma write_frame_ok:
  "length payload \<le> 4194304 \<Longrightarrow> intact w \<Longrightarrow>
     write_frame payload w = (Inr (), w\<lparr>wr_bytes := wr_bytes w @ frame_of payload\<rparr>)"
  by (simp add: write_frame_def write_all_def flush_writer_def intact_def MAX_RPC_FRAME_SIZE_def frame_of_def)

lemma fresh_writer_simps [simp]: "wr_bytes fresh_writer = []"
  by (simp add: fresh_writer_def)

lemma intact_simps [simp]: "intact fresh_writer" "intact (w\<lparr>wr_bytes := bs\<rparr>) = intact w"
  by (simp_all add: intact_def fresh_writer_def)

text \<open>What has been sent when a frame was written, or failed to be.\<close>

lemma write_all_sent:
  "write_all bs w = (res, w') \<Longrightarrow>
     (res = Inr () \<and> wr_bytes w' = wr_bytes w @ bs) \<or>
     (\<exists>e k. res = Inl e \<and> wr_bytes w' = wr_bytes w @ take k bs)"
  unfolding write_all_def by (force split: option.splits if_splits prod.splits)

lemma write_frame_sent:
  assumes "write_frame payload w = (res, w')"
  shows "\<exists>part. wr_bytes w' = wr_bytes w @ part \<and> prefix part (frame_of payload) \<and>
    (res = Inr () \<longrightarrow> part = frame_of payload)"
proof (cases "length payload > MAX_RPC_FRAME_SIZE")
  case True
  with assms show ?thesis by (auto simp: write_frame_def)
next
  case False
  let ?hdr = "to_be_bytes (of_nat (length payload) :: u32)"
  obtain r1 w1 where 1: "write_all ?hdr w = (r1, w1)" by (metis surj_pair)
  obtain r2 w2 where 2: "write_all payload w1 = (r2, w2)" by (metis surj_pair)
  from write_all_sent [OF 1] show ?thesis
  proof (elim disjE exE conjE)
    fix e k assume "r1 = Inl e" "wr_bytes w1 = wr_bytes w @ take k ?hdr"
    with assms 1 False show ?thesis
      by (intro exI [of _ "take k ?hdr"])
         (auto simp: write_frame_def frame_of_def Let_def take_is_prefix prefix_prefix)
  next
    assume r1: "r1 = Inr ()" "wr_bytes w1 = wr_bytes w @ ?hdr"
    from write_all_sent [OF 2] show ?thesis
    proof (elim disjE exE conjE)
      fix e k assume "r2 = Inl e" "wr_bytes w2 = wr_bytes w1 @ take k payload"
      with assms 1 2 r1 False show ?thesis
        by (intro exI [of _ "?hdr @ take k payload"])
           (auto simp: write_frame_def frame_of_def Let_def take_is_prefix)
    next
      assume "r2 = Inr ()" "wr_bytes w2 = wr_bytes w1 @ payload"
      with assms 1 2 r1 False show ?thesis
        by (intro exI [of _ "frame_of payload"]) (auto simp: write_frame_def frame_of_def Let_def)
    qed
  qed
qed

lemma read_frame_ok:
  assumes "length payload \<le> 4194304"
  shows "read_frame \<lparr>rd_bytes = frame_of payload @ rest, rd_end = e\<rparr> =
    Inr (payload, \<lparr>rd_bytes = rest, rd_end = e\<rparr>)"
proof -
  have "unat (of_nat (length payload) :: u32) = length payload"
    using assms by (intro unat_of_nat_less) simp
  with assms show ?thesis
    by (simp add: read_frame_def read_exact_def frame_of_def MAX_RPC_FRAME_SIZE_def)
qed

lemma read_frame_eof: "read_frame \<lparr>rd_bytes = [], rd_end = e\<rparr> = Inl (RpcIo e)"
  by (simp add: read_frame_def read_exact_def)

text \<open>The specification of a session: the requests are answered in order, one response each.\<close>

fun serve :: "'n rpc_handler \<Rightarrow> rpc_request list \<Rightarrow> 'n \<Rightarrow> rpc_response list \<times> 'n" where
  "serve H [] n = ([], n)"
| "serve H (req # reqs) n =
     (case dispatch H req n of (resp, n') \<Rightarrow>
        case serve H reqs n' of (resps, n'') \<Rightarrow> (resp # resps, n''))"

lemma handle_connection_serves:
  assumes "list_all (\<lambda>req. wf_request req \<and> length (encode_request req) \<le> 4194304) reqs"
    and "intact w"
    and "list_all (\<lambda>resp. length (encode_response resp) \<le> 4194304) (fst (serve H reqs n))"
  shows "handle_connection H
      \<lparr>rd_bytes = concat (map (\<lambda>req. frame_of (encode_request req)) reqs), rd_end = IoUnexpectedEof\<rparr> w n
    = (Inr (), w\<lparr>wr_bytes := wr_bytes w @
         concat (map (\<lambda>resp. frame_of (encode_response resp)) (fst (serve H reqs n)))\<rparr>,
       snd (serve H reqs n))"
  using assms
proof (induction reqs arbitrary: w n)
  case Nil
  then show ?case by (simp add: handle_connection.simps read_frame_eof)
next
  case (Cons req reqs)
  obtain resp n' where d: "dispatch H req n = (resp, n')" by (cases "dispatch H req n")
  obtain resps n'' where s: "serve H reqs n' = (resps, n'')" by (cases "serve H reqs n'")
  let ?w = "w\<lparr>wr_bytes := wr_bytes w @ frame_of (encode_response resp)\<rparr>"
  from Cons.prems d s have ok: "length (encode_response resp) \<le> 4194304" "wf_request req"
    "length (encode_request req) \<le> 4194304" by simp_all
  have "handle_connection H
      \<lparr>rd_bytes = concat (map (\<lambda>req. frame_of (encode_request req)) (req # reqs)), rd_end = IoUnexpectedEof\<rparr> w n
    = handle_connection H
      \<lparr>rd_bytes = concat (map (\<lambda>req. frame_of (encode_request req)) reqs), rd_end = IoUnexpectedEof\<rparr> ?w n'"
    using ok Cons.prems(2) d
    by (subst handle_connection.simps) (simp add: read_frame_ok request.roundtrip write_frame_ok)
  also have "\<dots> = (Inr (), ?w\<lparr>wr_bytes := wr_bytes ?w @
         concat (map (\<lambda>resp. frame_of (encode_response resp)) (fst (serve H reqs n')))\<rparr>,
       snd (serve H reqs n'))"
    using Cons.prems d s by (intro Cons.IH) simp_all
  finally show ?case using d s by simp
qed

section \<open>Properties\<close>

text \<open>The RPC protocol is canonical in both directions: a frame decodes to a request, or to a
  response, exactly when it is that message's encoding and the message is within the wire
  limits; in particular every response the server can send is understood by the client.\<close>

theorem rpc_codec_canonical:
  "(decode_canonical decode_request bs = Inr req \<longleftrightarrow> wf_request req \<and> bs = encode_request req) \<and>
   (decode_canonical decode_response bs = Inr resp \<longleftrightarrow> wf_response resp \<and> bs = encode_response resp)"
  using request.decode_canonical_iff response.decode_canonical_iff by blast

text \<open>A session answers every request once and in order. On a stream of well-formed request
  frames the connection loop ends cleanly at the end of the stream, has written exactly the
  framed responses of the handler in order, and leaves the handler's state as after that
  sequence of calls.\<close>

theorem connection_answers_in_order:
  assumes "list_all (\<lambda>req. wf_request req \<and> length (encode_request req) \<le> 4194304) reqs"
    and "intact w"
    and "list_all (\<lambda>resp. length (encode_response resp) \<le> 4194304) (fst (serve H reqs n))"
  shows "handle_connection H
      \<lparr>rd_bytes = concat (map (\<lambda>req. frame_of (encode_request req)) reqs), rd_end = IoUnexpectedEof\<rparr> w n
    = (Inr (), w\<lparr>wr_bytes := wr_bytes w @
         concat (map (\<lambda>resp. frame_of (encode_response resp)) (fst (serve H reqs n)))\<rparr>,
       snd (serve H reqs n))"
  using assms by (rule handle_connection_serves)

text \<open>A handler that counts the tip queries it has answered.\<close>

definition counting_handler :: "nat rpc_handler" where
  "counting_handler =
     \<lparr>handle_get_block_template = (\<lambda>_ n. (Inl ''no template'', n)),
      handle_submit_block = (\<lambda>_ n. (Inl ''no blocks'', n)),
      handle_send_raw_tx = (\<lambda>_ n. (Inl ''no transactions'', n)),
      handle_get_tip_status = (\<lambda>n. (Inr (0, 0, n), Suc n))\<rparr>"

theorem connection_answers_in_order_witness:
  "fst (handle_connection counting_handler
     \<lparr>rd_bytes = concat (map (\<lambda>req. frame_of (encode_request req)) [GetTipStatus, GetTipStatus]),
      rd_end = IoUnexpectedEof\<rparr> fresh_writer 0) = Inr () \<and>
   snd (snd (handle_connection counting_handler
     \<lparr>rd_bytes = concat (map (\<lambda>req. frame_of (encode_request req)) [GetTipStatus, GetTipStatus]),
      rd_end = IoUnexpectedEof\<rparr> fresh_writer 0)) = 2"
proof -
  have "list_all (\<lambda>req. wf_request req \<and> length (encode_request req) \<le> 4194304) [GetTipStatus, GetTipStatus]"
    "intact fresh_writer"
    "list_all (\<lambda>resp. length (encode_response resp) \<le> 4194304)
       (fst (serve counting_handler [GetTipStatus, GetTipStatus] 0))"
    by (simp_all add: counting_handler_def respond_def)
  from connection_answers_in_order [OF this] show ?thesis
    by (simp add: counting_handler_def respond_def)
qed

text \<open>A client call is the handler call. Over an intact connection to a server, a call returns
  exactly the handler's response to the request, whenever both fit into a frame.\<close>

theorem client_call_reaches_handler:
  assumes "wf_request req" "length (encode_request req) \<le> 4194304"
    and "wf_response (fst (dispatch H req n))" "length (encode_response (fst (dispatch H req n))) \<le> 4194304"
  shows "rpc_call (Inr ())
      (\<lambda>sent. \<lparr>rd_bytes = wr_bytes (fst (snd (handle_connection H
           \<lparr>rd_bytes = sent, rd_end = IoUnexpectedEof\<rparr> fresh_writer n))),
              rd_end = IoUnexpectedEof\<rparr>)
      fresh_writer req = Inr (fst (dispatch H req n))"
proof -
  obtain resp n' where d: "dispatch H req n = (resp, n')" by (cases "dispatch H req n")
  have "handle_connection H \<lparr>rd_bytes = frame_of (encode_request req), rd_end = IoUnexpectedEof\<rparr>
      fresh_writer n
      = (Inr (), fresh_writer\<lparr>wr_bytes := frame_of (encode_response resp)\<rparr>, n')"
    using handle_connection_serves [of "[req]" "fresh_writer" H n] assms d by simp
  then show ?thesis
    using assms d read_frame_ok [of "encode_response resp" "[]" IoUnexpectedEof]
    by (simp add: rpc_call_def write_frame_ok response.roundtrip)
qed

theorem client_call_reaches_handler_witness:
  "rpc_call (Inr ())
      (\<lambda>sent. \<lparr>rd_bytes = wr_bytes (fst (snd (handle_connection counting_handler
           \<lparr>rd_bytes = sent, rd_end = IoUnexpectedEof\<rparr> fresh_writer 7))),
              rd_end = IoUnexpectedEof\<rparr>)
      fresh_writer GetTipStatus = Inr (TipStatus 0 0 7)"
  using client_call_reaches_handler [of GetTipStatus counting_handler 7]
  by (simp add: counting_handler_def respond_def)

end
