(* ===== verification/Node_Service.thy ===== *)
theory Node_Service
  imports Ledger Mempool Rpc "HOL-Library.Multiset"
begin

text \<open>
  The node daemon of the binary \<open>aurion\<close>: the RPC service that joins ledger, pool and gossip
  (\<open>rpc_handler.rs\<close>), the listeners for blocks and transactions of the peer mesh and the
  start-up sequence (\<open>commands/node.rs\<close>). The service is an instance of the handler interface of
  \<open>Rpc\<close>. Its state is the authority engine, the pool, the list of broadcasts handed to the
  gossip task so far and the reading of the system clock; one handler call is one step. The
  storage engine is the one owned by the authority engine, as the constructor requires.

  A panic inside a storage read (\<open>SlicePanic\<close>) ends the calling task; it is represented by an
  error value carrying the panic message.
\<close>

section \<open>Debug output\<close>

text \<open>The derived \<open>Debug\<close> text of an authority error, which a rejected submission carries.\<close>

definition escape_debug :: "char \<Rightarrow> string" where
  "escape_debug c =
     (if c = CHR 0x22 then [CHR 0x5C, CHR 0x22]
      else if c = CHR 0x5C then [CHR 0x5C, CHR 0x5C]
      else if c = CHR 0x00 then [CHR 0x5C] @ ''0''
      else if c = CHR 0x09 then [CHR 0x5C] @ ''t''
      else if c = CHR 0x0A then [CHR 0x5C] @ ''n''
      else if c = CHR 0x0D then [CHR 0x5C] @ ''r''
      else let n = of_char c :: nat in
        if n < 16 then [CHR 0x5C] @ ''u{'' @ [hex_digit n] @ ''}''
        else if n < 32 \<or> n = 127
        then [CHR 0x5C] @ ''u{'' @ [hex_digit (n div 16), hex_digit (n mod 16)] @ ''}''
        else [c])"

definition str_debug :: "string \<Rightarrow> string" where
  "str_debug s = [CHR 0x22] @ concat (map escape_debug s) @ [CHR 0x22]"

fun script_error_debug :: "script_error \<Rightarrow> string" where
  "script_error_debug StackUnderflow = ''StackUnderflow''"
| "script_error_debug (StackOverflow n) = ''StackOverflow('' @ show_nat n @ '')''"
| "script_error_debug (ElementTooLarge sz mx) =
     ''ElementTooLarge { size: '' @ show_nat sz @ '', max: '' @ show_nat mx @ '' }''"
| "script_error_debug (MaxOpCountExceeded n) = ''MaxOpCountExceeded('' @ show_nat n @ '')''"
| "script_error_debug (InvalidOpCode b) = ''InvalidOpCode('' @ show_nat (unat b) @ '')''"
| "script_error_debug VerifyFailed = ''VerifyFailed''"
| "script_error_debug EqualVerifyFailed = ''EqualVerifyFailed''"
| "script_error_debug OpReturnTriggered = ''OpReturnTriggered''"
| "script_error_debug InvalidPublicKey = ''InvalidPublicKey''"
| "script_error_debug InvalidSignature = ''InvalidSignature''"
| "script_error_debug EmptyStackOnTermination = ''EmptyStackOnTermination''"
| "script_error_debug ScriptFailed = ''ScriptFailed''"
| "script_error_debug ScriptArithmeticOverflow = ''ArithmeticOverflow''"
| "script_error_debug ScriptUnexpectedEof = ''UnexpectedEof''"
| "script_error_debug ContextUnavailable = ''ContextUnavailable''"
| "script_error_debug (IndexOutOfBounds n) = ''IndexOutOfBounds('' @ show_nat n @ '')''"

fun consensus_error_debug :: "consensus_error \<Rightarrow> string" where
  "consensus_error_debug (ProofOfWorkExceeded h t) =
     ''ProofOfWorkExceeded { hash: '' @ str_debug h @ '', target: '' @ str_debug t @ '' }''"
| "consensus_error_debug (InvalidCompactBits b) =
     ''InvalidCompactBits('' @ show_nat (unat b) @ '')''"
| "consensus_error_debug EmptyBlock = ''EmptyBlock''"
| "consensus_error_debug MissingCoinbase = ''MissingCoinbase''"
| "consensus_error_debug MultipleCoinbase = ''MultipleCoinbase''"
| "consensus_error_debug (MerkleRootMismatch e a) =
     ''MerkleRootMismatch { expected: '' @ hash256_debug e @ '', actual: '' @ hash256_debug a @ '' }''"
| "consensus_error_debug (SubsidyExceeded a c) =
     ''SubsidyExceeded { allowed: '' @ show_nat (unat a) @ '', claimed: '' @ show_nat (unat c) @ '' }''"
| "consensus_error_debug (HeightMismatch h e) =
     ''HeightMismatch { header_height: '' @ show_nat (unat h)
     @ '', expected_height: '' @ show_nat (unat e) @ '' }''"

fun invariant_error_debug :: "invariant_error \<Rightarrow> string" where
  "invariant_error_debug (DuplicateInputSpend op) =
     ''DuplicateInputSpend('' @ outpoint_debug op @ '')''"
| "invariant_error_debug (Authority.MissingUtxo op) = ''MissingUtxo('' @ outpoint_debug op @ '')''"
| "invariant_error_debug (Authority.ScriptExecutionFailed t i e) =
     ''ScriptExecutionFailed { txid: '' @ str_debug t @ '', input_index: '' @ show_nat i
     @ '', error: '' @ script_error_debug e @ '' }''"
| "invariant_error_debug (ValueInflation t i q) =
     ''ValueInflation { txid: '' @ str_debug t @ '', inputs: '' @ str_debug i
     @ '', outputs: '' @ str_debug q @ '' }''"
| "invariant_error_debug InvArithmeticOverflow = ''ArithmeticOverflow''"

fun authority_error_debug :: "authority_error \<Rightarrow> string" where
  "authority_error_debug NodeHalted = ''NodeHalted''"
| "authority_error_debug (AuthConsensus e) = ''Consensus('' @ consensus_error_debug e @ '')''"
| "authority_error_debug (AuthInvariant e) = ''Invariant('' @ invariant_error_debug e @ '')''"
| "authority_error_debug (AuthStorage msg) = ''Storage('' @ str_debug msg @ '')''"
| "authority_error_debug (InvalidParent e a) =
     ''InvalidParent { expected: '' @ hash256_debug e @ '', actual: '' @ hash256_debug a @ '' }''"
| "authority_error_debug AuthorityPanic = ''panic''"

section \<open>Constants and the subsidy of the RPC layer\<close>

definition HALVING_INTERVAL_BLOCKS :: u64 where
  "HALVING_INTERVAL_BLOCKS = 200000"

definition INITIAL_SUBSIDY_AUR_rpc :: u128 where
  "INITIAL_SUBSIDY_AUR_rpc = 99"

definition QUANTUM_PER_AUR :: u128 where
  "QUANTUM_PER_AUR = 100000000"

definition MAX_BLOCK_PAYLOAD_BYTES :: usize where
  "MAX_BLOCK_PAYLOAD_BYTES = 2 * 1024 * 1024"

definition MTP_WINDOW_BLOCKS :: u64 where
  "MTP_WINDOW_BLOCKS = 11"

text \<open>\<open>checked_shr\<close> is defined for shift amounts below the width.\<close>

definition checked_shr :: "u128 \<Rightarrow> u32 \<Rightarrow> u128 option" where
  "checked_shr a n = (if unat n < 128 then Some (drop_bit (unat n) a) else None)"

definition calculate_block_subsidy_rpc :: "u64 \<Rightarrow> quantum" where
  "calculate_block_subsidy_rpc h =
     (if (case checked_div h HALVING_INTERVAL_BLOCKS of None \<Rightarrow> 0 | Some q \<Rightarrow> q) \<ge> 64
      then QUANTUM_ZERO
      else
        let halvings = h div HALVING_INTERVAL_BLOCKS;
            base_units = (case checked_mul INITIAL_SUBSIDY_AUR_rpc QUANTUM_PER_AUR of
                            None \<Rightarrow> 0 | Some u \<Rightarrow> u);
            subsidy_units = (case checked_shr base_units (ucast halvings) of
                               None \<Rightarrow> 0 | Some u \<Rightarrow> u)
        in Quantum subsidy_units)"

section \<open>Reading the ledger\<close>

definition storage_read_error :: "storage_error \<Rightarrow> string" where
  "storage_read_error e = ''storage read error: '' @ storage_error_display e"

definition service_tip :: "('db, 'wtx, 'rtx) redb \<Rightarrow> 'db \<Rightarrow> (string, u64 \<times> hash256) result" where
  "service_tip R db = (case get_tip R db of
     Inr (Some t) \<Rightarrow> Inr t
   | Inr None \<Rightarrow> Inr (0, ZERO_HASH)
   | Inl e \<Rightarrow> Inl (storage_read_error e))"

definition next_work_target ::
    "('db, 'wtx, 'rtx) redb \<Rightarrow> 'db \<Rightarrow> hash256 \<Rightarrow> (string, hash256) result" where
  "next_work_target R db tip_hash =
     bindR (map_err storage_read_error (get_block R db tip_hash)) (\<lambda>found.
       let bts = (case found of Some block \<Rightarrow> bits (header block) | None \<Rightarrow> MAX_TARGET_BITS) in
       case compact_to_target bts of
         Inr target_bytes \<Rightarrow> Inr (from_bytes target_bytes)
       | Inl _ \<Rightarrow>
           map_err (\<lambda>e. ''target computation error: '' @ consensus_error_display e)
             (bindR (compact_to_target MAX_TARGET_BITS) (\<lambda>t. Inr (from_bytes t))))"

definition storage_view :: "('db, 'wtx, 'rtx) redb \<Rightarrow> 'db \<Rightarrow> utxo_view" where
  "storage_view R db op = (case get_utxo R db op of
     Inr (Some output) \<Rightarrow> Some (from_output output 0 False)
   | _ \<Rightarrow> None)"

definition calculate_tx_fee ::
    "('db, 'wtx, 'rtx) redb \<Rightarrow> 'db \<Rightarrow> transaction \<Rightarrow> (string, quantum) result" where
  "calculate_tx_fee R db tx =
     bindR (foldR (\<lambda>input total.
         bindR (ok_or (''input UTXO not in ledger: '' @ outpoint_display (previous_output input))
                  (storage_view R db (previous_output input))) (\<lambda>utxo.
           map_err (\<lambda>_. ''input sum overflow'') (quantum_checked_add total (eu_value utxo))))
         (inputs tx) QUANTUM_ZERO) (\<lambda>total_input.
     bindR (foldR (\<lambda>output total.
         map_err (\<lambda>_. ''output sum overflow'') (quantum_checked_add total (out_value output)))
         (outputs tx) QUANTUM_ZERO) (\<lambda>total_output.
       map_err (\<lambda>_. ''fee underflow: total outputs exceed total inputs'')
         (quantum_checked_sub total_input total_output)))"

text \<open>The loop over the blocks below the tip: at most eleven samples, newest first.\<close>

function mtp_samples ::
    "('db, 'wtx, 'rtx) redb \<Rightarrow> 'db \<Rightarrow> u64 \<Rightarrow> u64 list \<Rightarrow> (string, u64 list) result" where
  "mtp_samples R db h samples =
     (case get_block_by_height R db h of
        Inl e \<Rightarrow> Inl (storage_read_error e)
      | Inr None \<Rightarrow> Inr samples
      | Inr (Some block) \<Rightarrow>
          let samples = samples @ [timestamp (header block)] in
          if h = 0 then Inr samples
          else if length samples \<ge> unat MTP_WINDOW_BLOCKS then Inr samples
          else mtp_samples R db (saturating_sub h 1) samples)"
  by pat_completeness auto
termination
  by (relation "measure (\<lambda>(R, db, h, samples). unat MTP_WINDOW_BLOCKS - length samples)") auto

declare mtp_samples.simps [simp del]

definition median_time_past ::
    "('db, 'wtx, 'rtx) redb \<Rightarrow> 'db \<Rightarrow> hash256 \<Rightarrow> (string, u64) result" where
  "median_time_past R db tip_hash =
     bindR (map_err storage_read_error (get_block R db tip_hash)) (\<lambda>found.
     bindR (case found of
              Some tip_block \<Rightarrow> mtp_samples R db (height (header tip_block)) []
            | None \<Rightarrow> Inr []) (\<lambda>samples.
       if samples = [] then Inr GENESIS_TIMESTAMP
       else Inr (sort samples ! (length samples div 2))))"

section \<open>The service\<close>

text \<open>A broadcast handed to the gossip engine as a task of its own.\<close>

datatype broadcast = GossipBlock block | GossipTx transaction

record 'db node =
  nd_authority :: "'db authority"
  nd_mempool :: mempool
  nd_gossip :: bool
  nd_spawned :: "broadcast list"
  nd_clock :: "(string, u64) result"

abbreviation nd_storage :: "'db node \<Rightarrow> 'db" where
  "nd_storage n \<equiv> auth_storage (nd_authority n)"

definition spawn :: "broadcast \<Rightarrow> 'db node \<Rightarrow> 'db node" where
  "spawn b n = (if nd_gossip n then n\<lparr>nd_spawned := nd_spawned n @ [b]\<rparr> else n)"

definition add_template_fee ::
    "('db, 'wtx, 'rtx) redb \<Rightarrow> 'db \<Rightarrow> transaction \<Rightarrow> quantum \<Rightarrow> (string, quantum) result" where
  "add_template_fee R db tx acc = (case calculate_tx_fee R db tx of
     Inr fee \<Rightarrow> map_err (\<lambda>_. ''fee accumulator overflow'') (quantum_checked_add acc fee)
   | Inl _ \<Rightarrow> Inr acc)"

definition template_timestamp :: "u64 \<Rightarrow> u64 \<Rightarrow> (string, u64) result" where
  "template_timestamp now mtp =
     (if now > mtp then Inr now else ok_or ''timestamp overflow'' (checked_add mtp 1))"

definition build_template ::
    "('db, 'wtx, 'rtx) redb \<Rightarrow> 'db node \<Rightarrow> (string, block_template) result" where
  "build_template R n =
     (let db = nd_storage n in
      bindR (service_tip R db) (\<lambda>(tip_height, tip_hash).
      bindR (ok_or ''block height overflow'' (checked_add tip_height 1)) (\<lambda>next_height.
      bindR (next_work_target R db tip_hash) (\<lambda>target.
      let selected_txs = select_transactions_for_block (nd_mempool n) MAX_BLOCK_PAYLOAD_BYTES in
      bindR (foldR (add_template_fee R db) selected_txs QUANTUM_ZERO) (\<lambda>fees.
      bindR (map_err (\<lambda>e. ''system time error: '' @ e) (nd_clock n)) (\<lambda>now.
      bindR (median_time_past R db tip_hash) (\<lambda>mtp.
      bindR (template_timestamp now mtp) (\<lambda>ts.
        Inr \<lparr>bt_height = next_height, bt_prev = tip_hash, bt_target = target,
             bt_timestamp = ts,
             coinbase_subsidy = calculate_block_subsidy_rpc next_height,
             total_fee = fees, bt_transactions = selected_txs\<rparr>))))))))"

definition service_get_block_template ::
    "('db, 'wtx, 'rtx) redb \<Rightarrow> bytes \<Rightarrow> 'db node \<Rightarrow> (string, block_template) result \<times> 'db node" where
  "service_get_block_template R payout_address n = (build_template R n, n)"

definition service_submit_block ::
    "('db, 'wtx, 'rtx) redb \<Rightarrow> 'vk crypto \<Rightarrow> block \<Rightarrow> 'db node
     \<Rightarrow> (string, submit_result) result \<times> 'db node" where
  "service_submit_block R C block n =
     (case process_and_commit_block R C (nd_authority n) block of
        (Inr _, A') \<Rightarrow>
          (Inr (Accepted (block_hash C block) (height (header block))),
           spawn (GossipBlock block)
             (n\<lparr>nd_authority := A', nd_mempool := process_committed_block C block (nd_mempool n)\<rparr>))
      | (Inl consensus_err, A') \<Rightarrow>
          (if consensus_err = AuthorityPanic then Inl (authority_error_debug consensus_err)
           else Inr (Rejected (authority_error_debug consensus_err)),
           n\<lparr>nd_authority := A'\<rparr>))"

definition service_send_raw_tx ::
    "('db, 'wtx, 'rtx) redb \<Rightarrow> 'vk crypto \<Rightarrow> transaction \<Rightarrow> 'db node
     \<Rightarrow> (string, hash256) result \<times> 'db node" where
  "service_send_raw_tx R C tx n =
     (let db = nd_storage n in
      case bindR (service_tip R db) (\<lambda>(tip_height, tip_hash).
           bindR (median_time_past R db tip_hash) (\<lambda>mtp.
           bindR (map_err (\<lambda>e. ''system time error: '' @ e) (nd_clock n)) (\<lambda>now.
             Inr (tip_height, mtp, now)))) of
        Inl e \<Rightarrow> (Inl e, n)
      | Inr (tip_height, mtp, now) \<Rightarrow>
          (case mempool_insert C tx (storage_view R db) tip_height mtp now (nd_mempool n) of
             (Inl reject, M') \<Rightarrow> (Inl (mempool_reject_display reject), n\<lparr>nd_mempool := M'\<rparr>)
           | (Inr tid, M') \<Rightarrow> (Inr tid, spawn (GossipTx tx) (n\<lparr>nd_mempool := M'\<rparr>))))"

definition service_get_tip_status ::
    "('db, 'wtx, 'rtx) redb \<Rightarrow> 'db node \<Rightarrow> (string, u64 \<times> hash256 \<times> usize) result \<times> 'db node" where
  "service_get_tip_status R n =
     (bindR (service_tip R (nd_storage n)) (\<lambda>(h, best_block_hash).
        Inr (h, best_block_hash, mempool_len (nd_mempool n))), n)"

definition AurionNodeService ::
    "('db, 'wtx, 'rtx) redb \<Rightarrow> 'vk crypto \<Rightarrow> 'db node rpc_handler" where
  "AurionNodeService R C =
     \<lparr>handle_get_block_template = service_get_block_template R,
      handle_submit_block = service_submit_block R C,
      handle_send_raw_tx = service_send_raw_tx R C,
      handle_get_tip_status = service_get_tip_status R\<rparr>"

section \<open>The listeners of the peer mesh\<close>

definition inbound_block ::
    "('db, 'wtx, 'rtx) redb \<Rightarrow> 'vk crypto \<Rightarrow> (network_error, block) result \<Rightarrow> 'db node \<Rightarrow> 'db node" where
  "inbound_block R C res n = (case res of
     Inl _ \<Rightarrow> n
   | Inr block \<Rightarrow>
       (case process_and_commit_block R C (nd_authority n) block of
          (Inr _, A') \<Rightarrow>
            n\<lparr>nd_authority := A', nd_mempool := process_committed_block C block (nd_mempool n)\<rparr>
        | (Inl _, A') \<Rightarrow> n\<lparr>nd_authority := A'\<rparr>))"

definition inbound_tx ::
    "('db, 'wtx, 'rtx) redb \<Rightarrow> 'vk crypto \<Rightarrow> (network_error, transaction) result \<Rightarrow> 'db node \<Rightarrow> 'db node" where
  "inbound_tx R C res n = (case res of
     Inl _ \<Rightarrow> n
   | Inr tx \<Rightarrow>
       (let db = nd_storage n in
        case service_tip R db of
          Inl _ \<Rightarrow> n
        | Inr (tip_height, tip_hash) \<Rightarrow>
            let mtp = (case median_time_past R db tip_hash of Inr t \<Rightarrow> t | Inl _ \<Rightarrow> 0);
                now = (case nd_clock n of Inr t \<Rightarrow> t | Inl _ \<Rightarrow> 0) in
            n\<lparr>nd_mempool :=
                snd (mempool_insert C tx (storage_view R db) tip_height mtp now (nd_mempool n))\<rparr>))"

text \<open>The two tasks of \<open>spawn_inbound_listeners\<close>: a failed subscription ends the task.\<close>

definition block_listener ::
    "('db, 'wtx, 'rtx) redb \<Rightarrow> 'vk crypto \<Rightarrow> zenoh \<Rightarrow> 'db node \<Rightarrow> 'db node" where
  "block_listener R C Z n = (case subscribe_blocks C Z of
     Inr stream \<Rightarrow> fold (inbound_block R C) stream n
   | Inl _ \<Rightarrow> n)"

definition tx_listener ::
    "('db, 'wtx, 'rtx) redb \<Rightarrow> 'vk crypto \<Rightarrow> zenoh \<Rightarrow> 'db node \<Rightarrow> 'db node" where
  "tx_listener R C Z n = (case subscribe_transactions C Z of
     Inr stream \<Rightarrow> fold (inbound_tx R C) stream n
   | Inl _ \<Rightarrow> n)"

section \<open>Start-up\<close>

record node_args =
  datadir :: string
  rpc_bind :: string
  p2p_listen :: string
  na_peers :: "string list"
  offline :: bool

definition bootstrap_config :: "node_args \<Rightarrow> network_config option" where
  "bootstrap_config args =
     (if offline args then None
      else Some \<lparr>listen_endpoints = [p2p_listen args], peer_endpoints = na_peers args,
                 enable_multicast_scouting = True, enable_shared_memory = True\<rparr>)"

definition execute_node ::
    "('db, 'wtx, 'rtx) redb \<Rightarrow> 'vk crypto \<Rightarrow> string \<Rightarrow> bool \<Rightarrow> (string, u64) result
     \<Rightarrow> (string, 'db node) result" where
  "execute_node R C db_path gossip clock =
     bindR (map_err storage_error_display (StorageEngine_open R db_path)) (\<lambda>db.
       case initialize_genesis R C (AuthorityEngine_new db) of
         (Inl e, _) \<Rightarrow> Inl (authority_error_display e)
       | (Inr _, A) \<Rightarrow>
           Inr \<lparr>nd_authority = A, nd_mempool = Mempool_new DEFAULT_MAX_MEMPOOL_BYTES,
                nd_gossip = gossip, nd_spawned = [], nd_clock = clock\<rparr>)"

section \<open>The subsidy of the RPC layer is the consensus subsidy\<close>

lemma amount_calculate_block_subsidy_rpc:
  "amount (calculate_block_subsidy_rpc h) = subsidy_spec (unat h)"
proof -
  let ?q = "h div 200000 :: u64"
  have q: "unat ?q = unat h div 200000" by (simp add: unat_div)
  have base: "checked_mul INITIAL_SUBSIDY_AUR_rpc QUANTUM_PER_AUR = Some 9900000000"
    by (simp add: checked_mul_def INITIAL_SUBSIDY_AUR_rpc_def QUANTUM_PER_AUR_def)
  have shr: "unat (drop_bit n (9900000000 :: u128)) = 9900000000 div 2 ^ n" for n
    by (simp only: unat_drop_bit_eq) (simp add: drop_bit_eq_div)
  show ?thesis
  proof (cases "unat h div 200000 < 64")
    case True
    then have "unat (ucast ?q :: u32) = unat h div 200000"
      by (simp add: unsigned_ucast_eq q take_bit_eq_mod)
    with True q show ?thesis
      by (simp add: calculate_block_subsidy_rpc_def checked_div_def HALVING_INTERVAL_BLOCKS_def
          word_le_nat_alt Let_def base checked_shr_def shr subsidy_spec_def)
  next
    case False
    with q show ?thesis
      by (simp add: calculate_block_subsidy_rpc_def checked_div_def HALVING_INTERVAL_BLOCKS_def
          word_le_nat_alt subsidy_spec_def)
  qed
qed

section \<open>Median time past\<close>

text \<open>The element in the middle of a sorted list, by counting.\<close>

lemma sorted_count_less:
  assumes "sorted xs" "i < length xs"
  shows "length (filter (\<lambda>x. x < xs ! i) xs) \<le> i"
proof -
  have "filter (\<lambda>x. x < xs ! i) xs = filter (\<lambda>x. x < xs ! i) (take i xs) @ filter (\<lambda>x. x < xs ! i) (drop i xs)"
    by (metis append_take_drop_id filter_append)
  moreover have "filter (\<lambda>x. x < xs ! i) (drop i xs) = []"
    using assms by (auto simp: filter_empty_conv in_set_conv_nth not_less) (rule sorted_nth_mono; simp)
  ultimately show ?thesis
    using assms(2) length_filter_le [of "\<lambda>x. x < xs ! i" "take i xs"] by simp
qed

lemma sorted_count_greater:
  assumes "sorted xs" "i < length xs"
  shows "length (filter (\<lambda>x. xs ! i < x) xs) < length xs - i"
proof -
  let ?P = "\<lambda>x. xs ! i < x"
  have "filter ?P xs = filter ?P (take (Suc i) xs) @ filter ?P (drop (Suc i) xs)"
    by (metis append_take_drop_id filter_append)
  moreover have "filter ?P (take (Suc i) xs) = []"
    using assms by (auto simp: filter_empty_conv in_set_conv_nth not_less intro!: sorted_nth_mono)
  ultimately show ?thesis
    using assms(2) length_filter_le [of ?P "drop (Suc i) xs"] by simp
qed

lemma length_filter_sort: "length (filter P (sort xs)) = length (filter P xs)"
  by (metis mset_filter mset_sort size_mset)

definition is_median :: "u64 \<Rightarrow> u64 list \<Rightarrow> bool" where
  "is_median m xs \<longleftrightarrow> m \<in> set xs \<and>
     2 * length (filter (\<lambda>x. x < m) xs) \<le> length xs \<and> 2 * length (filter (\<lambda>x. m < x) xs) \<le> length xs"

lemma is_median_sort:
  assumes "xs \<noteq> []"
  shows "is_median (sort xs ! (length xs div 2)) xs"
proof -
  let ?i = "length xs div 2"
  have i: "?i < length (sort xs)" using assms by simp
  have "sort xs ! ?i \<in> set xs" using nth_mem [OF i] by simp
  moreover have "length (filter (\<lambda>x. x < sort xs ! ?i) xs) \<le> ?i"
    using sorted_count_less [OF _ i] by (simp add: length_filter_sort)
  moreover have "length (filter (\<lambda>x. sort xs ! ?i < x) xs) < length xs - ?i"
    using sorted_count_greater [OF _ i] by (simp add: length_filter_sort)
  ultimately show ?thesis unfolding is_median_def by linarith
qed

text \<open>The samples of a ledger that has a block at every height up to the tip.\<close>

definition time_at :: "store \<Rightarrow> nat \<Rightarrow> u64" where
  "time_at s k = (case store_block_by_height s (of_nat k) of
     Inr (Some block) \<Rightarrow> timestamp (header block) | _ \<Rightarrow> 0)"

definition indexed_upto :: "store \<Rightarrow> u64 \<Rightarrow> bool" where
  "indexed_upto s h \<longleftrightarrow> (\<forall>k\<le>unat h. \<exists>block. store_block_by_height s (of_nat k) = Inr (Some block))"

lemma indexed_upto_tip: "indexed_upto s h \<Longrightarrow> \<exists>block. store_block_by_height s h = Inr (Some block)"
  unfolding indexed_upto_def by (drule spec [of _ "unat h"]) simp

definition mtp_window :: "store \<Rightarrow> u64 \<Rightarrow> u64 list" where
  "mtp_window s h = map (time_at s) (rev [unat h - 10..<Suc (unat h)])"

context redb_healthy
begin

lemma mtp_samples_ok:
  assumes "indexed_upto (view db) h" "length samples < 11"
  shows "mtp_samples R db h samples =
     Inr (samples @ map (time_at (view db)) (rev [unat h - (10 - length samples)..<Suc (unat h)]))"
  using assms
proof (induction "10 - length samples" arbitrary: h samples)
  case less: 0
  then have l: "length samples = 10" by simp
  from less obtain block where b: "store_block_by_height (view db) h = Inr (Some block)"
    using indexed_upto_tip by blast
  then have "time_at (view db) (unat h) = timestamp (header block)" by (simp add: time_at_def)
  with b l show ?case
    by (subst mtp_samples.simps) (simp add: get_block_by_height_ok MTP_WINDOW_BLOCKS_def Let_def)
next
  case (Suc k)
  from Suc.prems obtain block where b: "store_block_by_height (view db) h = Inr (Some block)"
    using indexed_upto_tip by blast
  then have t: "time_at (view db) (unat h) = timestamp (header block)" by (simp add: time_at_def)
  show ?case
  proof (cases "h = 0")
    case True
    with b t show ?thesis
      by (subst mtp_samples.simps) (simp add: get_block_by_height_ok Let_def)
  next
    case False
    then have h: "unat (saturating_sub h 1) = unat h - 1" "0 < unat h"
      by (simp_all add: unat_saturating_sub unat_gt_0)
    have "mtp_samples R db (saturating_sub h 1) (samples @ [timestamp (header block)]) =
       Inr ((samples @ [timestamp (header block)]) @ map (time_at (view db))
         (rev [unat (saturating_sub h 1) - (10 - length (samples @ [timestamp (header block)]))
               ..<Suc (unat (saturating_sub h 1))]))"
      using Suc.prems Suc.hyps(2) h by (intro Suc.hyps(1)) (auto simp: indexed_upto_def)
    moreover have "unat h - 1 - (10 - Suc (length samples)) = unat h - (10 - length samples)"
      using Suc.hyps(2) by simp
    moreover have "unat h - (10 - length samples) \<le> unat h - 1"
      "\<not> unat h < unat h + length samples - 10" using Suc.hyps(2) by simp_all
    ultimately show ?thesis
      using b t h False Suc.hyps(2)
      by (subst mtp_samples.simps)
         (simp add: get_block_by_height_ok MTP_WINDOW_BLOCKS_def not_le Let_def)
  qed
qed

lemma median_time_past_ok:
  assumes "store_block (view db) hash = Inr (Some tip)" "indexed_upto (view db) (height (header tip))"
  shows "\<exists>m. median_time_past R db hash = Inr m \<and> is_median m (mtp_window (view db) (height (header tip)))"
proof -
  let ?w = "mtp_window (view db) (height (header tip))"
  have ne: "?w \<noteq> []" by (simp add: mtp_window_def)
  have "mtp_samples R db (height (header tip)) [] = Inr ?w"
    using mtp_samples_ok [OF assms(2), of "[]"] by (simp add: mtp_window_def)
  with ne assms(1) have "median_time_past R db hash = Inr (sort ?w ! (length ?w div 2))"
    by (simp add: median_time_past_def get_block_ok)
  with is_median_sort [OF ne] show ?thesis by blast
qed

end

end
