(* ===== verification/Node_System.thy ===== *)
theory Node_System
  imports Node_Service
begin

text \<open>
  The whole node as a state machine: RPC requests, frames from the peer mesh, the passing of
  time and crash restarts. The invariant joins the ledger (every height up to the tip is indexed
  and every stored value decodes), the life cycle of the engine, the indices of the pool and the
  link between pool and ledger: a pooled transaction spends outputs the ledger holds. A handler call
  is one step here; the theory \<open>Concurrency\<close> takes the calls apart.
\<close>

section \<open>The tables of a well-formed ledger\<close>

definition store_inv :: "'vk crypto \<Rightarrow> store \<Rightarrow> bool" where
  "store_inv C s \<longleftrightarrow> ledger_inv C s \<and>
     (\<forall>k v. s (BLOCKS_TABLE, KBytes k) = Some v \<longrightarrow> (\<exists>b. wf_block b \<and> v = encode_block b)) \<and>
     (\<forall>op v. s (utxo_key op) = Some v \<longrightarrow> (\<exists>out. wf_tx_output out \<and> v = encode_tx_output out)) \<and>
     (\<forall>h bs. s (HEIGHT_INDEX, KU64 h) = Some bs \<longrightarrow> s (BLOCKS_TABLE, KBytes bs) \<noteq> None) \<and>
     (\<forall>h hash. store_tip s = Inr (Some (h, hash)) \<longrightarrow>
        (\<forall>k\<le>unat h. s (HEIGHT_INDEX, KU64 (of_nat k)) \<noteq> None))"

lemma store_inv_ledger: "store_inv C s \<Longrightarrow> ledger_inv C s"
  by (simp add: store_inv_def)

lemma store_inv_stored:
  "store_inv C s \<Longrightarrow> s (BLOCKS_TABLE, KBytes k) = Some v \<Longrightarrow> \<exists>b. wf_block b \<and> v = encode_block b"
  by (simp add: store_inv_def)

lemma store_inv_empty: "store_inv C (\<lambda>_. None)"
  by (simp add: store_inv_def ledger_inv_empty store_tip_def)

lemma store_inv_block:
  "store_inv C s \<Longrightarrow> s (BLOCKS_TABLE, KBytes (as_bytes hash)) \<noteq> None \<Longrightarrow>
     \<exists>block. wf_block block \<and> store_block s hash = Inr (Some block)"
  by (fastforce simp: store_inv_def store_block_def block.roundtrip)

lemma store_inv_indexed:
  assumes inv: "store_inv C s" and tip: "store_tip s = Inr (Some (h, hash))"
  shows "indexed_upto s h"
  unfolding indexed_upto_def
proof (intro allI impI)
  fix k assume "k \<le> unat h"
  with inv tip obtain bs where bs: "s (HEIGHT_INDEX, KU64 (of_nat k)) = Some bs"
    by (fastforce simp: store_inv_def)
  with inv have l: "length bs = 32" "s (BLOCKS_TABLE, KBytes bs) \<noteq> None"
    by (auto simp: store_inv_def ledger_inv_def)
  then have "as_bytes (from_bytes bs) = bs" by simp
  with store_inv_block [OF inv, of "from_bytes bs"] l(2)
  show "\<exists>block. store_block_by_height s (of_nat k) = Inr (Some block)"
    using bs l(1) by (auto simp: store_block_by_height_def)
qed

lemma encode_block_header: "encode_block b = encode_block b' \<Longrightarrow> header b = header b'"
  unfolding encode_block_def
  by (drule header.prefix_free [OF TrueI TrueI]) simp

lemma store_inv_supply:
  assumes "store_inv C s" "store_tip s = Inr (Some (h, hash))"
  shows "total_supply s \<le> amount MAX_TOTAL_SUPPLY_QUANTA"
proof -
  from store_inv_ledger [OF assms(1)] assms(2) have "total_supply s \<le> issued_upto (unat h)"
    by (simp add: ledger_inv_def)
  also have "\<dots> \<le> amount MAX_TOTAL_SUPPLY_QUANTA"
    using unat_bound [of h] by (intro issued_upto_cap) simp
  finally show ?thesis .
qed

lemma store_inv_tip:
  assumes inv: "store_inv C s" and tip: "store_tip s = Inr (Some (h, hash))"
  shows "\<exists>block. store_block s hash = Inr (Some block) \<and> height (header block) = h \<and>
    block_hash C block = hash"
proof -
  from store_inv_ledger [OF inv] tip obtain block where
    b: "s (BLOCKS_TABLE, KBytes (as_bytes hash)) = Some (encode_block block)"
    "block_hash C block = hash" "height (header block) = h"
    by (auto simp: ledger_inv_def tip_entry_def)
  from store_inv_stored [OF inv b(1)]
  obtain b' where b': "wf_block b'" "encode_block block = encode_block b'" by blast
  from encode_block_header [OF b'(2)] have "header b' = header block" by simp
  moreover have "store_block s hash = Inr (Some b')"
    using b(1) b' by (simp add: store_block_def block.roundtrip)
  ultimately show ?thesis using b(2,3) by (intro exI [of _ b']) (simp add: block_hash_def)
qed

lemma map_of_block_outputs:
  assumes "wf_block block" "map_of (rev (block_outputs C block)) op = Some out"
  shows "wf_tx_output out"
proof -
  from assms(2) have "(op, out) \<in> set (block_outputs C block)" by (auto dest: map_of_SomeD)
  then obtain tx where "tx \<in> set (transactions block)" "(op, out) \<in> set (created_outputs C tx)"
    by (auto simp: block_outputs_def)
  moreover from this(2) have "out \<in> set (outputs tx)"
    by (auto simp: created_outputs_def enumerate_from_def dest: set_zip_rightD)
  ultimately show ?thesis
    using assms(1) by (auto simp: wf_block_def wf_tx_def list_all_iff)
qed

lemma store_inv_apply:
  assumes inv: "store_inv C s" and led: "ledger_inv C (apply_block C block spent s)"
    and wf: "wf_block block" and con: "connects s block"
  shows "store_inv C (apply_block C block spent s)"
  unfolding store_inv_def
proof (intro conjI allI impI)
  let ?s = "apply_block C block spent s" and ?h = "height (header block)"
  show "ledger_inv C ?s" by (rule led)
  show "\<exists>b. wf_block b \<and> v = encode_block b" if "?s (BLOCKS_TABLE, KBytes k) = Some v" for k v
    using that inv wf by (auto simp: apply_block_tables store_inv_def split: if_splits)
  show "\<exists>out. wf_tx_output out \<and> v = encode_tx_output out" if "?s (utxo_key op) = Some v" for op v
    using that inv map_of_block_outputs [OF wf]
    by (auto simp: apply_block_utxo store_inv_def split: option.splits if_splits)
  show "?s (BLOCKS_TABLE, KBytes bs) \<noteq> None" if "?s (HEIGHT_INDEX, KU64 h) = Some bs" for h bs
    using that inv by (auto simp: apply_block_tables store_inv_def split: if_splits)
  fix h hash k
  assume "store_tip ?s = Inr (Some (h, hash))" "k \<le> unat h"
  then have k: "k \<le> unat ?h" by (simp add: apply_block_tip)
  show "?s (HEIGHT_INDEX, KU64 (of_nat k)) \<noteq> None"
  proof (cases "of_nat k = ?h")
    case True
    then show ?thesis by (simp add: apply_block_tables)
  next
    case False
    then have "k \<noteq> unat ?h" by auto
    with k have lt: "k < unat ?h" by simp
    from con obtain tip where tip: "store_tip s = Inr tip"
      "expected_next tip = Inr (?h, prev_block_hash (header block))"
      by (auto simp: connects_def)
    with lt obtain h0 p where t: "tip = Some (h0, p)" "unat ?h = Suc (unat h0)"
      by (auto simp: expected_next_Inr split: option.splits prod.splits)
    with tip inv lt have "s (HEIGHT_INDEX, KU64 (of_nat k)) \<noteq> None"
      by (fastforce simp: store_inv_def)
    with False show ?thesis by (simp add: apply_block_tables)
  qed
qed

section \<open>Pool and ledger\<close>

definition pool_backed :: "store \<Rightarrow> mempool \<Rightarrow> bool" where
  "pool_backed s M \<longleftrightarrow>
     (\<forall>p\<in>set (by_txid M). wf_tx (me_tx (snd p)) \<and>
        (\<forall>op\<in>set (tx_spends (me_tx (snd p))). \<exists>out. store_utxo s op = Inr (Some out)))"

lemma pool_backed_subset:
  "pool_backed s M \<Longrightarrow> set (by_txid M') \<subseteq> set (by_txid M) \<Longrightarrow> pool_backed s M'"
  by (auto simp: pool_backed_def)

lemma mempool_insert_entries:
  assumes inv: "pool_inv C M" and run: "mempool_insert C tx view tip mtp now M = (res, M')"
    and p: "p \<in> set (by_txid M')"
  shows "p \<in> set (by_txid M) \<or>
    (me_tx (snd p) = tx \<and> (\<forall>op\<in>set (tx_spends tx). view op \<noteq> None))"
proof (cases res)
  case (Inl e)
  with run p show ?thesis
    by (auto simp: mempool_insert_def Let_def split: sum.splits option.splits if_splits list.splits)
next
  case (Inr t)
  have update: "q \<in> set (AList.update k e xs) \<Longrightarrow> q \<in> set xs \<or> q = (k, e)"
    for q k e and xs :: "(hash256 \<times> mempool_entry) list"
    by (induction xs) (auto split: if_splits)
  have adm: "\<forall>op\<in>set (tx_spends tx). view op \<noteq> None"
    if "mempool_admissible C tx view spent tip mtp fee" for spent fee
    using that by (auto simp: mempool_admissible_def tx_spends_def input_mature_def split: option.splits)
  from run [unfolded Inr] show ?thesis
  proof (cases rule: mempool_insert_Inr)
    case (room fee)
    with p update adm [OF room(1)] show ?thesis by (fastforce simp: register_def)
  next
    case (evict fee v vs)
    then have "v \<in> set (by_fee_rate M)" by simp
    from evict_victim_drop [OF inv this] obtain e where e: "evict_victim v M = drop_entry e M" by metis
    from p evict(7) e have "p \<in> set (by_txid (drop_entry e M)) \<or> me_tx (snd p) = tx"
      by (auto simp: register_def dest!: update)
    with adm [OF evict(1)] show ?thesis by (auto simp: drop_entry_set)
  qed
qed

lemma pool_backed_insert:
  assumes inv: "pool_inv C M" and backed: "pool_backed s M" and wf: "wf_tx tx"
    and run: "mempool_insert C tx view tip mtp now M = (res, M')"
    and view: "\<And>op u. view op = Some u \<Longrightarrow> \<exists>out. store_utxo s op = Inr (Some out)"
  shows "pool_backed s M'"
  unfolding pool_backed_def
proof (intro ballI conjI)
  fix p assume p: "p \<in> set (by_txid M')"
  from mempool_insert_entries [OF inv run p] backed wf show "wf_tx (me_tx (snd p))"
    unfolding pool_backed_def by auto
  fix op assume "op \<in> set (tx_spends (me_tx (snd p)))"
  with mempool_insert_entries [OF inv run p] backed view
  show "\<exists>out. store_utxo s op = Inr (Some out)"
    unfolding pool_backed_def by blast
qed

lemma store_utxo_apply:
  assumes "wf_block block" "op \<notin> set spent" "store_utxo s op = Inr (Some out)"
  shows "\<exists>out'. store_utxo (apply_block C block spent s) op = Inr (Some out')"
proof (cases "map_of (rev (block_outputs C block)) op")
  case None
  with assms show ?thesis by (auto simp: store_utxo_def apply_block_utxo)
next
  case (Some o')
  with map_of_block_outputs [OF assms(1) Some] show ?thesis
    by (simp add: store_utxo_def apply_block_utxo tx_output.roundtrip)
qed

lemma block_spends_subset: "set (block_spends block) \<subseteq> set (concat (map tx_spends (transactions block)))"
  by (auto simp: block_spends_def)

lemma pool_backed_confirm:
  assumes inv: "pool_inv C M" and backed: "pool_backed s M" and wf: "wf_block block"
  shows "pool_backed (apply_block C block (block_spends block) s) (process_committed_block C block M)"
  unfolding pool_backed_def
proof (intro ballI conjI)
  let ?M = "process_committed_block C block M"
  note spec = process_committed_block_spec [where block = block, OF inv refl]
  fix p assume p: "p \<in> set (by_txid ?M)"
  from spec(2) p have "p \<in> set (by_txid M)" by auto
  with backed show "wf_tx (me_tx (snd p))" by (auto simp: pool_backed_def)
  fix op assume op: "op \<in> set (tx_spends (me_tx (snd p)))"
  from \<open>p \<in> set (by_txid M)\<close>
  have "\<exists>out. store_utxo s op = Inr (Some out)"
    using backed op by (auto simp: pool_backed_def)
  then obtain out where out: "store_utxo s op = Inr (Some out)" by blast
  have "(fst p, snd p) \<in> set (by_txid ?M)" using p by simp
  from spec(3) [OF this] op block_spends_subset [of block] have "op \<notin> set (block_spends block)" by blast
  from store_utxo_apply [OF wf this out]
  show "\<exists>out. store_utxo (apply_block C block (block_spends block) s) op = Inr (Some out)" by blast
qed

section \<open>The invariant of the node\<close>

definition node_inv :: "'vk crypto \<Rightarrow> ('db \<Rightarrow> store) \<Rightarrow> 'db node \<Rightarrow> bool" where
  "node_inv C view n \<longleftrightarrow>
     store_inv C (view (nd_storage n)) \<and> lifecycle_inv view (nd_authority n) \<and>
     (\<exists>t. store_tip (view (nd_storage n)) = Inr (Some t)) \<and>
     pool_inv C (nd_mempool n) \<and> pool_backed (view (nd_storage n)) (nd_mempool n)"

text \<open>What a node is after a block was handed to the engine, by RPC or by a peer.\<close>

definition after_block ::
    "'vk crypto \<Rightarrow> block \<Rightarrow> (authority_error, unit) result \<times> 'db authority \<Rightarrow> 'db node \<Rightarrow> 'db node" where
  "after_block C block r n = n\<lparr>nd_authority := snd r,
     nd_mempool := (if is_ok (fst r) then process_committed_block C block (nd_mempool n) else nd_mempool n)\<rparr>"

lemma inbound_block_after:
  "inbound_block R C (Inr block) n =
     after_block C block (process_and_commit_block R C (nd_authority n) block) n"
  by (auto simp: inbound_block_def after_block_def split: prod.split sum.split)

lemma submit_block_after:
  "snd (service_submit_block R C block n) =
     (let r = process_and_commit_block R C (nd_authority n) block in
      if is_ok (fst r) then spawn (GossipBlock block) (after_block C block r n) else after_block C block r n)"
  by (auto simp: service_submit_block_def after_block_def Let_def split: prod.split sum.split)

lemma spawn_fields [simp]:
  "nd_authority (spawn b n) = nd_authority n" "nd_mempool (spawn b n) = nd_mempool n"
  "nd_gossip (spawn b n) = nd_gossip n" "nd_clock (spawn b n) = nd_clock n"
  by (simp_all add: spawn_def)

lemma node_inv_spawn [simp]: "node_inv C view (spawn b n) = node_inv C view n"
  by (simp add: node_inv_def)

context redb_laws
begin

lemma store_inv_process:
  assumes "process_and_commit_block R C A block = (Inr u, A')" "wf_block block"
    and "store_inv C (view (auth_storage A))"
  shows "store_inv C (view (auth_storage A'))"
proof -
  note ok = process_ok [OF assms(1)]
  have "ledger_inv C (view (auth_storage A'))"
    by (rule ledger_inv_block [OF redb_laws_axioms assms(1) store_inv_ledger [OF assms(3)]])
  with store_inv_apply [OF assms(3) _ assms(2) ok(3)] ok(6) show ?thesis by simp
qed

lemma node_inv_after_block:
  assumes inv: "node_inv C view n" and wf: "wf_block block"
  shows "node_inv C view (after_block C block (process_and_commit_block R C (nd_authority n) block) n)"
proof -
  obtain res A' where run: "process_and_commit_block R C (nd_authority n) block = (res, A')"
    by (metis surj_pair)
  have life: "lifecycle_inv view A'"
    using inv by (intro lifecycle_inv_block [OF redb_laws_axioms run]) (simp add: node_inv_def)
  show ?thesis
  proof (cases res)
    case (Inl e)
    with process_err(1) [OF run [unfolded Inl]] inv life run show ?thesis
      by (simp add: node_inv_def after_block_def)
  next
    case (Inr u)
    note ok = process_ok [OF run [unfolded Inr]]
    have "store_inv C (view (auth_storage A'))"
      using inv by (intro store_inv_process [OF run [unfolded Inr] wf]) (simp add: node_inv_def)
    moreover have "pool_inv C (process_committed_block C block (nd_mempool n))"
      using inv process_committed_block_spec(1) by (auto simp: node_inv_def)
    moreover have "pool_backed (view (auth_storage A')) (process_committed_block C block (nd_mempool n))"
      using inv pool_backed_confirm [OF _ _ wf] ok(6) by (auto simp: node_inv_def)
    ultimately show ?thesis
      using run Inr life ok(6) by (simp add: node_inv_def after_block_def apply_block_tip)
  qed
qed

lemma storage_view_sound: "storage_view R db op = Some u \<Longrightarrow> \<exists>out. store_utxo (view db) op = Inr (Some out)"
  by (auto simp: storage_view_def split: sum.splits option.splits dest!: get_utxo_reads)

lemma node_inv_insert:
  assumes inv: "node_inv C view n" and col: "no_collision C (nd_mempool n) tx" and wf: "wf_tx tx"
  shows "node_inv C view (n\<lparr>nd_mempool :=
    snd (mempool_insert C tx (storage_view R (nd_storage n)) tip mtp now (nd_mempool n))\<rparr>)"
proof -
  obtain res M' where run:
    "mempool_insert C tx (storage_view R (nd_storage n)) tip mtp now (nd_mempool n) = (res, M')"
    by (metis surj_pair)
  from inv have p: "pool_inv C (nd_mempool n)" "pool_backed (view (nd_storage n)) (nd_mempool n)"
    by (simp_all add: node_inv_def)
  with inv pool_inv_insert [OF p(1) col run]
    pool_backed_insert [OF p wf run storage_view_sound] show ?thesis
    by (simp add: node_inv_def run)
qed

end

section \<open>Start-up and steps\<close>

lemma genesis_connects: "store_tip s = Inr None \<Longrightarrow> connects s (create_genesis_block C)"
  by (simp add: connects_def expected_next_def create_genesis_block_def)

lemma wf_genesis [simp]: "wf_block (create_genesis_block C)"
  by (simp add: wf_defs create_genesis_block_def genesis_coinbase_def GENESIS_PAYLOAD_def)

lemma execute_node_Inr:
  assumes "execute_node R C path g t = Inr n"
  obtains db A where "StorageEngine_open R path = Inr db"
    and "initialize_genesis R C (AuthorityEngine_new db) = (Inr (), A)"
    and "n = \<lparr>nd_authority = A, nd_mempool = Mempool_new DEFAULT_MAX_MEMPOOL_BYTES,
              nd_gossip = g, nd_spawned = [], nd_clock = t\<rparr>"
proof -
  let ?fin = "\<lambda>p. case p of (Inl e, _) \<Rightarrow> Inl (authority_error_display e)
    | (Inr _, A) \<Rightarrow> Inr \<lparr>nd_authority = A, nd_mempool = Mempool_new DEFAULT_MAX_MEMPOOL_BYTES,
              nd_gossip = g, nd_spawned = [], nd_clock = t\<rparr>"
  from assms obtain db where 1: "StorageEngine_open R path = Inr db"
    and 2: "?fin (initialize_genesis R C (AuthorityEngine_new db)) = Inr n"
    unfolding execute_node_def bindR_eq_Inr map_err_eq_Inr by blast
  then show ?thesis
    using that by (cases "initialize_genesis R C (AuthorityEngine_new db)") (auto split: sum.splits)
qed

context redb_laws
begin

lemma StorageEngine_open_view:
  assumes "StorageEngine_open R path = Inr db'"
  shows "\<exists>db. db_create R path = Inr db \<and> view db' = view db"
proof -
  let ?body = "\<lambda>db. bindR (map_err TransactionError (begin_write R db)) (\<lambda>w. open_tables R w)"
  from assms obtain db where db: "db_create R path = Inr db"
    and sc: "(case storage_commit R db (?body db) of (Inl e, _) \<Rightarrow> Inl e | (Inr _, d) \<Rightarrow> Inr d) = Inr db'"
    unfolding StorageEngine_open_def bindR_eq_Inr map_err_eq_Inr by blast
  then have sc': "storage_commit R db (?body db) = (Inr (), db')"
    by (cases "storage_commit R db (?body db)") (auto split: sum.splits)
  then obtain w where w: "?body db = Inr w" and c: "w_commit R db w = (Inr (), db')"
    unfolding storage_commit_def by (cases "?body db") (auto split: prod.splits)
  from w obtain w0 where w0: "begin_write R db = Inr w0" "open_tables R w0 = Inr w"
    unfolding bindR_eq_Inr map_err_eq_Inr by blast
  have "wview w = view db"
    using open_tables_view [OF w0(2)] begin_write_snapshot [OF w0(1)] by simp
  with db commit_publishes [OF c] show ?thesis by auto
qed

lemma execute_node_ledger:
  assumes run: "execute_node R C path g t = Inr n" and db: "db_create R path = Inr db"
  shows "(\<exists>tip. store_tip (view db) = Inr (Some tip) \<and> view (nd_storage n) = view db) \<or>
    (store_tip (view db) = Inr None \<and>
     view (nd_storage n) = apply_block C (create_genesis_block C) [] (view db))"
  using run
proof (cases rule: execute_node_Inr)
  case (1 db' A)
  from StorageEngine_open_view [OF 1(1)] db have "view db' = view db" by auto
  with initialize_ok(2) [OF 1(2)] 1(3) show ?thesis by (simp add: AuthorityEngine_new_def)
qed

lemma execute_node_inv:
  assumes run: "execute_node R C path g t = Inr n"
    and inv: "\<And>db. db_create R path = Inr db \<Longrightarrow> store_inv C (view db)"
  shows "node_inv C view n" and "auth_state (nd_authority n) = Running"
proof -
  from run obtain db A where db: "StorageEngine_open R path = Inr db"
    and ini: "initialize_genesis R C (AuthorityEngine_new db) = (Inr (), A)"
    and n: "n = \<lparr>nd_authority = A, nd_mempool = Mempool_new DEFAULT_MAX_MEMPOOL_BYTES,
                nd_gossip = g, nd_spawned = [], nd_clock = t\<rparr>"
    by (rule execute_node_Inr)
  from StorageEngine_open_view [OF db] inv
  have s: "store_inv C (view (auth_storage (AuthorityEngine_new db)))" by (auto simp: AuthorityEngine_new_def)
  note ok = initialize_ok [OF ini]
  have led: "ledger_inv C (view (auth_storage A))"
    by (rule ledger_inv_init [OF redb_laws_axioms ini store_inv_ledger [OF s]])
  from ok(2) have "store_inv C (view (auth_storage A))"
  proof
    assume g: "store_tip (view (auth_storage (AuthorityEngine_new db))) = Inr None \<and>
      view (auth_storage A) = apply_block C (create_genesis_block C) [] (view (auth_storage (AuthorityEngine_new db)))"
    from store_inv_apply [OF s _ wf_genesis genesis_connects] led g show ?thesis by simp
  qed (use s in auto)
  moreover have "lifecycle_inv view A" by (rule lifecycle_inv_init [OF redb_laws_axioms ini])
  moreover have "pool_backed s (Mempool_new k)" for s k
    by (simp add: pool_backed_def Mempool_new_def)
  moreover have "\<exists>t. store_tip (view (auth_storage A)) = Inr (Some t)"
    using ok(2) by (auto simp: apply_block_tip)
  ultimately show "node_inv C view n" "auth_state (nd_authority n) = Running"
    using ok(1) by (simp_all add: n node_inv_def pool_inv_new)
qed

end

inductive node_step ::
    "('db \<Rightarrow> store) \<Rightarrow> ('wtx \<Rightarrow> store) \<Rightarrow> ('rtx \<Rightarrow> store) \<Rightarrow> 'vk crypto \<Rightarrow> 'db node \<Rightarrow> 'db node \<Rightarrow> bool"
  for view wview rview C where
    step_rpc: "redb_laws R view wview rview \<Longrightarrow> wf_request req \<Longrightarrow>
      (\<forall>tx. req = SendRawTransaction tx \<longrightarrow> no_collision C (nd_mempool n) tx) \<Longrightarrow>
      dispatch (AurionNodeService R C) req n = (resp, n') \<Longrightarrow> node_step view wview rview C n n'"
  | step_peer_block: "redb_laws R view wview rview \<Longrightarrow>
      node_step view wview rview C n (inbound_block R C (decode_block_frame C frame) n)"
  | step_peer_tx: "redb_laws R view wview rview \<Longrightarrow>
      (\<forall>tx. decode_tx_frame C frame = Inr tx \<longrightarrow> no_collision C (nd_mempool n) tx) \<Longrightarrow>
      node_step view wview rview C n (inbound_tx R C (decode_tx_frame C frame) n)"
  | step_clock: "node_step view wview rview C n (n\<lparr>nd_clock := t\<rparr>)"
  | step_restart: "redb_laws R view wview rview \<Longrightarrow> db_create R path = Inr db \<Longrightarrow>
      view db = view (nd_storage n) \<Longrightarrow> execute_node R C path g t = Inr n' \<Longrightarrow>
      node_step view wview rview C n n'"

inductive node_reachable ::
    "('db \<Rightarrow> store) \<Rightarrow> ('wtx \<Rightarrow> store) \<Rightarrow> ('rtx \<Rightarrow> store) \<Rightarrow> 'vk crypto \<Rightarrow> 'db node \<Rightarrow> bool"
  for view wview rview C where
    boot: "redb_laws R view wview rview \<Longrightarrow> db_create R path = Inr db \<Longrightarrow> view db = (\<lambda>_. None) \<Longrightarrow>
      execute_node R C path g t = Inr n \<Longrightarrow> node_reachable view wview rview C n"
  | node_steps: "node_reachable view wview rview C n \<Longrightarrow> node_step view wview rview C n n' \<Longrightarrow>
      node_reachable view wview rview C n'"

lemma node_inv_rpc:
  assumes laws: "redb_laws R view wview rview" and wf: "wf_request req"
    and col: "\<forall>tx. req = SendRawTransaction tx \<longrightarrow> no_collision C (nd_mempool n) tx"
    and run: "dispatch (AurionNodeService R C) req n = (resp, n')" and inv: "node_inv C view n"
  shows "node_inv C view n'"
proof (cases req)
  case (GetBlockTemplate p)
  with run inv show ?thesis
    by (auto simp: AurionNodeService_def respond_def service_get_block_template_def)
next
  case (SubmitBlock block)
  with run have n': "n' = snd (service_submit_block R C block n)"
    by (auto simp: AurionNodeService_def respond_def)
  from wf SubmitBlock have "wf_block block" by simp
  from redb_laws.node_inv_after_block [OF laws inv this] show ?thesis
    by (simp add: n' submit_block_after Let_def)
next
  case (SendRawTransaction tx)
  with run have n': "n' = snd (service_send_raw_tx R C tx n)"
    by (auto simp: AurionNodeService_def respond_def)
  from col wf SendRawTransaction have "no_collision C (nd_mempool n) tx" "wf_tx tx" by simp_all
  note ins = redb_laws.node_inv_insert [OF laws inv this]
  have "node_inv C view (n\<lparr>nd_mempool := M'\<rparr>)"
    if "mempool_insert C tx (storage_view R (nd_storage n)) tip mtp now (nd_mempool n) = (res, M')"
    for tip mtp now res M'
    using ins [of tip mtp now] that by simp
  with inv show ?thesis
    by (auto simp: n' service_send_raw_tx_def Let_def split: sum.split prod.split)
next
  case GetTipStatus
  with run inv show ?thesis
    by (auto simp: AurionNodeService_def respond_def service_get_tip_status_def)
qed

lemma decode_block_frame_wf: "decode_block_frame C frame = Inr block \<Longrightarrow> wf_block block"
  by (auto simp: decode_block_frame_def map_err_eq_Inr block.decode_canonical_iff split: prod.splits if_splits)

lemma decode_tx_frame_wf: "decode_tx_frame C frame = Inr tx \<Longrightarrow> wf_tx tx"
  by (auto simp: decode_tx_frame_def map_err_eq_Inr tx.decode_canonical_iff split: prod.splits if_splits)

lemma node_inv_step:
  assumes "node_step view wview rview C n n'" "node_inv C view n"
  shows "node_inv C view n'"
  using assms(1)
proof cases
  case (step_rpc R req resp)
  with assms(2) show ?thesis by (auto intro: node_inv_rpc)
next
  case (step_peer_block R frame)
  show ?thesis
  proof (cases "decode_block_frame C frame")
    case (Inl e)
    with step_peer_block assms(2) show ?thesis by (simp add: inbound_block_def)
  next
    case (Inr block)
    with step_peer_block redb_laws.node_inv_after_block [OF _ assms(2) decode_block_frame_wf [OF Inr]]
    show ?thesis by (simp add: inbound_block_after)
  qed
next
  case (step_peer_tx R frame)
  show ?thesis
  proof (cases "decode_tx_frame C frame")
    case (Inr tx)
    with step_peer_tx redb_laws.node_inv_insert [OF _ assms(2) _ decode_tx_frame_wf [OF Inr], of R wview rview] assms(2)
    show ?thesis
      by (auto simp: inbound_tx_def Let_def split: sum.split prod.split)
  qed (use step_peer_tx assms(2) in \<open>simp add: inbound_tx_def\<close>)
next
  case (step_clock t)
  with assms(2) show ?thesis by (simp add: node_inv_def)
next
  case (step_restart R path db g t)
  with assms(2) redb_laws.execute_node_inv(1) show ?thesis by (fastforce simp: node_inv_def)
qed

lemma node_reachable_inv: "node_reachable view wview rview C n \<Longrightarrow> node_inv C view n"
proof (induction rule: node_reachable.induct)
  case (boot R path db g t n)
  then show ?case by (intro redb_laws.execute_node_inv(1)) (auto simp: store_inv_empty)
next
  case (node_steps n n')
  then show ?case by (rule_tac node_inv_step)
qed

section \<open>Templates\<close>

lemma build_template_Inr:
  assumes "build_template R n = Inr t"
  obtains h hash now mtp where "service_tip R (nd_storage n) = Inr (h, hash)"
    "nd_clock n = Inr now" "median_time_past R (nd_storage n) hash = Inr mtp"
    "next_work_target R (nd_storage n) hash = Inr (bt_target t)"
    "unat (bt_height t) = Suc (unat h)" "bt_prev t = hash"
    "template_timestamp now mtp = Inr (bt_timestamp t)"
    "coinbase_subsidy t = calculate_block_subsidy_rpc (bt_height t)"
    "bt_transactions t = select_transactions_for_block (nd_mempool n) MAX_BLOCK_PAYLOAD_BYTES"
    "foldR (add_template_fee R (nd_storage n)) (bt_transactions t) QUANTUM_ZERO = Inr (total_fee t)"
  using assms
  by (auto simp: build_template_def Let_def map_err_eq_Inr checked_add_Some)

lemma template_timestamp_gt: "template_timestamp now mtp = Inr ts \<Longrightarrow> mtp < ts"
  by (auto simp: template_timestamp_def checked_add_Some word_less_nat_alt split: if_splits)

lemma add_template_fees:
  assumes "foldR (add_template_fee R db) txs a = Inr q"
  shows "amount q = amount a + sum_list (map (\<lambda>tx. case calculate_tx_fee R db tx of
    Inr fee \<Rightarrow> amount fee | Inl _ \<Rightarrow> 0) txs)"
  using assms
proof (induction txs arbitrary: a)
  case (Cons tx txs)
  then obtain a' where a': "add_template_fee R db tx a = Inr a'"
    "foldR (add_template_fee R db) txs a' = Inr q" by auto
  from a'(1) have "amount a' = amount a + (case calculate_tx_fee R db tx of
    Inr fee \<Rightarrow> amount fee | Inl _ \<Rightarrow> 0)"
    by (auto simp: add_template_fee_def split: sum.splits)
  with Cons.IH [OF a'(2)] show ?case by simp
qed simp

lemma utxo_amount_le_supply: "utxo_amount s op \<le> total_supply s"
  by (simp add: supply_split [of s op])

lemma inputs_le_size: "length (inputs tx) \<le> length (encode_tx tx)"
proof -
  have "length ins \<le> length (concat (map encode_tx_input ins))" for ins
  proof (induction ins)
    case (Cons inp ins)
    have "1 \<le> length (encode_tx_input inp)" by (simp add: encode_tx_input_def)
    with Cons show ?case by simp
  qed simp
  from this [of "inputs tx"] show ?thesis by (simp add: encode_tx_def)
qed

text \<open>Fees are bounded by the supply, so their sum over a template cannot overflow.\<close>

context redb_healthy
begin

lemma storage_view_amount:
  "storage_view R db op = Some u \<Longrightarrow> amount (eu_value u) = utxo_amount (view db) op"
  by (auto simp: storage_view_def get_utxo_ok utxo_amount_def from_output_def
      split: sum.splits option.splits)

lemma calculate_tx_fee_bound:
  assumes "calculate_tx_fee R db tx = Inr fee"
  shows "amount fee \<le> length (inputs tx) * total_supply (view db)"
proof -
  let ?step = "\<lambda>input tot. bindR (ok_or (''input UTXO not in ledger: '' @ outpoint_display (previous_output input))
      (storage_view R db (previous_output input)))
      (\<lambda>utxo. map_err (\<lambda>_. ''input sum overflow'') (quantum_checked_add tot (eu_value utxo)))"
  have sum: "foldR ?step ins a = Inr q \<Longrightarrow> amount q \<le> amount a + length ins * total_supply (view db)" for ins a q
  proof (induction ins arbitrary: a)
    case (Cons inp ins)
    then obtain u a' where u: "storage_view R db (previous_output inp) = Some u"
      "amount a' = amount a + amount (eu_value u)" "foldR ?step ins a' = Inr q"
      by (auto simp: ok_or_def split: option.splits)
    from storage_view_amount [OF u(1)] utxo_amount_le_supply [of "view db" "previous_output inp"]
    have "amount (eu_value u) \<le> total_supply (view db)" by simp
    with Cons.IH [OF u(3)] u(2) show ?case by simp
  qed simp
  from assms obtain total_input total_output where
    i: "foldR ?step (inputs tx) QUANTUM_ZERO = Inr total_input"
    and o: "amount total_input = amount total_output + amount fee"
    by (auto simp: calculate_tx_fee_def map_err_eq_Inr)
  from sum [OF i] o show ?thesis by simp
qed

lemma template_fees_ok:
  assumes "amount a + sum_list (map (\<lambda>tx. length (inputs tx)) txs) * total_supply (view db) < 2 ^ 128"
  shows "\<exists>q. foldR (add_template_fee R db) txs a = Inr q"
  using assms
proof (induction txs arbitrary: a)
  case (Cons tx txs)
  let ?S = "total_supply (view db)"
  have fits: "amount a + (length (inputs tx) * ?S + sum_list (map (\<lambda>tx. length (inputs tx)) txs) * ?S) < 2 ^ 128"
    using Cons.prems by (simp add: algebra_simps)
  show ?case
  proof (cases "calculate_tx_fee R db tx")
    case (Inl e)
    with Cons.IH [of a] fits show ?thesis by (simp add: add_template_fee_def)
  next
    case (Inr fee)
    define a' where "a' = Quantum (of_nat (amount a + amount fee))"
    from calculate_tx_fee_bound [OF Inr] fits have le: "amount a + amount fee < 2 ^ 128" by linarith
    then have a': "amount a' = amount a + amount fee" unfolding a'_def by (rule amount_Quantum_of_nat)
    with Cons.IH [of a'] fits calculate_tx_fee_bound [OF Inr]
    obtain q where "foldR (add_template_fee R db) txs a' = Inr q" by auto
    moreover from a' Inr have "add_template_fee R db tx a = Inr a'" by (simp add: add_template_fee_def)
    ultimately show ?thesis by simp
  qed
qed simp

end

lemma max_target_ok: "\<exists>t. compact_to_target MAX_TARGET_BITS = Inr t"
  by (simp add: compact_to_target_def MAX_TARGET_BITS_def compact_exponent_def compact_mantissa_def Let_def)

context redb_healthy
begin

lemma next_work_target_ok:
  assumes "store_block (view db) hash = Inr (Some block)"
  shows "\<exists>t. next_work_target R db hash = Inr t"
  using assms max_target_ok
  by (auto simp: next_work_target_def get_block_ok Let_def split: sum.split)

lemma selection_fees_ok:
  assumes inv: "pool_inv C M" and s: "store_inv C (view db)"
    and tip: "store_tip (view db) = Inr (Some (h, hash))"
  shows "\<exists>q. foldR (add_template_fee R db) (select_transactions_for_block M MAX_BLOCK_PAYLOAD_BYTES)
    QUANTUM_ZERO = Inr q"
proof (rule template_fees_ok)
  let ?n = "\<lambda>tx. length (inputs tx)"
  have "MAX_BLOCK_PAYLOAD_BYTES + 100000 < 2 ^ 64" by (simp add: MAX_BLOCK_PAYLOAD_BYTES_def)
  from select_transactions_spec [OF inv this] obtain es where
    es: "select_transactions_for_block M MAX_BLOCK_PAYLOAD_BYTES = map me_tx es"
    and sub: "set es \<subseteq> snd ` set (by_txid M)" and size: "sum_list (map me_size es) \<le> 2097152"
    by (auto simp: MAX_BLOCK_PAYLOAD_BYTES_def)
  have "?n (me_tx e) \<le> me_size e" if "e \<in> set es" for e
  proof -
    from that sub inv have "me_size e = length (encode_tx (me_tx e))"
      by (auto simp: pool_inv_def entry_wf_def Let_def)
    then show ?thesis by (simp add: inputs_le_size)
  qed
  then have "sum_list (map (\<lambda>e. ?n (me_tx e)) es) \<le> sum_list (map me_size es)"
    by (rule sum_list_map_mono)
  with size have n: "sum_list (map ?n (map me_tx es)) \<le> 2097152" by (simp add: comp_def)
  from store_inv_ledger [OF s] tip have "total_supply (view db) \<le> issued_upto (unat h)"
    by (simp add: ledger_inv_def)
  also have "\<dots> \<le> 6600000000000000"
    using issued_upto_cap [of "unat h"] unat_bound [of h] by (simp add: monetary_constants)
  finally have "sum_list (map ?n (map me_tx es)) * total_supply (view db) \<le> 2097152 * 6600000000000000"
    using n by (intro mult_le_mono)
  then show "amount QUANTUM_ZERO + sum_list (map ?n (select_transactions_for_block M MAX_BLOCK_PAYLOAD_BYTES))
      * total_supply (view db) < 2 ^ 128"
    unfolding es by simp
qed

lemma build_template_ok:
  assumes inv: "node_inv C view n" and clock: "nd_clock n = Inr now"
    and tip: "store_tip (view (nd_storage n)) = Inr (Some (h, hash))" and h: "unat h + 1 < 2 ^ 64"
    and time: "\<forall>k. unat (time_at (view (nd_storage n)) k) + 1 < 2 ^ 64"
  shows "\<exists>t. build_template R n = Inr t"
proof -
  let ?db = "nd_storage n"
  from inv have s: "store_inv C (view ?db)" and p: "pool_inv C (nd_mempool n)"
    by (simp_all add: node_inv_def)
  from store_inv_tip [OF s tip] obtain block where
    b: "store_block (view ?db) hash = Inr (Some block)" "height (header block) = h" by blast
  have "service_tip R ?db = Inr (h, hash)" by (simp add: service_tip_def get_tip_ok tip)
  moreover have "checked_add h 1 = Some (h + 1)"
    using h by (simp add: checked_add_def)
  moreover obtain t where "next_work_target R ?db hash = Inr t"
    using next_work_target_ok [OF b(1)] by blast
  moreover obtain q where "foldR (add_template_fee R ?db)
      (select_transactions_for_block (nd_mempool n) MAX_BLOCK_PAYLOAD_BYTES) QUANTUM_ZERO = Inr q"
    using selection_fees_ok [OF p s tip] by blast
  moreover obtain m where m: "median_time_past R ?db hash = Inr m" "is_median m (mtp_window (view ?db) h)"
    using median_time_past_ok [OF b(1)] store_inv_indexed [OF s tip] b(2) by auto
  moreover obtain ts where "template_timestamp now m = Inr ts"
  proof -
    from m(2) time have "unat m + 1 < 2 ^ 64" by (auto simp: is_median_def mtp_window_def)
    then have "checked_add m 1 = Some (m + 1)" by (simp add: checked_add_def)
    with that show ?thesis by (cases "now > m") (simp_all add: template_timestamp_def)
  qed
  ultimately show ?thesis using clock by (simp add: build_template_def Let_def)
qed

end

section \<open>Submission, replication and restart\<close>

definition accepted :: "(string, submit_result) result \<Rightarrow> bool" where
  "accepted res \<longleftrightarrow> (\<exists>hash h. res = Inr (Accepted hash h))"

lemma submit_accepted_iff:
  "accepted (fst (service_submit_block R C block n)) \<longleftrightarrow>
     is_ok (fst (process_and_commit_block R C (nd_authority n) block))"
  by (auto simp: accepted_def service_submit_block_def split: prod.split sum.split)

text \<open>Submitting one block after the other, as long as all are accepted.\<close>

fun submit_all ::
    "('db, 'wtx, 'rtx) redb \<Rightarrow> 'vk crypto \<Rightarrow> block list \<Rightarrow> 'db node \<Rightarrow> 'db node option" where
  "submit_all R C [] n = Some n"
| "submit_all R C (block # blocks) n = (case service_submit_block R C block n of
     (res, n') \<Rightarrow> if accepted res then submit_all R C blocks n' else None)"

context redb_laws
begin

lemma submit_accepted:
  assumes "service_submit_block R C block n = (res, n')" "accepted res"
  shows "view (nd_storage n') = apply_block C block (block_spends block) (view (nd_storage n))"
    and "auth_state (nd_authority n') = Running"
    and "nd_mempool n' = process_committed_block C block (nd_mempool n)"
    and "nd_spawned n' = nd_spawned n @ (if nd_gossip n then [GossipBlock block] else [])"
    and "res = Inr (Accepted (block_hash C block) (height (header block)))"
  using assms process_ok(2,6) [of C "nd_authority n" block]
  by (auto simp: service_submit_block_def accepted_def spawn_def split: prod.splits sum.splits if_splits)

lemma submit_rejected:
  assumes "service_submit_block R C block n = (res, n')" "\<not> accepted res"
  shows "view (nd_storage n') = view (nd_storage n)" "nd_mempool n' = nd_mempool n"
    and "nd_spawned n' = nd_spawned n"
  using assms process_err(1) [of C "nd_authority n" block]
  by (auto simp: service_submit_block_def accepted_def split: prod.splits sum.splits if_splits)

end

context redb_healthy
begin

lemma same_ledger_accepts:
  assumes run: "process_and_commit_block R C A block = (Inr u, A')"
    and same: "view (auth_storage B) = view (auth_storage A)" "auth_state B = Running"
  shows "\<exists>B'. process_and_commit_block R C B block = (Inr (), B') \<and>
    view (auth_storage B') = view (auth_storage A') \<and> auth_state B' = Running"
proof -
  have "fst (process_and_commit_block R C A block) = Inr ()" using run by simp
  with same have "fst (process_and_commit_block R C B block) = Inr ()"
    by (simp only: process_accepts_iff)
  then obtain B' where B': "process_and_commit_block R C B block = (Inr (), B')" by (metis prod.collapse)
  with process_ok(2,6) [OF B'] process_ok(6) [OF run] same show ?thesis by auto
qed

lemma inbound_blocks_replicate:
  assumes "submit_all R C blocks a = Some a'"
    and "list_all2 (\<lambda>block frame. decode_block_frame C frame = Inr block) blocks frames"
    and "view (nd_storage b) = view (nd_storage a)" "auth_state (nd_authority b) = Running"
  shows "view (nd_storage (fold (inbound_block R C) (map (decode_block_frame C) frames) b)) = view (nd_storage a')"
  using assms
proof (induction blocks arbitrary: frames a b)
  case Nil
  then show ?case by simp
next
  case (Cons block blocks)
  from Cons.prems(2) obtain frame frames' where f: "frames = frame # frames'"
    "decode_block_frame C frame = Inr block"
    "list_all2 (\<lambda>block frame. decode_block_frame C frame = Inr block) blocks frames'"
    by (auto simp: list_all2_Cons1)
  obtain res a1 where sub: "service_submit_block R C block a = (res, a1)" by (metis surj_pair)
  with Cons.prems(1) have acc: "accepted res" and rest: "submit_all R C blocks a1 = Some a'"
    by (auto split: if_splits)
  from sub acc obtain u A' where run: "process_and_commit_block R C (nd_authority a) block = (Inr u, A')"
    using submit_accepted_iff [of R C block a] by (auto simp: is_ok_iff) (metis prod.collapse)
  from same_ledger_accepts [OF run Cons.prems(3,4)] obtain B' where
    B': "process_and_commit_block R C (nd_authority b) block = (Inr (), B')"
    "view (auth_storage B') = view (auth_storage A')" "auth_state B' = Running" by blast
  let ?b1 = "inbound_block R C (Inr block) b"
  have b1: "nd_authority ?b1 = B'" using B' by (simp add: inbound_block_def)
  have "view (nd_storage a1) = view (auth_storage A')"
    using submit_accepted(1) [OF sub acc] process_ok(6) [OF run] by simp
  with Cons.IH [OF rest f(3), of ?b1] b1 B'
  have "view (nd_storage (fold (inbound_block R C) (map (decode_block_frame C) frames') ?b1))
      = view (nd_storage a')" by simp
  then show ?case using f by simp
qed

lemma listener_replicates:
  assumes "submit_all R C blocks a = Some a'"
    and "list_all2 (\<lambda>block frame. decode_block_frame C frame = Inr block) blocks frames"
    and "view (nd_storage b) = view (nd_storage a)" "auth_state (nd_authority b) = Running"
    and "z_declare_subscriber Z TOPIC_BLOCKS_NEW = Inr (map Inr frames)"
  shows "view (nd_storage (block_listener R C Z b)) = view (nd_storage a')"
  using inbound_blocks_replicate [OF assms(1-4)] assms(5)
  by (simp add: block_listener_def subscribe_blocks_def)

lemma execute_node_ok:
  assumes db: "db_create R path = Inr db" and s: "store_inv C (view db)"
    and tip: "store_tip (view db) = Inr (Some t0)"
  shows "\<exists>n. execute_node R C path g t = Inr n \<and> view (nd_storage n) = view db \<and>
    auth_state (nd_authority n) = Running \<and> by_txid (nd_mempool n) = []"
proof -
  let ?body = "bindR (map_err TransactionError (begin_write R db)) (\<lambda>w. open_tables R w)"
  have "is_ok ?body"
    by (intro is_ok_bindR open_tables_ok) (simp add: begin_write_ok)
  then obtain w where w: "?body = Inr w" by (auto simp: is_ok_iff)
  from commit_ok [of db w] obtain db' where c: "w_commit R db w = (Inr (), db')"
    by (auto simp: is_ok_iff) (metis prod.collapse)
  have sc: "storage_commit R db ?body = (Inr (), db')"
    unfolding storage_commit_def w by (simp add: c)
  have o: "StorageEngine_open R path = Inr db'"
    unfolding StorageEngine_open_def db using sc by (simp del: foldR.simps)
  from StorageEngine_open_view [OF o] db have v: "view db' = view db" by auto
  with tip have "get_tip R db' = Inr (Some t0)" by (simp add: get_tip_ok)
  then have "initialize_genesis R C (AuthorityEngine_new db') =
      (Inr (), \<lparr>auth_state = Running, auth_storage = db', cancel_signal = False\<rparr>)"
    by (simp add: initialize_genesis_def AuthorityEngine_new_def)
  with o v show ?thesis by (simp add: execute_node_def Mempool_new_def)
qed

end

section \<open>A node on the database in memory\<close>

definition boot_node :: "store node" where
  "boot_node = \<lparr>nd_authority = genesis_node, nd_mempool = Mempool_new DEFAULT_MAX_MEMPOOL_BYTES,
     nd_gossip = True, nd_spawned = [], nd_clock = Inr 1800000000\<rparr>"

lemma boot_node_exec:
  "execute_node mem_redb flat_crypto ''aurion.redb'' True (Inr 1800000000) = Inr boot_node"
proof -
  have "StorageEngine_open mem_redb ''aurion.redb'' = Inr (\<lambda>_. None)"
    by (simp add: StorageEngine_open_def storage_commit_def mem_redb_def)
  moreover have "initialize_genesis mem_redb flat_crypto (AuthorityEngine_new (\<lambda>_. None)) = (Inr (), genesis_node)"
  proof -
    obtain db where db: "commit_block mem_redb flat_crypto (\<lambda>_. None) (create_genesis_block flat_crypto) []
        = (Inr (), db)"
      using mem.commit_block_ok by blast
    then show ?thesis
      by (simp add: genesis_node_def initialize_genesis_def AuthorityEngine_new_def mem.get_tip_ok store_tip_def)
  qed
  ultimately show ?thesis by (simp add: execute_node_def boot_node_def)
qed

lemma boot_node_reachable: "node_reachable id (id :: store \<Rightarrow> store) (id :: store \<Rightarrow> store) flat_crypto boot_node"
  by (rule node_reachable.boot [OF mem.redb_laws_axioms _ _ boot_node_exec, of "\<lambda>_. None"])
    (simp_all add: mem_redb_def)

lemma boot_node_tip:
  "store_tip (nd_storage boot_node) = Inr (Some (0, block_hash flat_crypto (create_genesis_block flat_crypto)))"
  by (simp add: boot_node_def genesis_node_eq apply_block_tip create_genesis_block_def)

lemma boot_node_time: "unat (time_at (nd_storage boot_node) k) + 1 < 2 ^ 64"
proof (cases "(of_nat k :: u64) = 0")
  case True
  have "store_block_by_height (nd_storage boot_node) 0 = Inr (Some (create_genesis_block flat_crypto))"
    using apply_block_block(2) [OF wf_genesis [of flat_crypto], of flat_crypto "[]" "\<lambda>_. None"]
    by (simp add: boot_node_def genesis_node_eq create_genesis_block_def)
  with True show ?thesis
    by (simp add: time_at_def create_genesis_block_def GENESIS_TIMESTAMP_def)
next
  case False
  then have "store_block_by_height (nd_storage boot_node) (of_nat k) = Inr None"
    by (simp add: boot_node_def genesis_node_eq store_block_by_height_def apply_block_tables create_genesis_block_def)
  then show ?thesis by (simp add: time_at_def)
qed

lemma demo_block_height: "height (header (demo_block k txs)) = 1"
  by (simp add: demo_block_def)

lemma boot_node_submits:
  "\<exists>n'. service_submit_block mem_redb flat_crypto (demo_block k []) boot_node
     = (Inr (Accepted 0 1), n')"
  using demo_block_accepted [of k]
  by (auto simp: service_submit_block_def boot_node_def block_hash_def header_hash_def
      demo_block_height split: prod.split sum.split)

lemma demo_block_small: "wf_block (demo_block k []) \<and> length (encode_block (demo_block k [])) \<le> 4194304"
  by (simp add: demo_block_def demo_coinbase_def genesis_coinbase_def GENESIS_PAYLOAD_def wf_defs
      encode_block_def encode_header_def encode_tx_def encode_tx_input_def encode_outpoint_def
      encode_vec_bytes_def encode_redeemer_def)

text \<open>The database in memory, opened on given tables.\<close>

definition mem_at :: "store \<Rightarrow> (store, store, store) redb" where
  "mem_at s = mem_redb\<lparr>db_create := (\<lambda>_. Inr s)\<rparr>"

lemma mem_at_healthy: "redb_healthy (mem_at s) id id id"
  by unfold_locales (auto simp: mem_at_def mem_redb_def)

section \<open>Properties\<close>

text \<open>C24: a template extends the chain. Whatever the database does, a template handed to a miner is
  one block above the tip it names as parent, is dated after the median time past of that
  parent, carries the consensus subsidy of its height and lists pooled transactions only.\<close>

theorem template_extends_tip:
  assumes "build_template R n = Inr t"
  shows "\<exists>h mtp. service_tip R (nd_storage n) = Inr (h, bt_prev t) \<and>
    unat (bt_height t) = unat h + 1 \<and>
    median_time_past R (nd_storage n) (bt_prev t) = Inr mtp \<and> mtp < bt_timestamp t \<and>
    coinbase_subsidy t = calculate_block_subsidy (bt_height t) \<and>
    bt_transactions t = select_transactions_for_block (nd_mempool n) MAX_BLOCK_PAYLOAD_BYTES"
proof -
  have "calculate_block_subsidy_rpc k = calculate_block_subsidy k" for k
    using amount_calculate_block_subsidy [of k] amount_calculate_block_subsidy_rpc [of k]
    by (simp add: amount_inj [symmetric])
  with assms show ?thesis
    by (elim build_template_Inr) (auto dest: template_timestamp_gt)
qed

theorem template_extends_tip_witness:
  "\<exists>t. build_template mem_redb boot_node = Inr t \<and> unat (bt_height t) = 1 \<and> bt_transactions t = []"
proof -
  have clock: "nd_clock boot_node = Inr 1800000000" by (simp add: boot_node_def)
  from mem.build_template_ok [OF node_reachable_inv [OF boot_node_reachable] clock, of 0] boot_node_tip boot_node_time
  obtain t where t: "build_template mem_redb boot_node = Inr t" by auto
  from template_extends_tip [OF t] boot_node_tip have "unat (bt_height t) = 1"
    "bt_transactions t = select_transactions_for_block (nd_mempool boot_node) MAX_BLOCK_PAYLOAD_BYTES"
    by (auto simp: service_tip_def mem.get_tip_ok)
  with t show ?thesis
    by (auto simp: boot_node_def Mempool_new_def select_transactions_for_block_def)
qed

text \<open>Mining never starves. On a working database a reachable node answers every template
  request as long as its clock can be read, heights are not exhausted and no block carries the
  largest timestamp: reading the chain cannot fail, the target of the tip is valid or replaced,
  and the fees of a template cannot overflow.\<close>

theorem template_always_available:
  assumes healthy: "redb_healthy R view wview rview" and reach: "node_reachable view wview rview C n"
    and clock: "nd_clock n = Inr now"
    and tip: "store_tip (view (nd_storage n)) = Inr (Some (h, hash))" and h: "unat h + 1 < 2 ^ 64"
    and time: "\<forall>k. unat (time_at (view (nd_storage n)) k) + 1 < 2 ^ 64"
  shows "\<exists>t. build_template R n = Inr t"
  using redb_healthy.build_template_ok [OF healthy node_reachable_inv [OF reach] clock tip h time] .

theorem template_always_available_witness: "\<exists>t. build_template mem_redb boot_node = Inr t"
  by (rule template_always_available [OF mem.redb_healthy_axioms boot_node_reachable, of 1800000000 0
        "block_hash flat_crypto (create_genesis_block flat_crypto)"])
    (use boot_node_tip boot_node_time in \<open>simp_all add: boot_node_def\<close>)

text \<open>C23: what a submission does. An accepted block is reported under its own hash and height, is
  applied to the ledger, leaves no conflicting transaction in the pool and is broadcast exactly
  once when gossip is on; any other answer means that the ledger, the pool and the broadcast
  queue are as before.\<close>

theorem submit_block_effects:
  assumes laws: "redb_laws R view wview rview" and reach: "node_reachable view wview rview C n"
    and run: "service_submit_block R C block n = (res, n')"
  shows "if accepted res then
      res = Inr (Accepted (block_hash C block) (height (header block))) \<and>
      view (nd_storage n') = apply_block C block (block_spends block) (view (nd_storage n)) \<and>
      (\<forall>p\<in>set (by_txid (nd_mempool n')).
         set (tx_spends (me_tx (snd p))) \<inter> set (concat (map tx_spends (transactions block))) = {}) \<and>
      nd_spawned n' = nd_spawned n @ (if nd_gossip n then [GossipBlock block] else [])
    else view (nd_storage n') = view (nd_storage n) \<and> nd_mempool n' = nd_mempool n \<and>
      nd_spawned n' = nd_spawned n"
proof (cases "accepted res")
  case True
  note acc = redb_laws.submit_accepted [OF laws run True]
  have pool: "pool_inv C (nd_mempool n)"
    using node_reachable_inv [OF reach] by (simp add: node_inv_def)
  have "set (tx_spends (me_tx (snd p))) \<inter> set (concat (map tx_spends (transactions block))) = {}"
    if "p \<in> set (by_txid (nd_mempool n'))" for p
    using process_committed_block_spec(3) [OF pool acc(3), of "fst p" "snd p"] that by simp
  with True acc show ?thesis by auto
next
  case False
  with redb_laws.submit_rejected [OF laws run False] show ?thesis by simp
qed

theorem submit_block_effects_witness:
  "\<exists>n'. service_submit_block mem_redb flat_crypto (demo_block 3 []) boot_node = (Inr (Accepted 0 1), n') \<and>
     nd_spawned n' = [GossipBlock (demo_block 3 [])]"
proof -
  obtain n' where run: "service_submit_block mem_redb flat_crypto (demo_block 3 []) boot_node
      = (Inr (Accepted 0 1), n')"
    using boot_node_submits by blast
  have "accepted (Inr (Accepted 0 1))" by (simp add: accepted_def)
  with submit_block_effects [OF mem.redb_laws_axioms boot_node_reachable run] run show ?thesis
    by (simp add: boot_node_def)
qed

text \<open>Replication. A chain of blocks accepted by one node and published on the mesh, received
  in order by a running node with the same ledger, brings the two ledgers to the same contents.\<close>

theorem gossip_replicates_chain:
  assumes "redb_healthy R view wview rview" "submit_all R C blocks a = Some a'"
    and "list_all (\<lambda>block. wf_block block \<and> length (encode_block block) \<le> 4194304) blocks"
    and "view (nd_storage b) = view (nd_storage a)" "auth_state (nd_authority b) = Running"
  shows "\<exists>frames. list_all2 (\<lambda>block frame. block_sample C block = Inr (TOPIC_BLOCKS_NEW, frame)) blocks frames \<and>
    (\<forall>Z. z_declare_subscriber Z TOPIC_BLOCKS_NEW = Inr (map Inr frames) \<longrightarrow>
       view (nd_storage (block_listener R C Z b)) = view (nd_storage a'))"
proof -
  from assms(3) have "\<exists>frames. list_all2 (\<lambda>block frame. pack_frame C ''block'' (encode_block block) = Inr frame \<and>
      decode_block_frame C frame = Inr block) blocks frames"
  proof (induction blocks)
    case Nil
    show ?case by (rule exI [of _ "[]"]) simp
  next
    case (Cons block blocks)
    then obtain frames where "list_all2 (\<lambda>block frame. pack_frame C ''block'' (encode_block block) = Inr frame \<and>
      decode_block_frame C frame = Inr block) blocks frames" by auto
    moreover from Cons.prems block_frame_roundtrip [of block C] obtain frame where
      "pack_frame C ''block'' (encode_block block) = Inr frame \<and> decode_block_frame C frame = Inr block" by auto
    ultimately show ?case by (intro exI [of _ "frame # frames"]) simp
  qed
  then obtain frames where both: "list_all2 (\<lambda>block frame. pack_frame C ''block'' (encode_block block) = Inr frame \<and>
      decode_block_frame C frame = Inr block) blocks frames" by blast
  then have f: "list_all2 (\<lambda>block frame. block_sample C block = Inr (TOPIC_BLOCKS_NEW, frame)) blocks frames"
    "list_all2 (\<lambda>block frame. decode_block_frame C frame = Inr block) blocks frames"
    by (auto elim!: list_all2_mono simp: block_sample_def)
  from redb_healthy.listener_replicates [OF assms(1,2) f(2) assms(4,5)] f(1) show ?thesis by blast
qed

theorem gossip_replicates_chain_witness:
  "\<exists>a' Z. submit_all mem_redb flat_crypto [demo_block 3 []] boot_node = Some a' \<and>
     nd_storage (block_listener mem_redb flat_crypto Z boot_node) = nd_storage a'"
proof -
  obtain a' where "service_submit_block mem_redb flat_crypto (demo_block 3 []) boot_node
      = (Inr (Accepted 0 1), a')"
    using boot_node_submits by blast
  then have sub: "submit_all mem_redb flat_crypto [demo_block 3 []] boot_node = Some a'"
    by (simp add: accepted_def)
  have "list_all (\<lambda>block. wf_block block \<and> length (encode_block block) \<le> 4194304) [demo_block 3 []]"
    using demo_block_small by simp
  from gossip_replicates_chain [OF mem.redb_healthy_axioms sub this, of boot_node] obtain frames where
    f: "\<forall>Z. z_declare_subscriber Z TOPIC_BLOCKS_NEW = Inr (map Inr frames) \<longrightarrow>
      nd_storage (block_listener mem_redb flat_crypto Z boot_node) = nd_storage a'"
    by (auto simp: boot_node_def genesis_node_eq)
  let ?Z = "\<lparr>z_put = \<lambda>_ _. Inr (), z_get = \<lambda>_ _. Inr None,
    z_declare_subscriber = \<lambda>_. Inr (map Inr frames), z_declare_queryable = \<lambda>_ _. Inr 0\<rparr>"
  from f have "nd_storage (block_listener mem_redb flat_crypto ?Z boot_node) = nd_storage a'" by simp
  with sub show ?thesis by blast
qed

text \<open>C25: a restart keeps the ledger. When the process dies in any reachable state, a fresh start on
  the same database comes up running with the same ledger and an empty pool; this is also how a
  node leaves the failed state.\<close>

theorem restart_preserves_ledger:
  assumes "redb_healthy R view wview rview" "node_reachable view wview rview C n"
    and "db_create R path = Inr db" "view db = view (nd_storage n)"
  shows "\<exists>n'. execute_node R C path g t = Inr n' \<and> view (nd_storage n') = view (nd_storage n) \<and>
    auth_state (nd_authority n') = Running \<and> by_txid (nd_mempool n') = []"
proof -
  from node_reachable_inv [OF assms(2)] obtain t0 where "store_inv C (view db)" "store_tip (view db) = Inr (Some t0)"
    by (auto simp: node_inv_def assms(4))
  from redb_healthy.execute_node_ok [OF assms(1,3) this] assms(4) show ?thesis by simp
qed

theorem restart_preserves_ledger_witness:
  "\<exists>n'. execute_node (mem_at (nd_storage boot_node)) flat_crypto ''aurion.redb'' False (Inr 0) = Inr n' \<and>
     nd_storage n' = nd_storage boot_node"
  using restart_preserves_ledger [OF mem_at_healthy boot_node_reachable, of "nd_storage boot_node" "''aurion.redb''"
      "nd_storage boot_node" False "Inr 0"]
  by (auto simp: mem_at_def)

text \<open>C26: everything stored is typed. On a working database a reachable node can read whatever it
  asks for: the tip, any block by hash or by height and any output; no read returns a decoding
  error or panics, and what is found is a well-formed value.\<close>

theorem stored_values_typed:
  assumes "redb_healthy R view wview rview" "node_reachable view wview rview C n"
  shows "is_ok (get_tip R (nd_storage n)) \<and>
    (\<exists>b. get_block R (nd_storage n) hash = Inr b \<and> pred_option wf_block b) \<and>
    (\<exists>b. get_block_by_height R (nd_storage n) h = Inr b \<and> pred_option wf_block b) \<and>
    (\<exists>out. get_utxo R (nd_storage n) op = Inr out \<and> pred_option wf_tx_output out)"
proof -
  let ?s = "view (nd_storage n)"
  from node_reachable_inv [OF assms(2)] have s: "store_inv C ?s"
    and tip: "is_ok (store_tip ?s)" by (auto simp: node_inv_def)
  have blk: "\<exists>b. store_block ?s k = Inr b \<and> pred_option wf_block b" for k
    using store_inv_block [OF s, of k]
    by (cases "?s (BLOCKS_TABLE, KBytes (as_bytes k))") (auto simp: store_block_def)
  have "\<exists>b. store_block_by_height ?s h = Inr b \<and> pred_option wf_block b"
    using blk store_inv_ledger [OF s]
    by (auto simp: store_block_by_height_def ledger_inv_def split: option.split)
  moreover have "\<exists>out. store_utxo ?s op = Inr out \<and> pred_option wf_tx_output out"
    using s by (cases "?s (utxo_key op)") (auto simp: store_utxo_def store_inv_def tx_output.roundtrip dest!: spec [of _ op])
  ultimately show ?thesis
    using tip blk [of hash] by (simp add: redb_healthy.get_tip_ok [OF assms(1)] redb_healthy.get_block_ok [OF assms(1)]
        redb_healthy.get_block_by_height_ok [OF assms(1)] redb_healthy.get_utxo_ok [OF assms(1)])
qed

theorem stored_values_typed_witness:
  "is_ok (get_tip mem_redb (nd_storage boot_node)) \<and>
   (\<exists>b. get_block mem_redb (nd_storage boot_node) 0 = Inr b \<and> pred_option wf_block b)"
  using stored_values_typed [OF mem.redb_healthy_axioms boot_node_reachable] by blast

text \<open>C27: median time past. The value the node derives from its tip is a median of the timestamps of
  the last eleven blocks, or of all blocks on a shorter chain: at most half of them lie below it
  and at most half above.\<close>

theorem median_time_past_is_median:
  assumes "redb_healthy R view wview rview" "node_reachable view wview rview C n"
    and "store_tip (view (nd_storage n)) = Inr (Some (h, hash))"
  shows "\<exists>m. median_time_past R (nd_storage n) hash = Inr m \<and>
    is_median m (mtp_window (view (nd_storage n)) h) \<and>
    length (mtp_window (view (nd_storage n)) h) = min 11 (unat h + 1)"
proof -
  from node_reachable_inv [OF assms(2)] have s: "store_inv C (view (nd_storage n))"
    by (simp add: node_inv_def)
  from store_inv_tip [OF s assms(3)] obtain tip where
    "store_block (view (nd_storage n)) hash = Inr (Some tip)" "height (header tip) = h" by blast
  with redb_healthy.median_time_past_ok [OF assms(1) this(1)] store_inv_indexed [OF s assms(3)]
  show ?thesis by (auto simp: mtp_window_def)
qed

theorem median_time_past_is_median_witness:
  "\<exists>m. median_time_past mem_redb (nd_storage boot_node) (block_hash flat_crypto (create_genesis_block flat_crypto))
     = Inr m \<and> is_median m (mtp_window (nd_storage boot_node) 0)"
  using median_time_past_is_median [OF mem.redb_healthy_axioms boot_node_reachable] boot_node_tip by auto

end
