(* ===== verification/Miner.thy ===== *)
theory Miner
  imports Node_System
begin

text \<open>
  The mining client of the binary \<open>aurion\<close>: the coinbase transaction (\<open>mine/coinbase.rs\<close>), the
  compact encoding of a full target and the nonce search (\<open>mine/engine.rs\<close>), and one round of
  the mining loop (\<open>mine/mod.rs\<close>). The search runs on a thread pool of the crate \<open>rayon\<close>: the
  outcome of building the pool and the choice among several solutions of a batch are parameters.
  The probe for a GPU only writes to the log.
\<close>

unbundle bit_operations_syntax

section \<open>The coinbase transaction\<close>

definition bip34_push :: "u64 \<Rightarrow> u64 \<Rightarrow> bytes" where
  "bip34_push h extra_nonce = to_be_bytes h @ to_be_bytes extra_nonce"

definition build_coinbase_transaction ::
    "u64 \<Rightarrow> bytes \<Rightarrow> quantum \<Rightarrow> quantum \<Rightarrow> u64 \<Rightarrow> (string, transaction) result" where
  "build_coinbase_transaction h payout_script subsidy fees extra_nonce =
     bindR (map_err (\<lambda>_. ''coinbase reward overflow'') (quantum_checked_add subsidy fees))
       (\<lambda>total_reward.
         Inr \<lparr>tx_version = 1,
              inputs = [\<lparr>previous_output = OutPoint_new ZERO_HASH 0xFFFFFFFF,
                         unlocking_script = bip34_push h extra_nonce, sequence = 0xFFFFFFFF,
                         redeemer = None\<rparr>],
              outputs = [\<lparr>out_value = total_reward, locking_script = payout_script,
                          out_datum = DatumNone\<rparr>],
              locktime = 0\<rparr>)"

section \<open>Compact encoding of a target\<close>

definition byte_at :: "bytes \<Rightarrow> usize \<Rightarrow> u8" where
  "byte_at target idx = (if idx < length target then target ! idx else 0)"

text \<open>The loop for the first non-zero byte; 32 when there is none.\<close>

fun first_nonzero :: "usize \<Rightarrow> bytes \<Rightarrow> usize" where
  "first_nonzero idx [] = 32"
| "first_nonzero idx (byte # bs) = (if byte \<noteq> 0 then idx else first_nonzero (idx + 1) bs)"

definition target_to_bits :: "bytes \<Rightarrow> u32" where
  "target_to_bits target =
     (let hi = first_nonzero 0 target in
      if hi = 32 then 0
      else
        let exponent = saturating_sub (32 :: u32) (of_nat hi);
            (m0, m1, m2) =
              (if exponent < 3 then (byte_at target 29, byte_at target 30, byte_at target 31)
               else let start = unat (saturating_sub 32 exponent) in
                 (byte_at target start, byte_at target (usize_saturating_add start 1),
                  byte_at target (usize_saturating_add start 2)));
            exponent = max exponent 3;
            mantissa = push_bit 16 (ucast m0) OR push_bit 8 (ucast m1) OR (ucast m2 :: u32);
            (exponent, mantissa) =
              (if mantissa AND 0x00800000 \<noteq> 0 \<and> exponent < 32
               then ((case checked_add exponent 1 of Some e \<Rightarrow> e | None \<Rightarrow> 32), drop_bit 8 mantissa)
               else (exponent, mantissa))
        in push_bit 24 exponent OR mantissa)"

lemma or_push_bit:
  fixes x y :: "'a::len word"
  assumes y: "unat y < 2 ^ n" and x: "unat x * 2 ^ n < 2 ^ LENGTH('a)"
  shows "unat (push_bit n x OR y) = unat x * 2 ^ n + unat y"
    and "drop_bit n (push_bit n x OR y) = x" and "take_bit n (push_bit n x OR y) = y"
proof -
  have ux: "unat (push_bit n x) = unat x * 2 ^ n"
    by (simp only: unsigned_push_bit_eq) (simp add: push_bit_eq_mult take_bit_nat_eq_self x)
  have "unat (drop_bit n (push_bit n x)) = unat x"
    by (simp only: unat_drop_bit_eq ux) (simp add: drop_bit_eq_div)
  then have dx: "drop_bit n (push_bit n x) = x" by (simp only: word_unat_eq_iff)
  have "unat (drop_bit n y) = 0"
    using y by (simp only: unat_drop_bit_eq) (simp add: drop_bit_eq_div)
  then have dy: "drop_bit n y = 0" by (simp only: unat_eq_0)
  show d: "drop_bit n (push_bit n x OR y) = x" by (simp only: drop_bit_or dx dy or.right_neutral)
  have "unat (take_bit n y) = unat y"
    using y by (simp only: unsigned_take_bit_eq) (simp add: take_bit_nat_eq_self)
  then have ty: "take_bit n y = y" by (simp only: word_unat_eq_iff)
  have tx: "take_bit n (push_bit n x) = 0" by (simp add: take_bit_push_bit)
  show t: "take_bit n (push_bit n x OR y) = y" by (simp only: take_bit_or tx ty or.left_neutral)
  have "unat (push_bit n x OR y) = unat (drop_bit n (push_bit n x OR y)) * 2 ^ n
      + unat (take_bit n (push_bit n x OR y))"
    by (simp only: unat_drop_bit_eq unsigned_take_bit_eq) (simp only: drop_bit_eq_div take_bit_eq_mod div_mult_mod_eq)
  then show "unat (push_bit n x OR y) = unat x * 2 ^ n + unat y" by (simp only: d t)
qed

definition compact_of :: "nat \<Rightarrow> u32 \<Rightarrow> u32" where
  "compact_of e m = push_bit 24 (of_nat e) OR m"

lemma compact_of_parts:
  assumes "e < 256" "unat m < 2 ^ 23"
  shows "compact_exponent (compact_of e m) = e" "compact_mantissa (compact_of e m) = m"
proof -
  have e: "unat (of_nat e :: u32) = e" using assms(1) by (simp add: take_bit_nat_eq_self)
  have "drop_bit 24 (compact_of e m) = of_nat e" "take_bit 24 (compact_of e m) = m"
    using or_push_bit [of m 24 "of_nat e"] assms e by (simp_all add: compact_of_def)
  moreover have "compact_mantissa (compact_of e m) = take_bit 23 (take_bit 24 (compact_of e m))"
    by (simp add: compact_mantissa_def) (simp add: take_bit_eq_mask mask_eq_exp_minus_1)
  moreover have "take_bit 23 m = m"
    using assms(2) by (simp add: word_unat_eq_iff unsigned_take_bit_eq take_bit_nat_eq_self)
  ultimately show "compact_exponent (compact_of e m) = e" "compact_mantissa (compact_of e m) = m"
    using e by (simp_all add: compact_exponent_def)
qed

lemma mantissa_unat:
  "unat (push_bit 16 (ucast a) OR push_bit 8 (ucast b) OR (ucast c :: u32)) =
     unat a * 65536 + unat b * 256 + unat (c :: u8)" for a b :: u8
proof -
  have u: "unat (ucast w :: u32) = unat w" for w :: u8
    by (simp add: unsigned_ucast_eq take_bit_nat_eq_self order_less_le_trans [OF unat_bound])
  have lt: "unat w < 256" for w :: u8 using unat_bound [of w] by simp
  have 1: "unat (push_bit 8 (ucast a) OR (ucast b :: u32)) = unat a * 256 + unat b"
    using or_push_bit(1) [of "ucast b :: u32" 8 "ucast a"] lt [of a] lt [of b] by (simp add: u)
  have "push_bit 16 (ucast a) OR push_bit 8 (ucast b) OR (ucast c :: u32) =
      push_bit 8 (push_bit 8 (ucast a) OR ucast b) OR ucast c"
    by (simp add: push_bit_or push_bit_push_bit or.assoc)
  then show ?thesis
    using or_push_bit(1) [of "ucast c :: u32" 8 "push_bit 8 (ucast a) OR ucast b"] lt [of a] lt [of b] lt [of c]
    by (simp add: u 1)
qed

lemma top_bit_iff: "unat m < 2 ^ 24 \<Longrightarrow> m AND 0x00800000 \<noteq> 0 \<longleftrightarrow> 2 ^ 23 \<le> unat (m :: u32)"
proof -
  assume m: "unat m < 2 ^ 24"
  have "m AND 0x00800000 \<noteq> 0 \<longleftrightarrow> bit m 23"
    using and_exp_eq_0_iff_not_bit [of m 23] by simp
  also have "\<dots> \<longleftrightarrow> bit (unat m) 23"
    by (simp add: bit_unsigned_iff)
  also have "\<dots> \<longleftrightarrow> odd (unat m div 2 ^ 23)"
    by (rule bit_iff_odd)
  also have "\<dots> \<longleftrightarrow> 2 ^ 23 \<le> unat m"
  proof -
    have "unat m div 2 ^ 23 < 2" using m by (simp add: less_mult_imp_div_less)
    then have "unat m div 2 ^ 23 = 0 \<or> unat m div 2 ^ 23 = 1" by linarith
    then show ?thesis by (auto simp: div_eq_0_iff)
  qed
  finally show ?thesis .
qed

lemma first_nonzero_replicate:
  "first_nonzero idx (replicate k 0 @ bs) = first_nonzero (idx + k) bs"
  by (induction k arbitrary: idx) simp_all

text \<open>The encoding of a target by the position of its first non-zero byte.\<close>

lemma target_to_bits_lead:
  assumes x: "x \<noteq> 0" and len: "k + Suc (length bs) = 32" and k: "k \<le> 29"
  shows "target_to_bits (replicate k 0 @ x # bs) =
    (let m = unat x * 65536 + unat (bs ! 0) * 256 + unat (bs ! 1) in
     if 2 ^ 23 \<le> m \<and> 0 < k then compact_of (33 - k) (of_nat (m div 256))
     else compact_of (32 - k) (of_nat m))"
proof -
  let ?t = "replicate k 0 @ x # bs" and ?m = "unat x * 65536 + unat (bs ! 0) * 256 + unat (bs ! 1)"
  define mant :: u32 where "mant = push_bit 16 (ucast x) OR push_bit 8 (ucast (bs ! 0)) OR ucast (bs ! 1)"
  have hi: "first_nonzero 0 ?t = k" using x by (simp add: first_nonzero_replicate)
  have ex: "saturating_sub 32 (of_nat k) = (of_nat (32 - k) :: u32)"
  proof -
    have "unat (of_nat k :: u32) = k" using k by (simp add: take_bit_nat_eq_self)
    moreover have "unat (of_nat (32 - k) :: u32) = 32 - k" by (simp add: take_bit_nat_eq_self)
    ultimately show ?thesis by (simp add: word_unat_eq_iff unat_saturating_sub)
  qed
  have ue: "unat (of_nat (32 - k) :: u32) = 32 - k" "unat (of_nat (33 - k) :: u32) = 33 - k"
    by simp_all
  have start: "unat (saturating_sub 32 (of_nat (32 - k)) :: u32) = k"
    using k by (simp only: unat_saturating_sub ue) simp
  have "\<not> (of_nat (32 - k) :: u32) < 3"
    using k by (simp only: word_less_nat_alt ue) simp
  then have ge: "\<not> (of_nat (32 - k) :: u32) < 3" "max (of_nat (32 - k) :: u32) 3 = of_nat (32 - k)"
    by (simp_all only: not_less max_absorb1)
  have bytes: "byte_at ?t k = x" "byte_at ?t (usize_saturating_add k 1) = bs ! 0"
    "byte_at ?t (usize_saturating_add k 2) = bs ! 1"
    using len k by (simp_all add: byte_at_def usize_saturating_add_def nth_append)
  have um: "unat mant = ?m" unfolding mant_def by (rule mantissa_unat)
  have m24: "?m < 2 ^ 24"
    using unat_bound [of x] unat_bound [of "bs ! 0"] unat_bound [of "bs ! 1"] by simp
  have top: "mant AND 0x00800000 \<noteq> 0 \<longleftrightarrow> 2 ^ 23 \<le> ?m"
    using top_bit_iff [of mant] m24 by (simp only: um)
  have lt32: "(of_nat (32 - k) :: u32) < 32 \<longleftrightarrow> 0 < k"
    using k by (simp only: word_less_nat_alt ue) (simp, arith)
  have inc: "checked_add (of_nat (32 - k) :: u32) 1 = Some (of_nat (33 - k))" if "0 < k"
    using that k by (simp only: checked_add_Some ue) simp
  have "mant = of_nat ?m" by (simp only: um [symmetric]) simp
  moreover have "drop_bit 8 mant = of_nat (?m div 256)"
  proof -
    have "unat (drop_bit 8 mant) = ?m div 256"
      by (simp only: unat_drop_bit_eq um) (simp add: drop_bit_eq_div)
    then show ?thesis by (metis of_nat_unat ucast_id)
  qed
  ultimately show ?thesis
    unfolding target_to_bits_def Let_def hi ex
    using k lt32 top inc
    by (simp only: ge bytes start prod.case if_False mant_def [symmetric] compact_of_def) (auto)
qed

lemma target_value_compact_of:
  "e < 256 \<Longrightarrow> m < 2 ^ 23 \<Longrightarrow>
     target_value (compact_of e (of_nat m)) = (if e = 0 then 0 else m * 256 ^ (e - 3))"
  "3 \<le> e \<Longrightarrow> e \<le> 32 \<Longrightarrow> m < 2 ^ 23 \<Longrightarrow> compact_valid (compact_of e (of_nat m))"
  using compact_of_parts [of e "of_nat m"] by (simp_all add: target_value_def compact_valid_def)

text \<open>Three leading bytes in front of zeros are encoded exactly.\<close>

lemma target_to_bits_block:
  assumes x: "x \<noteq> 0" and len: "k + 3 + j = 32"
    and low: "unat x < 128 \<or> (z = 0 \<and> 0 < k)"
  shows "compact_to_target (target_to_bits (replicate k 0 @ x # y # z # replicate j 0)) =
     Inr (replicate k 0 @ x # y # z # replicate j 0)" (is "_ = Inr ?t")
proof -
  let ?m = "unat x * 65536 + unat y * 256 + unat z"
  have k: "k \<le> 29" using len by simp
  have val: "be_nat ?t = ?m * 256 ^ j"
    by (simp add: be_nat_append be_nat_Cons algebra_simps power_add)
  have enc: "target_to_bits ?t = (if 2 ^ 23 \<le> ?m \<and> 0 < k then compact_of (33 - k) (of_nat (?m div 256))
      else compact_of (32 - k) (of_nat ?m))"
    using target_to_bits_lead [OF x, of k "y # z # replicate j 0"] len k by (simp add: Let_def)
  have b: "unat x < 256" "unat y < 256" "unat z < 256"
    using unat_bound [of x] unat_bound [of y] unat_bound [of z] by simp_all
  show ?thesis
  proof (cases "2 ^ 23 \<le> ?m \<and> 0 < k")
    case True
    then have "z = 0" using low b by auto
    then have m: "?m = (unat x * 256 + unat y) * 256" "?m div 256 = unat x * 256 + unat y" by simp_all
    have j: "33 - k - 3 = Suc j" "3 \<le> 33 - k" "33 - k \<le> 32" using len True by auto
    have lt: "?m div 256 < 2 ^ 23" unfolding m(2) using b by simp
    have "target_value (compact_of (33 - k) (of_nat (?m div 256))) = be_nat ?t"
      using target_value_compact_of(1) [OF _ lt, of "33 - k"] j m val k by (simp add: algebra_simps)
    moreover have "target_to_bits ?t = compact_of (33 - k) (of_nat (?m div 256))"
      unfolding enc by (simp only: True if_True simp_thms)
    ultimately show ?thesis
      using target_value_compact_of(2) [OF j(2,3) lt] len
      by (simp only: compact_to_target_cases(1)) simp
  next
    case False
    with low b have lt: "?m < 2 ^ 23" by auto
    have j: "32 - k - 3 = j" "3 \<le> 32 - k" "32 - k \<le> 32" using len by simp_all
    have "target_value (compact_of (32 - k) (of_nat ?m)) = be_nat ?t"
      using target_value_compact_of(1) [OF _ lt, of "32 - k"] j val k by simp
    moreover have "target_to_bits ?t = compact_of (32 - k) (of_nat ?m)"
      unfolding enc by (simp only: False if_False)
    ultimately show ?thesis
      using target_value_compact_of(2) [OF j(2,3) lt] len
      by (simp only: compact_to_target_cases(1)) simp
  qed
qed

lemma replicate_shift: "replicate (Suc k) 0 @ xs = replicate k 0 @ 0 # xs"
  by (simp add: replicate_append_same flip: replicate_Suc)

text \<open>Targets of at most two bytes take the branch of small exponents.\<close>

lemma target_to_bits_small:
  assumes nz: "a \<noteq> 0 \<or> b \<noteq> 0"
  shows "compact_to_target (target_to_bits (replicate 30 0 @ [a, b])) = Inr (replicate 30 0 @ [a, b])"
proof -
  let ?t = "replicate 30 0 @ [a, b]" and ?m = "unat a * 256 + unat b"
  define mant :: u32 where "mant = push_bit 16 (ucast (0 :: u8)) OR push_bit 8 (ucast a) OR ucast b"
  have um: "unat mant = ?m" using mantissa_unat [of 0 a b] by (simp add: mant_def)
  have m: "?m < 2 ^ 23" using unat_bound [of a] unat_bound [of b] by simp
  have top: "\<not> (mant AND 0x00800000 \<noteq> 0)"
    using top_bit_iff [of mant] m by (simp only: um) simp
  have hi: "first_nonzero 0 ?t = (if a \<noteq> 0 then 30 else 31)"
    using nz by (simp only: first_nonzero_replicate) simp
  have bytes: "byte_at (replicate 30 0 @ [a, b]) 29 = 0" "byte_at (replicate 30 0 @ [a, b]) 30 = a"
    "byte_at (replicate 30 0 @ [a, b]) 31 = b" for a b
    by (simp_all add: byte_at_def nth_append)
  have "target_to_bits ?t = push_bit 24 3 OR mant"
    using top unfolding mant_def target_to_bits_def Let_def hi
    by (cases "a = 0") (simp_all add: bytes saturating_sub_def)
  moreover have "mant = of_nat ?m" by (simp only: um [symmetric]) simp
  ultimately have enc: "target_to_bits ?t = compact_of 3 (of_nat ?m)" by (simp add: compact_of_def)
  have "be_nat ?t = ?m" by (simp add: be_nat_append be_nat_Cons)
  then show ?thesis
    using enc target_value_compact_of [of 3 ?m] m by (simp add: compact_to_target_cases(1))
qed

lemma target_to_bits_compact:
  assumes ok: "compact_to_target b = Inr t"
  shows "compact_to_target (target_to_bits t) = Inr t"
proof (cases "be_nat t = 0")
  case True
  from ok have "length t = 32" by (simp add: compact_to_target_cases(1))
  with True have t: "t = replicate 32 0"
    using nat_be_be_nat [of t] nat_be_be_nat [of "replicate 32 0"] by simp
  have "first_nonzero 0 (replicate 32 0 @ []) = 32" by (simp only: first_nonzero_replicate) simp
  then have "target_to_bits t = 0" by (simp add: target_to_bits_def t)
  then show ?thesis by (simp add: t compact_to_target_def compact_exponent_def compact_mantissa_def)
next
  case False
  let ?e = "compact_exponent b" and ?m = "compact_mantissa b"
  from ok have v: "compact_valid b" "be_nat t = target_value b" by (simp_all add: compact_to_target_cases(1))
  with False have e: "3 \<le> ?e" "?e \<le> 32" by (auto simp: compact_valid_def target_value_def)
  obtain x y z where bs: "[to_be_bytes ?m ! 1, to_be_bytes ?m ! 2, to_be_bytes ?m ! 3] = [x, y, z]" by simp
  define j where "j = ?e - 3"
  have t: "t = replicate (29 - j) 0 @ x # y # z # replicate j 0" and j: "j \<le> 29"
    using compact_to_target_ok [OF e] ok bs e by (simp_all add: j_def)
  have "unat x * 65536 + unat y * 256 + unat z < 2 ^ 23"
    using mantissa_bytes(2) [of b] compact_mantissa_bound [of b] bs by (simp add: be_nat_Cons)
  then have x: "unat x < 128" by simp
  show ?thesis
  proof (cases "x = 0")
    case False
    then show ?thesis unfolding t using x j by (intro target_to_bits_block) simp_all
  next
    case x0: True
    have nz: "y \<noteq> 0 \<or> z \<noteq> 0" using False by (auto simp: t x0 be_nat_append be_nat_Cons)
    consider "y \<noteq> 0" "1 \<le> j" | "j = 0" | "y = 0" "j = 1" | "y = 0" "2 \<le> j" by linarith
    then show ?thesis
    proof cases
      case 1
      then obtain n where n: "j = Suc n" by (cases j) auto
      with j have "29 - n = Suc (29 - j)" by simp
      then have "t = replicate (29 - n) 0 @ y # z # 0 # replicate n 0"
        unfolding t x0 by (simp only: replicate_shift) (simp add: n)
      with 1 j n show ?thesis by (simp only:) (intro target_to_bits_block; simp)
    next
      case 2
      then have "t = replicate 30 0 @ [y, z]" using replicate_shift [of 29, symmetric] by (simp add: t x0)
      with nz target_to_bits_small show ?thesis by simp
    next
      case 3
      then have "t = replicate 30 0 @ [z, 0]"
        by (simp add: t x0 eval_nat_numeral)
      with nz 3 target_to_bits_small [of z 0] show ?thesis by simp
    next
      case 4
      then obtain n where n: "j = Suc (Suc n)" by (metis Suc_diff_Suc add_2_eq_Suc le_add_diff_inverse)
      with j have "29 - n = Suc (Suc (29 - j))" by simp
      then have "t = replicate (29 - n) 0 @ z # 0 # 0 # replicate n 0"
        unfolding t x0 by (simp only: replicate_shift) (simp add: n 4(1))
      with 4 nz j n show ?thesis by (simp only:) (intro target_to_bits_block; simp)
    qed
  qed
qed

section \<open>The nonce search\<close>

definition BATCH_SIZE_PER_ROUND :: u64 where
  "BATCH_SIZE_PER_ROUND = 500000"

definition meets_target :: "'vk crypto \<Rightarrow> block_header \<Rightarrow> bytes \<Rightarrow> u64 \<Rightarrow> bool" where
  "meets_target C hdr target n \<longleftrightarrow>
     lex_cmp (as_bytes (digest C (encode_header (hdr\<lparr>nonce := n\<rparr>)))) target \<noteq> Greater"

text \<open>One batch: \<open>pick\<close> is the solution of the batch that the thread pool reports first.\<close>

definition search_batch ::
    "'vk crypto \<Rightarrow> (u64 list \<Rightarrow> u64) \<Rightarrow> block_header \<Rightarrow> bytes \<Rightarrow> u64 \<Rightarrow> u64 option" where
  "search_batch C pick hdr target base =
     (case filter (meets_target C hdr target)
             (map (\<lambda>offset. base + of_nat offset) [0..<unat BATCH_SIZE_PER_ROUND]) of
        [] \<Rightarrow> None
      | found \<Rightarrow> Some (pick found))"

partial_function (option) mine_loop ::
    "'vk crypto \<Rightarrow> (u64 list \<Rightarrow> u64) \<Rightarrow> block_header \<Rightarrow> bytes \<Rightarrow> u64 \<Rightarrow> block_header option" where
  "mine_loop C pick hdr target base =
     (case search_batch C pick hdr target base of
        Some n \<Rightarrow> Some (hdr\<lparr>nonce := n\<rparr>)
      | None \<Rightarrow> mine_loop C pick hdr target (base + BATCH_SIZE_PER_ROUND))"

text \<open>\<open>None\<close> is a search that never returns.\<close>

definition mine_candidate ::
    "'vk crypto \<Rightarrow> (u64 list \<Rightarrow> u64) \<Rightarrow> (string, unit) result \<Rightarrow> block_header \<Rightarrow> hash256
     \<Rightarrow> (string, block_header) result option" where
  "mine_candidate C pick pool hdr target = (case pool of
     Inl e \<Rightarrow> Some (Inl (''failed to build CPU miner thread pool: '' @ e))
   | Inr _ \<Rightarrow> map_option Inr (mine_loop C pick hdr (as_bytes target) 0))"

section \<open>One round of the mining loop\<close>

definition assemble_candidate ::
    "'vk crypto \<Rightarrow> bytes \<Rightarrow> u64 \<Rightarrow> block_template \<Rightarrow> (string, block_header \<times> transaction list) result" where
  "assemble_candidate C payout_script extra_nonce t =
     bindR (build_coinbase_transaction (bt_height t) payout_script (coinbase_subsidy t)
              QUANTUM_ZERO extra_nonce) (\<lambda>coinbase.
       let txs = coinbase # bt_transactions t;
           root = compute_merkle_root C (map (txid C) txs)
       in Inr (\<lparr>version = 1, prev_block_hash = bt_prev t, merkle_root = root,
                timestamp = bt_timestamp t, bits = target_to_bits (as_bytes (bt_target t)),
                nonce = 0, height = bt_height t\<rparr>, txs))"

definition mine_block ::
    "'vk crypto \<Rightarrow> (u64 list \<Rightarrow> u64) \<Rightarrow> (string, unit) result \<Rightarrow> bytes \<Rightarrow> u64 \<Rightarrow> block_template
     \<Rightarrow> (string, block) result option" where
  "mine_block C pick pool payout_script extra_nonce t =
     (case assemble_candidate C payout_script extra_nonce t of
        Inl e \<Rightarrow> Some (Inl e)
      | Inr (candidate, txs) \<Rightarrow>
          map_option (\<lambda>res. bindR res (\<lambda>solved. Inr \<lparr>header = solved, transactions = txs\<rparr>))
            (mine_candidate C pick pool candidate (bt_target t)))"

datatype round_outcome =
    FetchFailed rpc_error
  | Stopped string
  | Submitted "(rpc_error, submit_result) result"

text \<open>
  The body of the endless loop of \<open>run_miner\<close>, given the two client calls; the second component
  is the next extra nonce.
\<close>

definition miner_round ::
    "'vk crypto \<Rightarrow> (u64 list \<Rightarrow> u64) \<Rightarrow> (string, unit) result
     \<Rightarrow> (bytes \<Rightarrow> (rpc_error, block_template) result) \<Rightarrow> (block \<Rightarrow> (rpc_error, submit_result) result)
     \<Rightarrow> bytes \<Rightarrow> u64 \<Rightarrow> (round_outcome \<times> u64) option" where
  "miner_round C pick pool get_template submit payout_script extra_nonce =
     (case get_template payout_script of
        Inl err \<Rightarrow> Some (FetchFailed err, extra_nonce)
      | Inr t \<Rightarrow>
          let extra_nonce = extra_nonce + 1 in
          map_option (\<lambda>res. (case res of
              Inl e \<Rightarrow> Stopped e
            | Inr block \<Rightarrow> Submitted (submit block), extra_nonce))
            (mine_block C pick pool payout_script extra_nonce t))"

text \<open>
  \<open>run_miner\<close>: the payout script is decoded (crate \<open>hex\<close>), then rounds follow each other until one
  stops with an error. A run is given by the client calls of its rounds; the result lists the
  outcomes of the rounds, and is \<open>None\<close> when a search does not return.
\<close>

fun miner_rounds ::
    "'vk crypto \<Rightarrow> (u64 list \<Rightarrow> u64) \<Rightarrow> (string, unit) result
     \<Rightarrow> ((bytes \<Rightarrow> (rpc_error, block_template) result) \<times> (block \<Rightarrow> (rpc_error, submit_result) result)) list
     \<Rightarrow> bytes \<Rightarrow> u64 \<Rightarrow> round_outcome list option" where
  "miner_rounds C pick pool [] payout_script extra_nonce = Some []"
| "miner_rounds C pick pool ((get_template, submit) # calls) payout_script extra_nonce =
     (case miner_round C pick pool get_template submit payout_script extra_nonce of
        None \<Rightarrow> None
      | Some (Stopped e, _) \<Rightarrow> Some [Stopped e]
      | Some (res, extra_nonce') \<Rightarrow>
          map_option (Cons res) (miner_rounds C pick pool calls payout_script extra_nonce'))"

definition run_miner ::
    "(string \<Rightarrow> (string, bytes) result) \<Rightarrow> 'vk crypto \<Rightarrow> (u64 list \<Rightarrow> u64) \<Rightarrow> (string, unit) result
     \<Rightarrow> ((bytes \<Rightarrow> (rpc_error, block_template) result) \<times> (block \<Rightarrow> (rpc_error, submit_result) result)) list
     \<Rightarrow> string \<Rightarrow> (string, round_outcome list option) result" where
  "run_miner hex_decode C pick pool calls payout_script_hex =
     bindR (map_err (\<lambda>e. ''invalid payout script hex: '' @ e) (hex_decode payout_script_hex))
       (\<lambda>payout_script. Inr (miner_rounds C pick pool calls payout_script 0))"

text \<open>The hash rate of the progress message.\<close>

definition telemetry_kh_s :: "u64 \<Rightarrow> u64 \<Rightarrow> u64" where
  "telemetry_kh_s total_hashes elapsed_ms =
     (let total_k = (case checked_div total_hashes 1000 of None \<Rightarrow> 0 | Some q \<Rightarrow> q) in
      case checked_div (saturating_mul total_k 1000) (max elapsed_ms 1) of None \<Rightarrow> 0 | Some q \<Rightarrow> q)"

section \<open>The search finds exactly the solutions\<close>

lemma search_batch_None:
  assumes "search_batch C pick hdr target base = None" "offset < 500000"
  shows "\<not> meets_target C hdr target (base + of_nat offset)"
proof -
  let ?ns = "map (\<lambda>offset. base + of_nat offset) [0..<unat BATCH_SIZE_PER_ROUND]"
  have "filter (meets_target C hdr target) ?ns = []"
    using assms(1) unfolding search_batch_def
    by (cases "filter (meets_target C hdr target) ?ns") (simp_all only: list.case option.distinct)
  moreover have "base + of_nat offset \<in> set ?ns"
    using assms(2) by (auto simp: BATCH_SIZE_PER_ROUND_def)
  ultimately show ?thesis unfolding filter_empty_conv by blast
qed

lemma search_batch_Some:
  assumes "search_batch C pick hdr target base = Some n" "\<And>xs. xs \<noteq> [] \<Longrightarrow> pick xs \<in> set xs"
  shows "meets_target C hdr target n"
proof -
  from assms(1) obtain xs where "xs \<noteq> []" "pick xs = n"
    "xs = filter (meets_target C hdr target) (map (\<lambda>offset. base + of_nat offset) [0..<unat BATCH_SIZE_PER_ROUND])"
    by (auto simp: search_batch_def split: list.splits)
  with assms(2) [of xs] show ?thesis by auto
qed

lemma mine_loop_sound:
  assumes ret: "mine_loop C pick hdr target base = Some hdr'"
    and law: "\<And>xs. xs \<noteq> [] \<Longrightarrow> pick xs \<in> set xs"
  shows "\<exists>n. hdr' = hdr\<lparr>nonce := n\<rparr> \<and> meets_target C hdr target n"
proof -
  let ?P = "\<lambda>C pick hdr target base hdr'. (\<forall>xs. xs \<noteq> [] \<longrightarrow> pick xs \<in> set xs) \<longrightarrow>
    (\<exists>n. hdr' = hdr\<lparr>nonce := n\<rparr> \<and> meets_target C hdr target n)"
  have "?P C pick hdr target base hdr'"
  proof (rule mine_loop.raw_induct [where P = ?P, OF _ ret], intro impI)
    fix f and C :: "'a crypto" and pick hdr target base hdr'
    assume IH: "\<And>C pick hdr target base hdr'. f C pick hdr target base = Some hdr' \<Longrightarrow> ?P C pick hdr target base hdr'"
      and eq: "(case search_batch C pick hdr target base of
          Some n \<Rightarrow> Some (hdr\<lparr>nonce := n\<rparr>)
        | None \<Rightarrow> f C pick hdr target (base + BATCH_SIZE_PER_ROUND)) = Some hdr'"
      and law: "\<forall>xs. xs \<noteq> [] \<longrightarrow> pick xs \<in> set xs"
    show "\<exists>n. hdr' = hdr\<lparr>nonce := n\<rparr> \<and> meets_target C hdr target n"
    proof (cases "search_batch C pick hdr target base")
      case None
      with eq IH law show ?thesis by simp
    next
      case (Some n)
      with eq search_batch_Some [OF Some] law show ?thesis by auto
    qed
  qed
  with law show ?thesis by blast
qed

lemma mine_loop_complete:
  assumes "meets_target C hdr target (base + of_nat (k * 500000 + offset))" "offset < 500000"
  shows "\<exists>hdr'. mine_loop C pick hdr target base = Some hdr'"
  using assms
proof (induction k arbitrary: base)
  case 0
  then have "search_batch C pick hdr target base \<noteq> None" using search_batch_None by fastforce
  then show ?case by (subst mine_loop.simps) auto
next
  case (Suc k)
  show ?case
  proof (cases "search_batch C pick hdr target base")
    case None
    have "base + of_nat (Suc k * 500000 + offset) = (base + BATCH_SIZE_PER_ROUND) + of_nat (k * 500000 + offset)"
      by (simp add: BATCH_SIZE_PER_ROUND_def algebra_simps)
    with Suc have "\<exists>hdr'. mine_loop C pick hdr target (base + BATCH_SIZE_PER_ROUND) = Some hdr'" by metis
    with None show ?thesis by (subst mine_loop.simps) simp
  next
    case (Some n)
    then show ?thesis by (subst mine_loop.simps) simp
  qed
qed

lemma mine_loop_returns_iff:
  assumes "\<And>xs. xs \<noteq> [] \<Longrightarrow> pick xs \<in> set xs"
  shows "(\<exists>hdr'. mine_loop C pick hdr target 0 = Some hdr') \<longleftrightarrow> (\<exists>n. meets_target C hdr target n)"
proof
  assume "\<exists>n. meets_target C hdr target n"
  then obtain n where "meets_target C hdr target n" by blast
  moreover have "n = 0 + of_nat (unat n div 500000 * 500000 + unat n mod 500000)" by simp
  moreover have "unat n mod 500000 < 500000" by simp
  ultimately show "\<exists>hdr'. mine_loop C pick hdr target 0 = Some hdr'"
    using mine_loop_complete by metis
qed (use mine_loop_sound assms in blast)

section \<open>A mined block\<close>

lemma meets_target_pow:
  assumes "compact_to_target (bits hdr) = Inr target" "meets_target C hdr target n"
  shows "check_pow (header_hash C (hdr\<lparr>nonce := n\<rparr>)) (bits (hdr\<lparr>nonce := n\<rparr>)) = Inr ()"
  using assms by (simp add: check_pow_def meets_target_def header_hash_def)

lemma next_work_target_compact:
  assumes "next_work_target R db hash = Inr target"
  shows "\<exists>bts. compact_to_target bts = Inr (as_bytes target)"
proof -
  have len: "length t = 32" if "compact_to_target bts = Inr t" for bts t
    using that by (simp add: compact_to_target_cases(1))
  let ?bts = "\<lambda>found :: block option. case found of Some block \<Rightarrow> bits (header block) | None \<Rightarrow> MAX_TARGET_BITS"
  from assms obtain found where "(case compact_to_target (?bts found) of Inr t \<Rightarrow> Inr (from_bytes t)
      | Inl _ \<Rightarrow> map_err (\<lambda>e. ''target computation error: '' @ consensus_error_display e)
          (bindR (compact_to_target MAX_TARGET_BITS) (\<lambda>t. Inr (from_bytes t)))) = Inr target"
    unfolding next_work_target_def Let_def bindR_eq_Inr by blast
  then obtain bts t where "compact_to_target bts = Inr t" "target = from_bytes t"
    by (cases "compact_to_target (?bts found)") (auto simp: map_err_eq_Inr)
  with len show ?thesis by auto
qed

lemma mine_candidate_Inr:
  assumes "mine_candidate C pick pool hdr target = Some (Inr solved)"
    and "\<And>xs. xs \<noteq> [] \<Longrightarrow> pick xs \<in> set xs"
  obtains n where "solved = hdr\<lparr>nonce := n\<rparr>" "meets_target C hdr (as_bytes target) n"
proof -
  from assms(1) have "mine_loop C pick hdr (as_bytes target) 0 = Some solved"
    by (auto simp: mine_candidate_def split: sum.splits)
  from mine_loop_sound [OF this assms(2)] that show ?thesis by blast
qed

lemma coinbase_of_template:
  "build_coinbase_transaction h payout s QUANTUM_ZERO en = Inr cb \<longleftrightarrow>
     cb = \<lparr>tx_version = 1,
           inputs = [\<lparr>previous_output = OutPoint_new ZERO_HASH 0xFFFFFFFF,
                      unlocking_script = bip34_push h en, sequence = 0xFFFFFFFF, redeemer = None\<rparr>],
           outputs = [\<lparr>out_value = s, locking_script = payout, out_datum = DatumNone\<rparr>],
           locktime = 0\<rparr>"
proof -
  have "quantum_checked_add s QUANTUM_ZERO = Inr s"
    using quantum_checked_add_Inr [of s QUANTUM_ZERO s] by simp
  then show ?thesis by (auto simp only: build_coinbase_transaction_def map_err_def bindR_def sum.case sum.inject)
qed

lemma mine_block_Inr:
  assumes "mine_block C pick pool payout en t = Some (Inr block)"
    and "\<And>xs. xs \<noteq> [] \<Longrightarrow> pick xs \<in> set xs"
  obtains cb n where
    "transactions block = cb # bt_transactions t" "is_coinbase cb"
    "output_total cb = amount (coinbase_subsidy t)"
    "build_coinbase_transaction (bt_height t) payout (coinbase_subsidy t) QUANTUM_ZERO en = Inr cb"
    "header block = \<lparr>version = 1, prev_block_hash = bt_prev t,
       merkle_root = calculate_merkle_root C block, timestamp = bt_timestamp t,
       bits = target_to_bits (as_bytes (bt_target t)), nonce = n, height = bt_height t\<rparr>"
    "meets_target C (header block) (as_bytes (bt_target t)) n"
proof -
  from assms(1) obtain candidate txs where a: "assemble_candidate C payout en t = Inr (candidate, txs)"
    and m: "map_option (\<lambda>res. bindR res (\<lambda>solved. Inr \<lparr>header = solved, transactions = txs\<rparr>))
      (mine_candidate C pick pool candidate (bt_target t)) = Some (Inr block)"
    by (auto simp: mine_block_def split: sum.splits prod.splits)
  from m obtain solved where s: "mine_candidate C pick pool candidate (bt_target t) = Some (Inr solved)"
    and b: "block = \<lparr>header = solved, transactions = txs\<rparr>" by auto
  from mine_candidate_Inr [OF s assms(2)] obtain n where
    n: "solved = candidate\<lparr>nonce := n\<rparr>" "meets_target C candidate (as_bytes (bt_target t)) n" by blast
  from a obtain cb where cb: "build_coinbase_transaction (bt_height t) payout (coinbase_subsidy t) QUANTUM_ZERO en = Inr cb"
    and c: "txs = cb # bt_transactions t" "candidate = \<lparr>version = 1, prev_block_hash = bt_prev t,
      merkle_root = compute_merkle_root C (map (txid C) txs), timestamp = bt_timestamp t,
      bits = target_to_bits (as_bytes (bt_target t)), nonce = 0, height = bt_height t\<rparr>"
    unfolding assemble_candidate_def bindR_eq_Inr Let_def by auto
  note cb' = cb [unfolded coinbase_of_template]
  show thesis
  proof (rule that [of cb n])
    show "is_coinbase cb" by (simp add: cb' is_coinbase_def OutPoint_new_def)
    show "output_total cb = amount (coinbase_subsidy t)" by (simp add: cb' output_total_def)
    show "meets_target C (header block) (as_bytes (bt_target t)) n"
      using n by (simp add: b meets_target_def)
  qed (simp_all add: b c n(1) cb calculate_merkle_root_def)
qed

lemma distinct_concat_map:
  assumes "distinct es" "\<forall>e\<in>set es. distinct (f e)"
    and "\<And>e e'. e \<in> set es \<Longrightarrow> e' \<in> set es \<Longrightarrow> e \<noteq> e' \<Longrightarrow> set (f e) \<inter> set (f e') = {}"
  shows "distinct (concat (map f es))"
  using assms
proof (induction es)
  case (Cons e es)
  have "set (f e) \<inter> set (f e') = {}" if "e' \<in> set es" for e'
    using Cons.prems(1,3) that by auto
  then have "set (f e) \<inter> \<Union> (set ` f ` set es) = {}" by auto
  with Cons show ?case by auto
qed simp

text \<open>Two selected transactions never share an input.\<close>

lemma selection_spends:
  assumes inv: "pool_inv C M" and single: "\<forall>tx\<in>set (select_transactions_for_block M MAX_BLOCK_PAYLOAD_BYTES). distinct (tx_spends tx)"
  shows "distinct (concat (map tx_spends (select_transactions_for_block M MAX_BLOCK_PAYLOAD_BYTES)))"
    and "\<forall>tx\<in>set (select_transactions_for_block M MAX_BLOCK_PAYLOAD_BYTES). \<not> is_coinbase tx"
proof -
  have "MAX_BLOCK_PAYLOAD_BYTES + 100000 < 2 ^ 64" by (simp add: MAX_BLOCK_PAYLOAD_BYTES_def)
  from select_transactions_spec [OF inv this] obtain es where
    es: "select_transactions_for_block M MAX_BLOCK_PAYLOAD_BYTES = map me_tx es" "distinct es"
      "set es \<subseteq> snd ` set (by_txid M)" by blast
  have "set (tx_spends (me_tx e)) \<inter> set (tx_spends (me_tx e')) = {}"
    if "e \<in> set es" "e' \<in> set es" "e \<noteq> e'" for e e'
  proof (rule ccontr)
    assume "\<not> ?thesis"
    then obtain op where op: "op \<in> set (tx_spends (me_tx e))" "op \<in> set (tx_spends (me_tx e'))" by auto
    from es(3) that obtain k k' where k: "(k, e) \<in> set (by_txid M)" "(k', e') \<in> set (by_txid M)"
      by fastforce
    from pool_inv_spent [OF inv k(1) op(1)] pool_inv_spent [OF inv k(2) op(2)] have "k = k'" by simp
    with k inv that(3) show False by (auto simp: pool_inv_def dest: eq_key_imp_eq_value)
  qed
  with es single have "distinct (concat (map (\<lambda>e. tx_spends (me_tx e)) es))"
    by (intro distinct_concat_map) auto
  then show "distinct (concat (map tx_spends (select_transactions_for_block M MAX_BLOCK_PAYLOAD_BYTES)))"
    by (simp add: es comp_def)
  show "\<forall>tx\<in>set (select_transactions_for_block M MAX_BLOCK_PAYLOAD_BYTES). \<not> is_coinbase tx"
    using es inv by (auto simp: pool_inv_def entry_wf_def Let_def)
qed

lemma mined_structure:
  assumes mined: "mine_block C pick pool payout en t = Some (Inr block)"
    and pick: "\<And>xs. xs \<noteq> [] \<Longrightarrow> pick xs \<in> set xs"
    and sub: "coinbase_subsidy t = calculate_block_subsidy_rpc (bt_height t)"
    and pos: "bt_height t \<noteq> 0" and txs: "\<forall>tx\<in>set (bt_transactions t). \<not> is_coinbase tx"
    and target: "compact_to_target bts = Inr (as_bytes (bt_target t))"
  shows "block_structure_ok C block (bt_height t) \<and> height (header block) = bt_height t \<and>
    prev_block_hash (header block) = bt_prev t \<and> block_spends block = concat (map tx_spends (bt_transactions t)) \<and>
    (\<exists>cb. transactions block = cb # bt_transactions t \<and> is_coinbase cb)"
proof -
  from mine_block_Inr [OF mined pick] obtain cb n where
    b: "transactions block = cb # bt_transactions t" "is_coinbase cb"
      "output_total cb = amount (coinbase_subsidy t)"
    and h: "header block = \<lparr>version = 1, prev_block_hash = bt_prev t,
       merkle_root = calculate_merkle_root C block, timestamp = bt_timestamp t,
       bits = target_to_bits (as_bytes (bt_target t)), nonce = n, height = bt_height t\<rparr>"
    and n: "meets_target C (header block) (as_bytes (bt_target t)) n" by blast
  have bt: "bits (header block) = target_to_bits (as_bytes (bt_target t))"
    "(header block)\<lparr>nonce := n\<rparr> = header block" by (simp_all add: h)
  from meets_target_pow [OF _ n] target_to_bits_compact [OF target] bt
  have "check_pow (block_hash C block) (bits (header block)) = Inr ()"
    by (simp add: block_hash_def)
  then have pow: "compact_valid (bits (header block))"
    "unat (block_hash C block) \<le> target_value (bits (header block))"
    by (simp_all add: check_pow_ok_iff)
  have cap: "output_total cb \<le> unat (allowed_subsidy (bt_height t))"
    using b(3) sub pos by (simp add: unat_allowed_subsidy amount_calculate_block_subsidy_rpc)
  have "block_structure_ok C block (bt_height t)"
    using pow cap txs b unfolding block_structure_ok_def by (simp add: h list_all_iff)
  moreover have "block_spends block = concat (map tx_spends (bt_transactions t))"
  proof -
    have "filter (\<lambda>tx. \<not> is_coinbase tx) (bt_transactions t) = bt_transactions t"
      using txs by (simp add: filter_id_conv)
    with b show ?thesis by (simp add: block_spends_def)
  qed
  ultimately show ?thesis using b h by simp
qed

lemma mined_accepted:
  assumes healthy: "redb_healthy R view wview rview" and reach: "node_reachable view wview rview C n"
    and run: "auth_state (nd_authority n) = Running" and tmpl: "build_template R n = Inr t"
    and fresh: "\<And>tx. tx \<in> set (bt_transactions t) \<Longrightarrow> distinct (tx_spends tx) \<and> (\<exists>spent mtp fee.
      validate_for_mempool C tx (storage_view R (nd_storage n)) spent (bt_height t - 1) mtp = Inr fee)"
    and pick: "\<And>xs. xs \<noteq> [] \<Longrightarrow> pick xs \<in> set xs"
    and mined: "mine_block C pick pool payout en t = Some (Inr block)"
  shows "accepted (fst (service_submit_block R C block n))"
proof -
  let ?s = "view (nd_storage n)"
  from node_reachable_inv [OF reach] have pool: "pool_inv C (nd_mempool n)"
    and tip: "\<exists>tip. store_tip ?s = Inr (Some tip)" by (simp_all add: node_inv_def)
  from tmpl obtain h hash where t: "service_tip R (nd_storage n) = Inr (h, hash)"
    "next_work_target R (nd_storage n) hash = Inr (bt_target t)"
    "unat (bt_height t) = Suc (unat h)" "bt_prev t = hash"
    "coinbase_subsidy t = calculate_block_subsidy_rpc (bt_height t)"
    "bt_transactions t = select_transactions_for_block (nd_mempool n) MAX_BLOCK_PAYLOAD_BYTES"
    by (rule build_template_Inr)
  from next_work_target_compact [OF t(2)] obtain bts
    where target: "compact_to_target bts = Inr (as_bytes (bt_target t))" by blast
  have pos: "bt_height t \<noteq> 0" using t(3) by auto
  note sel = selection_spends [OF pool, folded t(6)]
  from mined_structure [OF mined pick t(5) pos _ target] sel(2) fresh obtain cb where
    b: "block_structure_ok C block (bt_height t)" "height (header block) = bt_height t"
      "prev_block_hash (header block) = bt_prev t" "block_spends block = concat (map tx_spends (bt_transactions t))"
      "transactions block = cb # bt_transactions t" "is_coinbase cb" by blast
  have view: "storage_view R (nd_storage n) = (\<lambda>op. map_option (\<lambda>out. from_output out 0 False) (store_lookup ?s op))"
    by (simp add: fun_eq_iff storage_view_def redb_healthy.get_utxo_ok [OF healthy] store_lookup_def
        split: sum.split option.split)
  have "tx_conserves (store_lookup ?s) tx \<and> tx_authorized C (store_lookup ?s) (bt_height t) tx"
    if "tx \<in> set (bt_transactions t)" for tx
    using fresh [OF that] admitted_confirms [of C tx "store_lookup ?s" _ "bt_height t - 1"]
    by (auto simp: view)
  then have "block_invariants_ok C block (store_lookup ?s)"
    using b sel(1) fresh by (simp add: block_invariants_ok_def list_all_iff)
  moreover have "connects ?s block"
    using tip t b by (auto simp: connects_def service_tip_def redb_healthy.get_tip_ok [OF healthy] expected_next_Inr)
  ultimately show ?thesis
    using run b(1,2) redb_healthy.process_accepts_iff [OF healthy, of C "nd_authority n" block]
    by (simp add: submit_accepted_iff)
qed

section \<open>A node that mines on its own template\<close>

lemma flat_mine_block:
  "\<exists>block. mine_block flat_crypto hd (Inr ()) payout en t = Some (Inr block)"
proof -
  obtain cb where "build_coinbase_transaction (bt_height t) payout (coinbase_subsidy t) QUANTUM_ZERO en = Inr cb"
    by (simp only: coinbase_of_template)
  then obtain candidate txs where a: "assemble_candidate flat_crypto payout en t = Inr (candidate, txs)"
    by (simp add: assemble_candidate_def Let_def)
  have "meets_target flat_crypto candidate (as_bytes (bt_target t)) 0"
    by (simp add: meets_target_def flat_crypto_def digest_def lex_cmp_be_nat as_bytes_def be_nat_to_be_bytes [of 32])
  with mine_loop_returns_iff [of hd flat_crypto candidate "as_bytes (bt_target t)"]
  obtain solved where "mine_loop flat_crypto hd candidate (as_bytes (bt_target t)) 0 = Some solved" by auto
  with a show ?thesis by (simp add: mine_block_def mine_candidate_def)
qed

lemma boot_node_template: "\<exists>t. build_template mem_redb boot_node = Inr t \<and> bt_transactions t = []"
proof -
  have "nd_clock boot_node = Inr 1800000000" by (simp add: boot_node_def)
  from mem.build_template_ok [OF node_reachable_inv [OF boot_node_reachable] this, of 0] boot_node_tip boot_node_time
  obtain t where t: "build_template mem_redb boot_node = Inr t" by auto
  then have "bt_transactions t = select_transactions_for_block (nd_mempool boot_node) MAX_BLOCK_PAYLOAD_BYTES"
    by (rule build_template_Inr)
  with t show ?thesis by (auto simp: boot_node_def Mempool_new_def select_transactions_for_block_def)
qed

section \<open>The mining loop\<close>

lemma coinbase_total: "\<exists>cb. build_coinbase_transaction h payout s QUANTUM_ZERO en = Inr cb"
  unfolding coinbase_of_template by (rule exI) (rule refl)

lemma miner_round_goes_on:
  assumes "miner_round C pick (Inr ()) get submit payout en = Some (res, en')"
  shows "res \<noteq> Stopped e"
proof (cases "get payout")
  case (Inl err)
  with assms show ?thesis by (auto simp: miner_round_def)
next
  case (Inr t)
  obtain cb where cb: "build_coinbase_transaction (bt_height t) payout (coinbase_subsidy t) QUANTUM_ZERO (en + 1) = Inr cb"
    using coinbase_total by blast
  obtain candidate txs where "assemble_candidate C payout (en + 1) t = Inr (candidate, txs)"
    by (simp add: assemble_candidate_def cb Let_def)
  with assms Inr show ?thesis
    by (auto simp: miner_round_def mine_block_def mine_candidate_def)
qed

lemma miner_rounds_go_on:
  "miner_rounds C pick (Inr ()) calls payout en = Some outs \<Longrightarrow>
     length outs = length calls \<and> (\<forall>e. Stopped e \<notin> set outs)"
proof (induction calls arbitrary: en outs)
  case (Cons call calls)
  obtain get submit where c: "call = (get, submit)" by (cases call)
  with Cons.prems obtain res en' where r: "miner_round C pick (Inr ()) get submit payout en = Some (res, en')"
    by (auto split: option.splits)
  from Cons.prems obtain outs' where "outs = res # outs'"
    "miner_rounds C pick (Inr ()) calls payout en' = Some outs'"
    using miner_round_goes_on [OF r] by (auto simp: c r split: round_outcome.splits)
  with Cons.IH miner_round_goes_on [OF r] show ?case by auto
qed simp

lemma bip34_push_inj: "bip34_push h en = bip34_push h' en' \<longleftrightarrow> h = h' \<and> en = en'"
proof -
  have "to_be_bytes h = to_be_bytes h' \<Longrightarrow> h = h'" for h h' :: u64
    by (metis from_to_be_simps(3))
  then show ?thesis by (auto simp: bip34_push_def)
qed

section \<open>Properties\<close>

text \<open>C28: the compact encoding loses nothing. Every target that some compact form decodes to is
  encoded by the miner into bits that decode to exactly that target.\<close>

theorem target_to_bits_roundtrip:
  assumes "compact_to_target b = Inr t"
  shows "compact_to_target (target_to_bits t) = Inr t"
  by (rule target_to_bits_compact [OF assms])

theorem target_to_bits_roundtrip_witness:
  "\<exists>t. compact_to_target MAX_TARGET_BITS = Inr t \<and> compact_to_target (target_to_bits t) = Inr t"
  using max_target_ok target_to_bits_roundtrip by blast

text \<open>C32: coinbases are unique. Two coinbases the miner builds with the same id carry the same height
  and the same extra nonce, unless their encodings collide under the hash.\<close>

theorem coinbase_txid_unique:
  assumes "build_coinbase_transaction h payout s fees en = Inr cb"
    and "build_coinbase_transaction h' payout' s' fees' en' = Inr cb'"
    and "txid C cb = txid C cb'" and "wf_vec payout" "wf_vec payout'"
  shows "(h = h' \<and> en = en') \<or>
    (encode_tx cb \<noteq> encode_tx cb' \<and> digest C (encode_tx cb) = digest C (encode_tx cb'))"
proof (cases "encode_tx cb = encode_tx cb'")
  case True
  have "wf_tx cb" "wf_tx cb'" using assms(1,2,4,5)
    by (auto simp: build_coinbase_transaction_def wf_defs bip34_push_def)
  with True have "cb = cb'" by (intro tx.enc_inj)
  with assms(1,2) have "bip34_push h en = bip34_push h' en'"
    by (auto simp: build_coinbase_transaction_def)
  then show ?thesis by (simp add: bip34_push_inj)
next
  case False
  with assms(3) show ?thesis by (simp add: txid_def)
qed

theorem coinbase_txid_unique_witness:
  "\<exists>cb. build_coinbase_transaction 1 [] QUANTUM_ZERO QUANTUM_ZERO 1 = Inr cb \<and>
     ((1 :: u64) = 1 \<and> (1 :: u64) = 1 \<or>
      encode_tx cb \<noteq> encode_tx cb \<and> digest flat_crypto (encode_tx cb) = digest flat_crypto (encode_tx cb))"
proof -
  obtain cb where cb: "build_coinbase_transaction 1 [] QUANTUM_ZERO QUANTUM_ZERO 1 = Inr cb"
    using coinbase_total by blast
  from coinbase_txid_unique [OF cb cb refl, of flat_crypto] cb show ?thesis by (auto simp: wf_vec_def)
qed

text \<open>The miner survives its node. Whatever the RPC calls return, transport errors and rejections
  included, every round has an outcome and none ends the loop, as long as the thread pool can be
  built.\<close>

theorem miner_survives_rpc_failures:
  assumes "hex_decode payout_hex = Inr payout"
    and "run_miner hex_decode C pick (Inr ()) calls payout_hex = Inr (Some outs)"
  shows "length outs = length calls \<and> (\<forall>e. Stopped e \<notin> set outs)"
proof -
  from assms have "miner_rounds C pick (Inr ()) calls payout 0 = Some outs"
    by (simp add: run_miner_def)
  then show ?thesis by (rule miner_rounds_go_on)
qed

theorem miner_survives_rpc_failures_witness:
  "run_miner (\<lambda>_. Inr []) flat_crypto hd (Inr ())
     [(\<lambda>_. Inl (ConnectionFailed ''refused''), \<lambda>_. Inl ProtocolMismatch)] ''00''
     = Inr (Some [FetchFailed (ConnectionFailed ''refused'')]) \<and>
   (\<forall>e. Stopped e \<notin> set [FetchFailed (ConnectionFailed ''refused'')])"
proof -
  have run: "run_miner (\<lambda>_. Inr []) flat_crypto hd (Inr ())
     [(\<lambda>_. Inl (ConnectionFailed ''refused''), \<lambda>_. Inl ProtocolMismatch)] ''00''
     = Inr (Some [FetchFailed (ConnectionFailed ''refused'')])"
    by (simp add: run_miner_def miner_round_def)
  from miner_survives_rpc_failures [OF refl run] run show ?thesis by simp
qed

text \<open>C29: termination of the nonce search. Whichever solution of a batch the thread pool picks, the
  search returns exactly when some 64-bit nonce solves the header; otherwise it runs forever.\<close>

theorem mine_candidate_terminates:
  assumes "\<And>xs. xs \<noteq> [] \<Longrightarrow> pick xs \<in> set xs"
  shows "(\<exists>solved. mine_candidate C pick (Inr ()) hdr target = Some (Inr solved)) \<longleftrightarrow>
    (\<exists>n. lex_cmp (as_bytes (header_hash C (hdr\<lparr>nonce := n\<rparr>))) (as_bytes target) \<noteq> Greater)"
  using mine_loop_returns_iff [OF assms, where C = C and hdr = hdr and target = "as_bytes target"]
  by (auto simp: mine_candidate_def meets_target_def header_hash_def)

theorem mine_candidate_terminates_witness:
  "\<exists>solved. mine_candidate flat_crypto hd (Inr ()) (header (demo_block 0 [])) 0 = Some (Inr solved)"
proof -
  have "lex_cmp (as_bytes (header_hash flat_crypto ((header (demo_block 0 []))\<lparr>nonce := 0\<rparr>))) (as_bytes 0) \<noteq> Greater"
    by (simp add: header_hash_def lex_cmp_be_nat)
  with mine_candidate_terminates [of hd flat_crypto "header (demo_block 0 [])" 0] show ?thesis by auto
qed

text \<open>A mined block is accepted. On a working database a running, reachable node accepts the block
  that the miner assembles and solves from the node's own template, for any payout script, as
  long as the pooled transactions of the template would still pass admission at the tip and name
  no output twice.\<close>

theorem mined_block_accepted:
  assumes healthy: "redb_healthy R view wview rview" and reach: "node_reachable view wview rview C n"
    and run: "auth_state (nd_authority n) = Running" and tmpl: "build_template R n = Inr t"
    and fresh: "\<And>tx. tx \<in> set (bt_transactions t) \<Longrightarrow> distinct (tx_spends tx) \<and> (\<exists>spent mtp fee.
      validate_for_mempool C tx (storage_view R (nd_storage n)) spent (bt_height t - 1) mtp = Inr fee)"
    and pick: "\<And>xs. xs \<noteq> [] \<Longrightarrow> pick xs \<in> set xs"
    and mined: "mine_block C pick pool payout en t = Some (Inr block)"
  shows "accepted (fst (service_submit_block R C block n))"
  by (rule mined_accepted [OF healthy reach run tmpl fresh pick mined])

theorem mined_block_accepted_witness:
  "\<exists>t block. build_template mem_redb boot_node = Inr t \<and>
     mine_block flat_crypto hd (Inr ()) [] 1 t = Some (Inr block) \<and>
     accepted (fst (service_submit_block mem_redb flat_crypto block boot_node))"
proof -
  obtain t where t: "build_template mem_redb boot_node = Inr t" "bt_transactions t = []"
    using boot_node_template by blast
  obtain block where b: "mine_block flat_crypto hd (Inr ()) [] 1 t = Some (Inr block)"
    using flat_mine_block by blast
  have "auth_state (nd_authority boot_node) = Running" by (simp add: boot_node_def genesis_node_eq)
  from mined_block_accepted [OF mem.redb_healthy_axioms boot_node_reachable this t(1) _ _ b] t b
  show ?thesis by auto
qed

end
