(* ===== verification/Daemon.thy ===== *)
theory Daemon
  imports Miner
begin

text \<open>
  The daemon process around the node: start-up with its arguments (\<open>run\<close> and
  \<open>bootstrap_gossip\<close> of \<open>commands/node.rs\<close>, \<open>PeerNetworkSession::bootstrap\<close> of \<open>session.rs\<close>), the
  accept loop of \<open>RpcServer::run\<close> and the interleaving of its connection tasks. A connection
  task is a sequence of turns, each reading one frame, running one handler and writing one
  frame; turns of different connections, frames from peers and the clock interleave freely. The
  handler call inside a turn is one step; the theory \<open>Concurrency\<close> interleaves the parts of the
  calls themselves. The last part is the miner as a client of such a server.
\<close>

section \<open>Start-up\<close>

text \<open>Opening a peer session; reading the configuration and opening it are calls of \<open>zenoh\<close>.\<close>

definition PeerNetworkSession_bootstrap ::
    "(string \<Rightarrow> (string, 'cfg) result) \<Rightarrow> ('cfg \<Rightarrow> (string, 's) result) \<Rightarrow> network_config
     \<Rightarrow> (network_error, 's) result" where
  "PeerNetworkSession_bootstrap from_json5 zenoh_open config =
     bindR (map_err TransportError (from_json5 (to_zenoh_json5 config))) (\<lambda>zenoh_config.
       map_err TransportError (zenoh_open zenoh_config))"

definition bootstrap_gossip ::
    "(network_config \<Rightarrow> (network_error, 's) result) \<Rightarrow> node_args \<Rightarrow> (string, 's option) result" where
  "bootstrap_gossip boot args = (case bootstrap_config args of
     None \<Rightarrow> Inr None
   | Some net_cfg \<Rightarrow>
       bindR (map_err (\<lambda>e. ''P2P bootstrap failed: '' @ network_error_display e) (boot net_cfg)) (\<lambda>s.
         Inr (Some s)))"

text \<open>\<open>PathBuf::join\<close> with a relative name.\<close>

definition path_join :: "string \<Rightarrow> string \<Rightarrow> string" where
  "path_join dir name =
     (if dir = [] \<or> last dir = CHR 0x2F then dir @ name else dir @ [CHR 0x2F] @ name)"

section \<open>Turns of a connection\<close>

datatype turn = Ended "(rpc_error, unit) result" | Continues

text \<open>
  One passage through the loop of \<open>handle_connection\<close>, with what it leaves of the two halves of the
  socket. A request that was read stays read, also when it does not decode or its answer cannot be
  written, and a write that fails may have sent a part of the answer. The bytes of a frame that
  never completes are left unread.
\<close>

definition serve_one :: "'n rpc_handler \<Rightarrow> reader \<Rightarrow> writer \<Rightarrow> 'n \<Rightarrow> turn \<times> reader \<times> writer \<times> 'n" where
  "serve_one H r w n = (case read_frame r of
     Inl e \<Rightarrow> (Ended (if e = RpcIo IoUnexpectedEof then Inr () else Inl e), r, w, n)
   | Inr (bs, r') \<Rightarrow>
       (case decode_canonical decode_request bs of
          Inl e \<Rightarrow> (Ended (Inl (RpcSerialization (codec_error_debug e))), r', w, n)
        | Inr request \<Rightarrow>
            (case dispatch H request n of (response, n') \<Rightarrow>
               (case write_frame (encode_response response) w of
                  (Inl e, w') \<Rightarrow> (Ended (Inl e), r', w', n')
                | (Inr _, w') \<Rightarrow> (Continues, r', w', n')))))"

text \<open>The loop of a connection is the iteration of its turns.\<close>

lemma handle_connection_turns:
  "handle_connection H r w n = (case serve_one H r w n of
     (Ended res, r', w', n') \<Rightarrow> (res, w', n')
   | (Continues, r', w', n') \<Rightarrow> handle_connection H r' w' n')"
  by (subst handle_connection.simps) (simp add: serve_one_def split: sum.split prod.split)

text \<open>
  An open or finished connection. \<open>ss_input\<close> records all bytes the client sends; it is used in
  specifications only.
\<close>

record session =
  ss_input :: bytes
  ss_reader :: reader
  ss_writer :: writer
  ss_open :: bool

record 'db daemon =
  dm_node :: "'db node"
  dm_sessions :: "session list"
  dm_listening :: bool

definition new_session :: "reader \<Rightarrow> writer \<Rightarrow> session" where
  "new_session r w = \<lparr>ss_input = rd_bytes r, ss_reader = r,
     ss_writer = w\<lparr>wr_bytes := []\<rparr>, ss_open = True\<rparr>"

text \<open>One result of \<open>accept\<close>: a new connection task, or the end of the accept loop.\<close>

definition server_accept :: "(io_error, reader \<times> writer) result \<Rightarrow> 'db daemon \<Rightarrow> 'db daemon" where
  "server_accept res d =
     (if \<not> dm_listening d then d
      else (case res of
              Inl e \<Rightarrow> d\<lparr>dm_listening := False\<rparr>
            | Inr (r, w) \<Rightarrow> d\<lparr>dm_sessions := dm_sessions d @ [new_session r w]\<rparr>))"

definition session_turn ::
    "('db, 'wtx, 'rtx) redb \<Rightarrow> 'vk crypto \<Rightarrow> nat \<Rightarrow> 'db daemon \<Rightarrow> 'db daemon" where
  "session_turn R C i d =
     (let s = dm_sessions d ! i in
      if i < length (dm_sessions d) \<and> ss_open s then
        (case serve_one (AurionNodeService R C) (ss_reader s) (ss_writer s) (dm_node d) of
           (t, r', w', n') \<Rightarrow>
             d\<lparr>dm_node := n', dm_sessions := (dm_sessions d)
               [i := s\<lparr>ss_reader := r', ss_writer := w', ss_open := (t = Continues)\<rparr>]\<rparr>)
      else d)"

definition run_daemon ::
    "(string \<Rightarrow> (string, unit) result) \<Rightarrow> (network_config \<Rightarrow> (network_error, 's) result)
     \<Rightarrow> (string \<Rightarrow> (io_error, unit) result) \<Rightarrow> ('db, 'wtx, 'rtx) redb \<Rightarrow> 'vk crypto
     \<Rightarrow> node_args \<Rightarrow> (string, u64) result \<Rightarrow> (string, 'db daemon) result" where
  "run_daemon create_dir_all boot bind R C args clock =
     bindR (create_dir_all (datadir args)) (\<lambda>_.
     let db_path = path_join (datadir args) ''aurion.redb'' in
     bindR (bootstrap_gossip boot args) (\<lambda>gossip_engine.
     bindR (execute_node R C db_path (gossip_engine \<noteq> None) clock) (\<lambda>n.
       Inr \<lparr>dm_node = n, dm_sessions = [], dm_listening = is_ok (bind (rpc_bind args))\<rparr>)))"

section \<open>Any bytes on a connection\<close>

text \<open>The part of the node that no client can damage, whatever the hash function: its ledger.\<close>

definition ledger_safe :: "'vk crypto \<Rightarrow> ('db \<Rightarrow> store) \<Rightarrow> 'db node \<Rightarrow> bool" where
  "ledger_safe C view n \<longleftrightarrow> store_inv C (view (nd_storage n)) \<and> lifecycle_inv view (nd_authority n) \<and>
     (\<exists>t. store_tip (view (nd_storage n)) = Inr (Some t))"

lemma ledger_safe_irrelevant [simp]:
  "ledger_safe C view (n\<lparr>nd_mempool := M\<rparr>) = ledger_safe C view n"
  "ledger_safe C view (spawn b n) = ledger_safe C view n"
  by (simp_all add: ledger_safe_def)

context redb_laws
begin

lemma ledger_safe_submit:
  assumes safe: "ledger_safe C view n" and wf: "wf_block block"
  shows "ledger_safe C view (snd (service_submit_block R C block n))"
proof -
  obtain res A' where run: "process_and_commit_block R C (nd_authority n) block = (res, A')"
    by (metis surj_pair)
  have life: "lifecycle_inv view A'"
    using safe by (intro lifecycle_inv_block [OF redb_laws_axioms run]) (simp add: ledger_safe_def)
  show ?thesis
  proof (cases res)
    case (Inl e)
    with process_err(1) [OF run [unfolded Inl]] safe life run show ?thesis
      by (simp add: ledger_safe_def service_submit_block_def)
  next
    case (Inr u)
    have "store_inv C (view (auth_storage A'))"
      using safe by (intro store_inv_process [OF run [unfolded Inr] wf]) (simp add: ledger_safe_def)
    with process_ok(6) [OF run [unfolded Inr]] life run Inr show ?thesis
      by (simp add: ledger_safe_def service_submit_block_def apply_block_tip)
  qed
qed

lemma service_contract: "handler_contract (AurionNodeService R C) (ledger_safe C view)"
proof
  fix n block assume "ledger_safe C view n" "wf_block block"
  then show "ledger_safe C view (snd (handle_submit_block (AurionNodeService R C) block n))"
    by (simp add: AurionNodeService_def ledger_safe_submit)
next
  fix n tx assume "ledger_safe C view n"
  then show "ledger_safe C view (snd (handle_send_raw_tx (AurionNodeService R C) tx n))"
    by (auto simp: AurionNodeService_def service_send_raw_tx_def Let_def split: sum.split prod.split)
qed (simp_all add: AurionNodeService_def service_get_block_template_def service_get_tip_status_def)

end

interpretation mem_service: handler_contract "AurionNodeService mem_redb C" "ledger_safe C id" for C
  by (rule mem.service_contract)

section \<open>The daemon as a step relation\<close>

inductive daemon_step ::
    "('db \<Rightarrow> store) \<Rightarrow> ('wtx \<Rightarrow> store) \<Rightarrow> ('rtx \<Rightarrow> store) \<Rightarrow> 'vk crypto \<Rightarrow> 'db daemon \<Rightarrow> 'db daemon \<Rightarrow> bool"
  for view wview rview C where
    turn_accept: "daemon_step view wview rview C d (server_accept res d)"
  | turn_session: "redb_laws R view wview rview \<Longrightarrow>
      (\<forall>bs r' tx. read_frame (ss_reader (dm_sessions d ! i)) = Inr (bs, r') \<longrightarrow>
         decode_canonical decode_request bs = Inr (SendRawTransaction tx) \<longrightarrow>
         no_collision C (nd_mempool (dm_node d)) tx) \<Longrightarrow>
      daemon_step view wview rview C d (session_turn R C i d)"
  | turn_broken_pipe: "i < length (dm_sessions d) \<Longrightarrow>
      daemon_step view wview rview C d (d\<lparr>dm_sessions := (dm_sessions d)
        [i := (dm_sessions d ! i)\<lparr>ss_writer := (ss_writer (dm_sessions d ! i))
                \<lparr>wr_room := room, wr_flush := fl\<rparr>\<rparr>]\<rparr>)"
  | turn_peer_block: "redb_laws R view wview rview \<Longrightarrow> nd_gossip (dm_node d) \<Longrightarrow>
      daemon_step view wview rview C d (d\<lparr>dm_node := inbound_block R C (decode_block_frame C frame) (dm_node d)\<rparr>)"
  | turn_peer_tx: "redb_laws R view wview rview \<Longrightarrow> nd_gossip (dm_node d) \<Longrightarrow>
      (\<forall>tx. decode_tx_frame C frame = Inr tx \<longrightarrow> no_collision C (nd_mempool (dm_node d)) tx) \<Longrightarrow>
      daemon_step view wview rview C d (d\<lparr>dm_node := inbound_tx R C (decode_tx_frame C frame) (dm_node d)\<rparr>)"
  | turn_clock: "daemon_step view wview rview C d (d\<lparr>dm_node := (dm_node d)\<lparr>nd_clock := t\<rparr>\<rparr>)"
  | turn_restart: "redb_laws R view wview rview \<Longrightarrow>
      db_create R (path_join (datadir args) ''aurion.redb'') = Inr db \<Longrightarrow>
      view db = view (nd_storage (dm_node d)) \<Longrightarrow>
      run_daemon create_dir_all (boot :: network_config \<Rightarrow> (network_error, unit) result) bind R C args t = Inr d' \<Longrightarrow> daemon_step view wview rview C d d'"

inductive daemon_reachable ::
    "('db \<Rightarrow> store) \<Rightarrow> ('wtx \<Rightarrow> store) \<Rightarrow> ('rtx \<Rightarrow> store) \<Rightarrow> 'vk crypto \<Rightarrow> 'db daemon \<Rightarrow> bool"
  for view wview rview C where
    first_start: "redb_laws R view wview rview \<Longrightarrow>
      db_create R (path_join (datadir args) ''aurion.redb'') = Inr db \<Longrightarrow> view db = (\<lambda>_. None) \<Longrightarrow>
      run_daemon create_dir_all (boot :: network_config \<Rightarrow> (network_error, unit) result) bind R C args t = Inr d \<Longrightarrow> daemon_reachable view wview rview C d"
  | daemon_steps: "daemon_reachable view wview rview C d \<Longrightarrow> daemon_step view wview rview C d d' \<Longrightarrow>
      daemon_reachable view wview rview C d'"

lemma run_daemon_starts:
  assumes "run_daemon create_dir_all boot bind R C args t = Inr d"
  shows "dm_sessions d = [] \<and> (\<exists>g. execute_node R C (path_join (datadir args) ''aurion.redb'') g t = Inr (dm_node d))"
  using assms unfolding run_daemon_def bindR_eq_Inr Let_def by auto

text \<open>What one turn read, did and wrote.\<close>

lemma read_frame_bytes:
  assumes "read_frame r = Inr (bs, r')"
  shows "rd_bytes r = frame_of bs @ rd_bytes r'"
proof -
  from assms have l: "4 \<le> length (rd_bytes r)" by (auto simp: read_frame_def read_exact_def split: if_splits)
  let ?n = "unat (from_be_bytes (take 4 (rd_bytes r)) :: u32)"
  from assms l have n: "?n \<le> length (drop 4 (rd_bytes r))" "bs = take ?n (drop 4 (rd_bytes r))"
    "rd_bytes r' = drop ?n (drop 4 (rd_bytes r))"
    by (auto simp: read_frame_def read_exact_def Let_def split: if_splits)
  from n(1,2) have "length bs = ?n" by simp
  then have "to_be_bytes (of_nat (length bs) :: u32) = take 4 (rd_bytes r)"
    using l by (simp add: to_from_be_bytes)
  moreover have "bs @ rd_bytes r' = drop 4 (rd_bytes r)" by (simp only: n append_take_drop_id)
  ultimately have "frame_of bs @ rd_bytes r' = take 4 (rd_bytes r) @ drop 4 (rd_bytes r)"
    by (simp only: frame_of_def append_assoc)
  then show ?thesis by simp
qed

lemma serve_one_dispatches:
  assumes "serve_one H r w n = (t, r', w', n')"
  obtains (idle) res where "t = Ended res" "r' = r" "w' = w" "n' = n"
  | (undecodable) bs e res where "read_frame r = Inr (bs, r')" "decode_canonical decode_request bs = Inl e"
      "t = Ended res" "w' = w" "n' = n"
  | (request) bs req resp sent where "read_frame r = Inr (bs, r')" "decode_canonical decode_request bs = Inr req"
      "dispatch H req n = (resp, n')" "write_frame (encode_response resp) w = (sent, w')"
      "t = Continues \<longleftrightarrow> sent = Inr ()"
  using assms unfolding serve_one_def
  by (auto split: sum.splits prod.splits)

section \<open>The node inside the daemon\<close>

lemma session_turn_node:
  assumes laws: "redb_laws R view wview rview"
    and col: "\<forall>bs r' tx. read_frame (ss_reader (dm_sessions d ! i)) = Inr (bs, r') \<longrightarrow>
         decode_canonical decode_request bs = Inr (SendRawTransaction tx) \<longrightarrow>
         no_collision C (nd_mempool (dm_node d)) tx"
  shows "dm_node (session_turn R C i d) = dm_node d \<or>
    node_step view wview rview C (dm_node d) (dm_node (session_turn R C i d))"
proof -
  let ?s = "dm_sessions d ! i"
  obtain t r' w' n' where one:
    "serve_one (AurionNodeService R C) (ss_reader ?s) (ss_writer ?s) (dm_node d) = (t, r', w', n')"
    by (metis prod_cases4)
  have node: "dm_node (session_turn R C i d) \<in> {dm_node d, n'}"
    by (auto simp: session_turn_def Let_def one)
  from one show ?thesis
  proof (cases rule: serve_one_dispatches)
    case (request bs req resp sent)
    from request(2) have "wf_request req" by (simp add: request.decode_canonical_iff)
    moreover have "\<forall>tx. req = SendRawTransaction tx \<longrightarrow> no_collision C (nd_mempool (dm_node d)) tx"
      using col request(1,2) by blast
    ultimately have "node_step view wview rview C (dm_node d) n'"
      using request(3) by (intro step_rpc [OF laws])
    with node show ?thesis by auto
  qed (use node in auto)
qed

lemma daemon_step_node:
  assumes "daemon_step view wview rview C d d'"
  shows "dm_node d' = dm_node d \<or> node_step view wview rview C (dm_node d) (dm_node d')"
  using assms
proof cases
  case (turn_session R i)
  with session_turn_node [OF turn_session(2,3)] show ?thesis by simp
next
  case (turn_restart R args db create_dir_all boot bind t)
  with run_daemon_starts [OF turn_restart(4)] show ?thesis by (blast intro: step_restart)
qed (auto simp: server_accept_def split: sum.split intro: step_peer_block step_peer_tx step_clock)

lemma daemon_node_reachable:
  "daemon_reachable view wview rview C d \<Longrightarrow> node_reachable view wview rview C (dm_node d)"
proof (induction rule: daemon_reachable.induct)
  case (first_start R args db create_dir_all boot bind t d)
  with run_daemon_starts [OF first_start(4)] show ?case by (blast intro: node_reachable.boot)
next
  case (daemon_steps d d')
  with daemon_step_node [OF daemon_steps(2)] show ?case by (auto intro: node_steps)
qed

section \<open>Transcripts of connections\<close>

text \<open>
  A request with an answer the service gives to it in some reachable state; a transcript splits
  the bytes of a connection into such pairs.
\<close>

definition answered ::
    "('db \<Rightarrow> store) \<Rightarrow> ('wtx \<Rightarrow> store) \<Rightarrow> ('rtx \<Rightarrow> store) \<Rightarrow> 'vk crypto \<Rightarrow> rpc_request \<times> rpc_response \<Rightarrow> bool"
where
  "answered view wview rview C p \<longleftrightarrow> (\<exists>R n. redb_laws R view wview rview \<and>
     node_reachable view wview rview C n \<and> snd p = fst (dispatch (AurionNodeService R C) (fst p) n))"

text \<open>What the last turn of a connection may leave: a frame that is no request, or a request the service
  has carried out with its answer sent in part.\<close>

definition last_exchange ::
    "('db \<Rightarrow> store) \<Rightarrow> ('wtx \<Rightarrow> store) \<Rightarrow> ('rtx \<Rightarrow> store) \<Rightarrow> 'vk crypto \<Rightarrow> bytes \<Rightarrow> bytes \<Rightarrow> bool" where
  "last_exchange view wview rview C tail part \<longleftrightarrow> (\<exists>bs. tail = frame_of bs \<and>
     (case decode_canonical decode_request bs of
        Inl e \<Rightarrow> part = []
      | Inr req \<Rightarrow> \<exists>resp. answered view wview rview C (req, resp) \<and> prefix part (frame_of (encode_response resp))))"

lemma last_exchange_answers:
  "last_exchange view wview rview C tail part \<longleftrightarrow> (\<exists>bs. tail = frame_of bs \<and>
     (case decode_canonical decode_request bs of
        Inl _ \<Rightarrow> part = []
      | Inr req \<Rightarrow> \<exists>R n. redb_laws R view wview rview \<and> node_reachable view wview rview C n \<and>
           prefix part (frame_of (encode_response (fst (dispatch (AurionNodeService R C) req n))))))"
  unfolding last_exchange_def answered_def fst_conv snd_conv
  by (intro arg_cong [where f = Ex] ext conj_cong refl sum.case_cong) blast

definition transcript :: "session \<Rightarrow> (rpc_request \<times> rpc_response) list \<Rightarrow> bytes \<Rightarrow> bytes \<Rightarrow> bool" where
  "transcript s log tail part \<longleftrightarrow>
     ss_input s = concat (map (\<lambda>p. frame_of (encode_request (fst p))) log) @ tail @ rd_bytes (ss_reader s) \<and>
     wr_bytes (ss_writer s) = concat (map (\<lambda>p. frame_of (encode_response (snd p))) log) @ part"

definition session_ok ::
    "('db \<Rightarrow> store) \<Rightarrow> ('wtx \<Rightarrow> store) \<Rightarrow> ('rtx \<Rightarrow> store) \<Rightarrow> 'vk crypto \<Rightarrow> session \<Rightarrow> bool" where
  "session_ok view wview rview C s \<longleftrightarrow>
     (\<exists>log tail part. list_all (answered view wview rview C) log \<and> transcript s log tail part \<and>
        (tail = [] \<and> part = [] \<or> \<not> ss_open s \<and> last_exchange view wview rview C tail part))"

lemma session_ok_new: "session_ok view wview rview C (new_session r w)"
  unfolding session_ok_def by (rule exI [of _ "[]"]) (simp add: new_session_def transcript_def)

lemma session_ok_cong:
  "ss_input s' = ss_input s \<Longrightarrow> ss_reader s' = ss_reader s \<Longrightarrow>
     wr_bytes (ss_writer s') = wr_bytes (ss_writer s) \<Longrightarrow> ss_open s' = ss_open s \<Longrightarrow>
     session_ok view wview rview C s \<Longrightarrow> session_ok view wview rview C s'"
  by (simp add: session_ok_def transcript_def)

lemma session_ok_turn:
  assumes laws: "redb_laws R view wview rview" and reach: "node_reachable view wview rview C n"
    and one: "serve_one (AurionNodeService R C) (ss_reader s) (ss_writer s) n = (t, r', w', n')"
    and ok: "session_ok view wview rview C s" and running: "ss_open s"
  shows "session_ok view wview rview C (s\<lparr>ss_reader := r', ss_writer := w', ss_open := (t = Continues)\<rparr>)"
proof -
  let ?s' = "s\<lparr>ss_reader := r', ss_writer := w', ss_open := (t = Continues)\<rparr>"
  from ok running obtain log where log: "list_all (answered view wview rview C) log" "transcript s log [] []"
    by (auto simp: session_ok_def)
  from one show ?thesis
  proof (cases rule: serve_one_dispatches)
    case (idle res)
    with log have "transcript ?s' log [] []" by (simp add: transcript_def)
    with log(1) show ?thesis unfolding session_ok_def by blast
  next
    case (undecodable bs e res)
    then have "transcript ?s' log (frame_of bs) []" "last_exchange view wview rview C (frame_of bs) []"
      using log(2) read_frame_bytes [OF undecodable(1)] by (auto simp: transcript_def last_exchange_def)
    with log(1) undecodable(3) show ?thesis unfolding session_ok_def by auto
  next
    case (request bs req resp sent)
    from request(2) have bs: "bs = encode_request req" by (simp add: request.decode_canonical_iff)
    from write_frame_sent [OF request(4)] obtain part where
      part: "wr_bytes w' = wr_bytes (ss_writer s) @ part" "prefix part (frame_of (encode_response resp))"
        "sent = Inr () \<longrightarrow> part = frame_of (encode_response resp)" by blast
    have ans: "answered view wview rview C (req, resp)"
      using laws reach request(3) by (auto simp: answered_def intro!: exI [of _ R] exI [of _ n])
    show ?thesis
    proof (cases "t = Continues")
      case True
      then have "transcript ?s' (log @ [(req, resp)]) [] []"
        using log(2) read_frame_bytes [OF request(1)] part request(5) by (simp add: transcript_def bs)
      moreover have "list_all (answered view wview rview C) (log @ [(req, resp)])" using log(1) ans by simp
      ultimately show ?thesis unfolding session_ok_def by blast
    next
      case False
      have "transcript ?s' log (frame_of bs) part"
        using log(2) read_frame_bytes [OF request(1)] part(1) by (simp add: transcript_def)
      moreover have "last_exchange view wview rview C (frame_of bs) part"
        using request(2) ans part(2) by (auto simp: last_exchange_def intro!: exI [of _ bs])
      ultimately show ?thesis using log(1) False unfolding session_ok_def by auto
    qed
  qed
qed

lemma sessions_update: "list_all P ss \<Longrightarrow> P s \<Longrightarrow> list_all P (ss[i := s])"
  using set_update_subset_insert [of ss i s] by (auto simp: list_all_iff)

lemma daemon_step_sessions:
  assumes step: "daemon_step view wview rview C d d'" and reach: "daemon_reachable view wview rview C d"
    and ok: "list_all (session_ok view wview rview C) (dm_sessions d)"
  shows "list_all (session_ok view wview rview C) (dm_sessions d')"
  using step
proof cases
  case (turn_accept res)
  with ok show ?thesis by (auto simp: server_accept_def session_ok_new split: sum.split)
next
  case (turn_session R i)
  let ?s = "dm_sessions d ! i"
  obtain t r' w' n' where one:
    "serve_one (AurionNodeService R C) (ss_reader ?s) (ss_writer ?s) (dm_node d) = (t, r', w', n')"
    by (metis prod_cases4)
  show ?thesis
  proof (cases "i < length (dm_sessions d) \<and> ss_open ?s")
    case True
    then have s: "session_ok view wview rview C ?s" "ss_open ?s" using ok by (simp_all add: list_all_length)
    from session_ok_turn [OF turn_session(2) daemon_node_reachable [OF reach] one s] True ok one turn_session(1)
    show ?thesis by (simp add: session_turn_def Let_def sessions_update)
  qed (use turn_session(1) ok in \<open>auto simp: session_turn_def Let_def\<close>)
next
  case (turn_broken_pipe i fl room)
  let ?s = "dm_sessions d ! i"
  have "session_ok view wview rview C ?s" using ok turn_broken_pipe by (simp add: list_all_length)
  then have "session_ok view wview rview C (?s\<lparr>ss_writer := (ss_writer ?s)\<lparr>wr_room := room, wr_flush := fl\<rparr>\<rparr>)"
    by (rule session_ok_cong [rotated 4]) simp_all
  with ok turn_broken_pipe show ?thesis by (simp add: sessions_update)
next
  case (turn_restart R args db create_dir_all boot bind t)
  with run_daemon_starts [OF turn_restart(4)] show ?thesis by simp
qed (use ok in simp_all)

lemma daemon_sessions:
  "daemon_reachable view wview rview C d \<Longrightarrow> list_all (session_ok view wview rview C) (dm_sessions d)"
proof (induction rule: daemon_reachable.induct)
  case (first_start R args db create_dir_all boot bind t d)
  with run_daemon_starts [OF first_start(4)] show ?case by simp
next
  case (daemon_steps d d')
  show ?case by (rule daemon_step_sessions [OF daemon_steps.hyps(2,1) daemon_steps.IH])
qed

section \<open>The miner as a client\<close>

text \<open>What a client reads from a fresh connection on which it has sent some bytes.\<close>

definition served :: "'n rpc_handler \<Rightarrow> 'n \<Rightarrow> bytes \<Rightarrow> reader" where
  "served H n sent = \<lparr>rd_bytes = wr_bytes (fst (snd (handle_connection H
      \<lparr>rd_bytes = sent, rd_end = IoUnexpectedEof\<rparr> fresh_writer n))),
     rd_end = IoUnexpectedEof\<rparr>"

text \<open>A round of the miner against a node that changes between the two calls from \<open>n\<close> to \<open>n'\<close>.\<close>

definition remote_round ::
    "('db, 'wtx, 'rtx) redb \<Rightarrow> 'vk crypto \<Rightarrow> (u64 list \<Rightarrow> u64) \<Rightarrow> 'db node \<Rightarrow> 'db node \<Rightarrow> bytes \<Rightarrow> u64
     \<Rightarrow> (round_outcome \<times> u64) option" where
  "remote_round R C pick n n' = miner_round C pick (Inr ())
     (client_get_block_template (Inr ()) (served (AurionNodeService R C) n) fresh_writer)
     (client_submit_block (Inr ()) (served (AurionNodeService R C) n') fresh_writer)"

text \<open>Templates and mined blocks fit into a frame.\<close>

lemma selection_fits:
  assumes inv: "pool_inv C M" and backed: "pool_backed s M"
  defines "txs \<equiv> select_transactions_for_block M MAX_BLOCK_PAYLOAD_BYTES"
  shows "list_all wf_tx txs" "length (concat (map encode_tx txs)) \<le> 2097152" "length txs \<le> 2097152"
proof -
  have "MAX_BLOCK_PAYLOAD_BYTES + 100000 < 2 ^ 64" by (simp add: MAX_BLOCK_PAYLOAD_BYTES_def)
  from select_transactions_spec [OF inv this] obtain es where
    es: "txs = map me_tx es" "set es \<subseteq> snd ` set (by_txid M)" "sum_list (map me_size es) \<le> 2097152"
    unfolding txs_def by (auto simp: MAX_BLOCK_PAYLOAD_BYTES_def)
  have size: "length (encode_tx (me_tx e)) = me_size e" if "e \<in> set es" for e
  proof -
    from that es(2) obtain k where "(k, e) \<in> set (by_txid M)" by fastforce
    with inv have "entry_wf C (k, e)" by (simp add: pool_inv_def)
    then show ?thesis by (simp add: entry_wf_def Let_def)
  qed
  show "list_all wf_tx txs" using es backed by (auto simp: list_all_iff pool_backed_def)
  have len: "length (concat (map encode_tx txs)) = sum_list (map me_size es)"
    using size by (simp add: es(1) length_concat comp_def cong: map_cong)
  with es(3) show "length (concat (map encode_tx txs)) \<le> 2097152" by simp
  have "length txs \<le> length (concat (map encode_tx txs))"
  proof (induction txs)
    case (Cons tx txs)
    have "1 \<le> length (encode_tx tx)" by (simp add: Suc_le_eq)
    with Cons show ?case by simp
  qed simp
  with len es(3) show "length txs \<le> 2097152" by simp
qed

lemma template_fits:
  assumes inv: "node_inv C view n" and tmpl: "build_template R n = Inr t"
  shows "wf_template t" "length (encode_response (RespBlockTemplate t)) \<le> 4194304"
    and "list_all wf_tx (bt_transactions t)" "length (concat (map encode_tx (bt_transactions t))) \<le> 2097152"
    and "length (bt_transactions t) \<le> 2097152"
proof -
  from tmpl have "bt_transactions t = select_transactions_for_block (nd_mempool n) MAX_BLOCK_PAYLOAD_BYTES"
    by (rule build_template_Inr)
  moreover have "pool_inv C (nd_mempool n)" "pool_backed (view (nd_storage n)) (nd_mempool n)"
    using inv by (simp_all add: node_inv_def)
  ultimately show fit: "list_all wf_tx (bt_transactions t)"
    "length (concat (map encode_tx (bt_transactions t))) \<le> 2097152" "length (bt_transactions t) \<le> 2097152"
    using selection_fits by metis+
  then show "wf_template t" by (simp add: wf_template_def)
  show "length (encode_response (RespBlockTemplate t)) \<le> 4194304"
    using fit(2) by (simp add: encode_template_def encode_quantum_def)
qed

lemma mined_block_fits:
  assumes mined: "mine_block C pick pool payout en t = Some (Inr block)"
    and pick: "\<And>xs. xs \<noteq> [] \<Longrightarrow> pick xs \<in> set xs" and payout: "length payout \<le> 1000000"
    and fit: "list_all wf_tx (bt_transactions t)"
      "length (concat (map encode_tx (bt_transactions t))) \<le> 2097152" "length (bt_transactions t) \<le> 2097152"
  shows "wf_block block" "length (encode_request (SubmitBlock block)) \<le> 4194304"
    and "height (header block) = bt_height t"
proof -
  from mine_block_Inr [OF mined pick] obtain cb where
    txs: "transactions block = cb # bt_transactions t"
    and cb: "build_coinbase_transaction (bt_height t) payout (coinbase_subsidy t) QUANTUM_ZERO en = Inr cb"
    and h: "height (header block) = bt_height t"
    by (metis block_header.select_convs(7))
  note cb' = cb [unfolded coinbase_of_template]
  have "wf_tx cb" using payout by (simp add: cb' wf_defs bip34_push_def)
  then show "wf_block block" using fit by (simp add: wf_block_def txs)
  have "length (encode_tx cb) \<le> 1000200"
    using payout by (simp add: cb' encode_tx_def encode_tx_input_def encode_tx_output_def encode_outpoint_def
        encode_vec_bytes_def encode_redeemer_def encode_quantum_def bip34_push_def)
  then show "length (encode_request (SubmitBlock block)) \<le> 4194304"
    using fit(2) by (simp add: encode_block_def encode_header_def txs)
  show "height (header block) = bt_height t" by (rule h)
qed

lemma remote_template:
  assumes inv: "node_inv C view n" and tmpl: "build_template R n = Inr t" and payout: "length payout \<le> 1000000"
  shows "client_get_block_template (Inr ()) (served (AurionNodeService R C) n) fresh_writer payout = Inr t"
proof -
  let ?H = "AurionNodeService R C"
  have d: "dispatch ?H (GetBlockTemplate payout) n = (RespBlockTemplate t, n)"
    by (simp add: AurionNodeService_def respond_def service_get_block_template_def tmpl)
  have "rpc_call (Inr ()) (served ?H n) fresh_writer (GetBlockTemplate payout) =
      Inr (fst (dispatch ?H (GetBlockTemplate payout) n))"
    unfolding served_def
    using template_fits(1,2) [OF inv tmpl] payout d
    by (intro client_call_reaches_handler) (simp_all add: encode_vec_bytes_def wf_vec_def)
  then have "rpc_call (Inr ()) (served ?H n) fresh_writer (GetBlockTemplate payout) = Inr (RespBlockTemplate t)"
    by (simp only: d fst_conv)
  then show ?thesis by (simp add: client_get_block_template_def)
qed

lemma remote_submit:
  assumes laws: "redb_laws R view wview rview"
    and acc: "accepted (fst (service_submit_block R C block n))"
    and fits: "wf_block block" "length (encode_request (SubmitBlock block)) \<le> 4194304"
  shows "client_submit_block (Inr ()) (served (AurionNodeService R C) n) fresh_writer block =
    Inr (Accepted (block_hash C block) (height (header block)))"
proof -
  let ?H = "AurionNodeService R C"
  obtain res n' where sub: "service_submit_block R C block n = (res, n')" by (metis surj_pair)
  with acc redb_laws.submit_accepted(5) [OF laws sub]
  have "res = Inr (Accepted (block_hash C block) (height (header block)))" by simp
  with sub have d: "fst (dispatch ?H (SubmitBlock block) n) =
      RespSubmitBlock (Accepted (block_hash C block) (height (header block)))"
    by (simp add: AurionNodeService_def respond_def)
  have "rpc_call (Inr ()) (served ?H n) fresh_writer (SubmitBlock block) = Inr (fst (dispatch ?H (SubmitBlock block) n))"
    unfolding served_def
    using fits by (intro client_call_reaches_handler) (simp_all only: d wf_request.simps, simp_all)
  then have "rpc_call (Inr ()) (served ?H n) fresh_writer (SubmitBlock block) =
      Inr (RespSubmitBlock (Accepted (block_hash C block) (height (header block))))" by (simp only: d)
  then show ?thesis by (simp add: client_submit_block_def)
qed

section \<open>A daemon on the database in memory\<close>

definition demo_args :: node_args where
  "demo_args = \<lparr>datadir = [], rpc_bind = ''127.0.0.1:8547'', p2p_listen = ''tcp/0.0.0.0:7447'',
     na_peers = [], offline = False\<rparr>"

definition boot_daemon :: "store daemon" where
  "boot_daemon = \<lparr>dm_node = boot_node, dm_sessions = [], dm_listening = True\<rparr>"

lemma boot_daemon_starts:
  "run_daemon (\<lambda>_. Inr ()) (\<lambda>_. Inr ()) (\<lambda>_. Inr ()) mem_redb flat_crypto demo_args (Inr 1800000000) = Inr boot_daemon"
  by (simp add: run_daemon_def demo_args_def bootstrap_gossip_def bootstrap_config_def path_join_def
      boot_node_exec boot_daemon_def)

lemma boot_daemon_reachable:
  "daemon_reachable id (id :: store \<Rightarrow> store) (id :: store \<Rightarrow> store) flat_crypto boot_daemon"
  by (rule first_start [OF mem.redb_laws_axioms _ _ boot_daemon_starts, of "\<lambda>_. None"])
    (simp_all add: mem_redb_def)

definition tip_query :: reader where
  "tip_query = \<lparr>rd_bytes = frame_of (encode_request GetTipStatus), rd_end = IoUnexpectedEof\<rparr>"

text \<open>The daemon after it accepted a connection and served its one request.\<close>

definition served_daemon :: "store daemon" where
  "served_daemon = session_turn mem_redb flat_crypto 0 (server_accept (Inr (tip_query, fresh_writer)) boot_daemon)"

lemma served_daemon_reachable:
  "daemon_reachable id (id :: store \<Rightarrow> store) (id :: store \<Rightarrow> store) flat_crypto served_daemon"
proof -
  let ?d = "server_accept (Inr (tip_query, fresh_writer)) boot_daemon"
  have "daemon_reachable id id id flat_crypto ?d"
    by (rule daemon_steps [OF boot_daemon_reachable turn_accept])
  moreover have "decode_canonical decode_request (encode_request GetTipStatus) = Inr GetTipStatus"
    by (simp add: request.decode_canonical_iff)
  moreover have "dm_sessions ?d ! 0 = new_session tip_query fresh_writer"
    by (simp add: server_accept_def boot_daemon_def)
  moreover have "read_frame tip_query = Inr (encode_request GetTipStatus, \<lparr>rd_bytes = [], rd_end = IoUnexpectedEof\<rparr>)"
    using read_frame_ok [of "encode_request GetTipStatus" "[]"] by (simp add: tip_query_def)
  ultimately have col: "\<forall>bs r' tx. read_frame (ss_reader (dm_sessions ?d ! 0)) = Inr (bs, r') \<longrightarrow>
      decode_canonical decode_request bs = Inr (SendRawTransaction tx) \<longrightarrow>
      no_collision flat_crypto (nd_mempool (dm_node ?d)) tx" and r: "daemon_reachable id id id flat_crypto ?d"
    by (auto simp only: new_session_def session.select_convs sum.inject prod.inject rpc_request.distinct)
  from daemon_steps [OF r turn_session [OF mem.redb_laws_axioms col]] show ?thesis
    unfolding served_daemon_def .
qed

section \<open>Properties\<close>

text \<open>C31: connections do not mix. At any time the bytes a client has sent split into the frames of its
  answered requests, at most one further frame, and the unread rest, and the bytes it has received
  are the frames of the answers, in order, and a part of one more. Each answer is the service's
  answer to that request in a reachable state of the node, whatever other connections do in
  between. The further frame exists only on a connection that has ended: it is no request, and
  nothing follows the answers, or it is a request that was carried out, and what follows the
  answers is an initial part of its answer, possibly empty. A handler call is one step; the bytes
  of a frame that never completes count as unread.\<close>

theorem connections_answer_in_order:
  assumes "daemon_reachable view wview rview C d" "i < length (dm_sessions d)"
  shows "\<exists>log tail part. (\<forall>(req, resp)\<in>set log. \<exists>R n. redb_laws R view wview rview \<and>
        node_reachable view wview rview C n \<and> resp = fst (dispatch (AurionNodeService R C) req n)) \<and>
     ss_input (dm_sessions d ! i) =
       concat (map (\<lambda>(req, _). frame_of (encode_request req)) log) @ tail @ rd_bytes (ss_reader (dm_sessions d ! i)) \<and>
     wr_bytes (ss_writer (dm_sessions d ! i)) =
       concat (map (\<lambda>(_, resp). frame_of (encode_response resp)) log) @ part \<and>
     (tail = [] \<and> part = [] \<or>
      \<not> ss_open (dm_sessions d ! i) \<and> (\<exists>bs. tail = frame_of bs \<and> (case decode_canonical decode_request bs of
         Inl _ \<Rightarrow> part = []
       | Inr req \<Rightarrow> \<exists>R n. redb_laws R view wview rview \<and> node_reachable view wview rview C n \<and>
           prefix part (frame_of (encode_response (fst (dispatch (AurionNodeService R C) req n)))))))"
proof -
  from daemon_sessions [OF assms(1)] assms(2) have "session_ok view wview rview C (dm_sessions d ! i)"
    by (simp add: list_all_length)
  then obtain log tail part where log: "list_all (answered view wview rview C) log"
    "transcript (dm_sessions d ! i) log tail part"
    "tail = [] \<and> part = [] \<or> \<not> ss_open (dm_sessions d ! i) \<and> last_exchange view wview rview C tail part"
    by (auto simp: session_ok_def)
  from log(1,2) log(3) [unfolded last_exchange_answers] show ?thesis
    by (intro exI [of _ log] exI [of _ tail] exI [of _ part])
       (auto simp: transcript_def answered_def list_all_iff case_prod_unfold)
qed

theorem connections_answer_in_order_witness:
  "\<exists>log tail part. frame_of (encode_request GetTipStatus) = concat (map (\<lambda>(req, _). frame_of (encode_request req)) log)
       @ tail @ rd_bytes (ss_reader (dm_sessions served_daemon ! 0)) \<and>
     wr_bytes (ss_writer (dm_sessions served_daemon ! 0)) =
       concat (map (\<lambda>(_, resp). frame_of (encode_response resp)) (log :: (rpc_request \<times> rpc_response) list)) @ part"
proof -
  have s: "0 < length (dm_sessions served_daemon)"
    "ss_input (dm_sessions served_daemon ! 0) = frame_of (encode_request GetTipStatus)"
    by (auto simp: served_daemon_def session_turn_def server_accept_def boot_daemon_def new_session_def
        tip_query_def Let_def split: prod.split)
  from connections_answer_in_order [OF served_daemon_reachable s(1)] s(2) show ?thesis by auto
qed

text \<open>C30: hostile bytes are harmless. Whatever bytes a client sends on a connection to a reachable node,
  and whatever hash collisions exist, when the connection ends the ledger is well-formed, within
  the supply cap and has a tip, and a running engine still stands on a committed chain.\<close>

theorem hostile_bytes_keep_ledger:
  assumes laws: "redb_laws R view wview rview" and reach: "node_reachable view wview rview C n"
    and run: "handle_connection (AurionNodeService R C) r w n = (res, w', n')"
  shows "store_inv C (view (nd_storage n')) \<and> lifecycle_inv view (nd_authority n') \<and>
    total_supply (view (nd_storage n')) \<le> amount MAX_TOTAL_SUPPLY_QUANTA"
proof -
  have "ledger_safe C view n" using node_reachable_inv [OF reach] by (simp add: node_inv_def ledger_safe_def)
  from handler_contract.connection_inv [OF redb_laws.service_contract [OF laws] this, of r w] run
  have safe: "ledger_safe C view n'" by simp
  then show ?thesis using store_inv_supply by (auto simp: ledger_safe_def)
qed

theorem hostile_bytes_keep_ledger_witness:
  "total_supply (nd_storage (snd (snd (handle_connection (AurionNodeService mem_redb flat_crypto)
     \<lparr>rd_bytes = [0xFF, 0xFF, 0xFF, 0xFF, 1, 2, 3], rd_end = IoUnexpectedEof\<rparr> fresh_writer boot_node))))
     \<le> amount MAX_TOTAL_SUPPLY_QUANTA"
proof -
  obtain res w' n' where run: "handle_connection (AurionNodeService mem_redb flat_crypto)
     \<lparr>rd_bytes = [0xFF, 0xFF, 0xFF, 0xFF, 1, 2, 3], rd_end = IoUnexpectedEof\<rparr> fresh_writer boot_node = (res, w', n')"
    by (metis surj_pair)
  from hostile_bytes_keep_ledger [OF mem.redb_laws_axioms boot_node_reachable run] run show ?thesis by simp
qed

text \<open>C5: a mining round over the wire extends the chain. The node runs on a working database, does not
  change between the miner's two calls, and every transaction of its template names no output
  twice and would still be admitted at the tip; the payout script has at most a million bytes, and
  the miner picks one of the nonces its threads found. Then the round asks for a template through the
  framed protocol and assembles a candidate from it; when some nonce brings the candidate's hash
  to the target, the round returns, the node accepts the solved block at the height of the
  template, and its ledger grows by exactly that block; when no nonce does, the round never
  returns.\<close>

theorem mining_round_extends_chain:
  assumes healthy: "redb_healthy R view wview rview" and reach: "node_reachable view wview rview C n"
    and run: "auth_state (nd_authority n) = Running" and tmpl: "build_template R n = Inr t"
    and fresh: "\<And>tx. tx \<in> set (bt_transactions t) \<Longrightarrow> distinct (tx_spends tx) \<and> (\<exists>spent mtp fee.
      validate_for_mempool C tx (storage_view R (nd_storage n)) spent (bt_height t - 1) mtp = Inr fee)"
    and pick: "\<And>xs. xs \<noteq> [] \<Longrightarrow> pick xs \<in> set xs" and payout: "length payout \<le> 1000000"
  shows "\<exists>candidate txs. assemble_candidate C payout (en + 1) t = Inr (candidate, txs) \<and>
    (if \<exists>k. meets_target C candidate (as_bytes (bt_target t)) k
     then \<exists>block. transactions block = txs \<and>
       remote_round R C pick n n payout en =
         Some (Submitted (Inr (Accepted (block_hash C block) (bt_height t))), en + 1) \<and>
       view (nd_storage (snd (service_submit_block R C block n))) =
         apply_block C block (block_spends block) (view (nd_storage n))
     else remote_round R C pick n n payout en = None)"
proof -
  note inv = node_reachable_inv [OF reach]
  let ?sub = "client_submit_block (Inr ()) (served (AurionNodeService R C) n) fresh_writer"
  have round: "remote_round R C pick n n payout en = map_option (\<lambda>mined. (case mined of Inl e \<Rightarrow> Stopped e
      | Inr block \<Rightarrow> Submitted (?sub block), en + 1)) (mine_block C pick (Inr ()) payout (en + 1) t)"
    by (simp add: remote_round_def miner_round_def remote_template [OF inv tmpl payout] Let_def)
  obtain cb where "build_coinbase_transaction (bt_height t) payout (coinbase_subsidy t) QUANTUM_ZERO (en + 1) = Inr cb"
    by (simp only: coinbase_of_template)
  then obtain candidate txs where a: "assemble_candidate C payout (en + 1) t = Inr (candidate, txs)"
    by (simp add: assemble_candidate_def Let_def)
  have mine: "mine_block C pick (Inr ()) payout (en + 1) t = map_option
      (\<lambda>solved. Inr \<lparr>header = solved, transactions = txs\<rparr>) (mine_loop C pick candidate (as_bytes (bt_target t)) 0)"
    by (simp add: mine_block_def a mine_candidate_def option.map_comp comp_def)
  note returns = mine_loop_returns_iff [OF pick, where C = C and hdr = candidate and target = "as_bytes (bt_target t)"]
  have "if \<exists>k. meets_target C candidate (as_bytes (bt_target t)) k
     then \<exists>block. transactions block = txs \<and>
       remote_round R C pick n n payout en =
         Some (Submitted (Inr (Accepted (block_hash C block) (bt_height t))), en + 1) \<and>
       view (nd_storage (snd (service_submit_block R C block n))) =
         apply_block C block (block_spends block) (view (nd_storage n))
     else remote_round R C pick n n payout en = None"
  proof (cases "\<exists>k. meets_target C candidate (as_bytes (bt_target t)) k")
    case True
    with returns obtain solved where "mine_loop C pick candidate (as_bytes (bt_target t)) 0 = Some solved" by blast
    with mine obtain block where mined: "mine_block C pick (Inr ()) payout (en + 1) t = Some (Inr block)"
      and txs: "transactions block = txs" by auto
    note fits = mined_block_fits [OF mined pick payout template_fits(3-5) [OF inv tmpl]]
    from mined_accepted [OF healthy reach run tmpl fresh pick mined] have acc: "accepted (fst (service_submit_block R C block n))" .
    note laws = redb_healthy.axioms(1) [OF healthy]
    from redb_laws.submit_accepted(1) [OF laws prod.collapse [symmetric] acc] remote_submit [OF laws acc fits(1,2)]
    show ?thesis using True txs fits(3) by (auto simp: round mined intro!: exI [of _ block])
  next
    case False
    with returns have "mine_loop C pick candidate (as_bytes (bt_target t)) 0 = None" by auto
    with False show ?thesis by (simp add: round mine)
  qed
  with a show ?thesis by blast
qed

theorem mining_round_extends_chain_witness:
  "\<exists>t block. build_template mem_redb boot_node = Inr t \<and>
     remote_round mem_redb flat_crypto hd boot_node boot_node [] 0 =
       Some (Submitted (Inr (Accepted (block_hash flat_crypto block) (bt_height t))), 1)"
proof -
  obtain t where t: "build_template mem_redb boot_node = Inr t" "bt_transactions t = []"
    using boot_node_template by blast
  have run: "auth_state (nd_authority boot_node) = Running" by (simp add: boot_node_def genesis_node_eq)
  obtain block where "mine_block flat_crypto hd (Inr ()) [] (0 + 1) t = Some (Inr block)"
    using flat_mine_block by blast
  then have "remote_round mem_redb flat_crypto hd boot_node boot_node [] 0 \<noteq> None"
    by (simp add: remote_round_def miner_round_def remote_template [OF node_reachable_inv [OF boot_node_reachable] t(1)] Let_def)
  with mining_round_extends_chain [OF mem.redb_healthy_axioms boot_node_reachable run t(1), of hd "[]" 0] t
  show ?thesis by (auto split: if_splits)
qed

end
