(* ===== verification/Chain.thy ===== *)
theory Chain
  imports Node_System "HOL-Library.Sublist"
begin

text \<open>
  The history behind a ledger. The database of a node holds tables; this theory shows that the
  tables of every reachable node are the replay of a chain of valid blocks that starts with the
  genesis block, that a node only ever appends to that chain, and that two nodes that report the
  same tip hold the same chain as far as the hashes bind it. The exact account of one block shows
  what happens to the fees.
\<close>

section \<open>Chains of blocks\<close>

definition append_block :: "'vk crypto \<Rightarrow> block \<Rightarrow> store \<Rightarrow> store" where
  "append_block C b = apply_block C b (block_spends b)"

definition replay :: "'vk crypto \<Rightarrow> block list \<Rightarrow> store" where
  "replay C bs = fold (append_block C) bs (\<lambda>_. None)"

definition valid_next :: "'vk crypto \<Rightarrow> store \<Rightarrow> block \<Rightarrow> bool" where
  "valid_next C s b \<longleftrightarrow>
     wf_block b \<and> connects s b \<and> block_structure_ok C b (height (header b)) \<and>
     block_invariants_ok C b (store_lookup s)"

inductive valid_chain :: "'vk crypto \<Rightarrow> block list \<Rightarrow> bool" for C :: "'vk crypto" where
    chain_genesis: "valid_chain C [create_genesis_block C]"
  | chain_next: "valid_chain C bs \<Longrightarrow> valid_next C (replay C bs) b \<Longrightarrow> valid_chain C (bs @ [b])"

inductive_cases valid_chain_snocE: "valid_chain C (bs @ [b])"

lemma replay_simps [simp]:
  "replay C [] = (\<lambda>_. None)" "replay C (bs @ [b]) = append_block C b (replay C bs)"
  by (simp_all add: replay_def)

lemma replay_single: "replay C [b] = append_block C b (\<lambda>_. None)"
  using replay_simps(2) [of C "[]" b] by simp

lemma append_block_tip [simp]:
  "store_tip (append_block C b s) = Inr (Some (height (header b), block_hash C b))"
  by (simp add: append_block_def apply_block_tip)

lemma append_block_index:
  "append_block C b s (HEIGHT_INDEX, KU64 h) =
     (if h = height (header b) then Some (as_bytes (block_hash C b)) else s (HEIGHT_INDEX, KU64 h))"
  by (simp add: append_block_def apply_block_tables)

lemma genesis_spends [simp]: "block_spends (create_genesis_block C) = []"
  by (simp add: block_spends_def create_genesis_block_def genesis_coinbase_facts)

lemma genesis_height [simp]: "height (header (create_genesis_block C)) = 0"
  by (simp add: create_genesis_block_def)

lemma lookup_sound_le: "lookup_sound l s \<Longrightarrow> l op = Some u \<Longrightarrow> store_lookup s op = Some u"
  by (simp add: lookup_sound_def store_lookup_def)

lemma tx_verdicts_mono:
  assumes look: "lookup_sound l s" and c: "tx_conserves l tx"
  shows "tx_conserves (store_lookup s) tx" and "tx_authorized C l h tx \<Longrightarrow> tx_authorized C (store_lookup s) h tx"
proof -
  have eq: "store_lookup s op = l op" if "op \<in> set (tx_spends tx)" for op
    using c that lookup_sound_le [OF look] by (fastforce simp: tx_conserves_def)
  then have tot: "input_total (store_lookup s) tx = input_total l tx"
    unfolding input_total_def lookup_amount_def
    by (intro arg_cong [where f = sum_list] map_cong) simp_all
  with c eq show "tx_conserves (store_lookup s) tx" by (simp add: tx_conserves_def)
  have "store_lookup s (previous_output inp) = l (previous_output inp)"
    if "(i, inp) \<in> set (enumerate_from 0 (inputs tx))" for i inp
    using that by (intro eq) (auto simp: tx_spends_def enumerate_from_def dest: set_zip_rightD)
  then show "tx_authorized C l h tx \<Longrightarrow> tx_authorized C (store_lookup s) h tx"
    unfolding tx_authorized_def tot by fastforce
qed

lemma block_invariants_mono:
  "lookup_sound l s \<Longrightarrow> block_invariants_ok C b l \<Longrightarrow> block_invariants_ok C b (store_lookup s)"
  unfolding block_invariants_ok_def list_all_iff using tx_verdicts_mono by blast

lemma store_lookup_sound: "lookup_sound (store_lookup s) s"
  by (auto simp: lookup_sound_def store_lookup_def split: sum.splits)

section \<open>The shape of a valid chain\<close>

lemma valid_chain_not_Nil: "valid_chain C bs \<Longrightarrow> bs \<noteq> []"
  by (induction rule: valid_chain.induct) simp_all

lemma valid_chain_tip:
  "valid_chain C bs \<Longrightarrow>
     store_tip (replay C bs) = Inr (Some (height (header (last bs)), block_hash C (last bs)))"
  by (induction rule: valid_chain.induct) (simp_all add: replay_single)

lemma valid_next_links:
  assumes "valid_chain C bs" "valid_next C (replay C bs) b"
  shows "unat (height (header b)) = Suc (unat (height (header (last bs))))"
    and "prev_block_hash (header b) = block_hash C (last bs)"
  using assms valid_chain_tip [OF assms(1)]
  by (auto simp: valid_next_def connects_def expected_next_Inr)

lemma valid_chain_heights:
  "valid_chain C bs \<Longrightarrow> map (unat \<circ> height \<circ> header) bs = [0..<length bs]"
proof (induction rule: valid_chain.induct)
  case (chain_next bs b)
  note ne = valid_chain_not_Nil [OF chain_next(1)]
  from chain_next.IH have "(unat \<circ> height \<circ> header) (last bs) = length bs - 1"
    using ne by (metis last_map last_upt length_greater_0_conv)
  with valid_next_links(1) [OF chain_next(1,2)] ne chain_next.IH show ?case by simp
qed simp

lemma valid_chain_height:
  "valid_chain C bs \<Longrightarrow> k < length bs \<Longrightarrow> unat (height (header (bs ! k))) = k"
  using valid_chain_heights [of C bs] by (metis add.left_neutral comp_apply length_map nth_map nth_upt)

lemma valid_chain_last_height:
  "valid_chain C bs \<Longrightarrow> unat (height (header (last bs))) = length bs - 1"
  using valid_chain_height [of C bs "length bs - 1"] valid_chain_not_Nil [of C bs]
  by (simp add: last_conv_nth)

lemma valid_chain_links:
  "valid_chain C bs \<Longrightarrow> Suc k < length bs \<Longrightarrow>
     prev_block_hash (header (bs ! Suc k)) = block_hash C (bs ! k)"
proof (induction rule: valid_chain.induct)
  case (chain_next bs b)
  show ?case
  proof (cases "Suc k = length bs")
    case True
    with valid_next_links(2) [OF chain_next(1,2)] show ?thesis
      by (metis append_eq_conv_conj butlast_snoc diff_Suc_1 last_conv_nth lessI nth_append nth_append_length
          valid_chain_not_Nil [OF chain_next(1)])
  next
    case False
    with chain_next show ?thesis by (simp add: nth_append)
  qed
qed simp

lemma valid_chain_index:
  "valid_chain C bs \<Longrightarrow> replay C bs (HEIGHT_INDEX, KU64 h) =
     (if unat h < length bs then Some (as_bytes (block_hash C (bs ! unat h))) else None)"
proof (induction arbitrary: h rule: valid_chain.induct)
  case chain_genesis
  show ?case by (auto simp: replay_single append_block_index unat_eq_0)
next
  case (chain_next bs b)
  have "valid_chain C (bs @ [b])" using chain_next by (intro valid_chain.chain_next)
  from valid_chain_last_height [OF this] have "unat (height (header b)) = length bs" by simp
  then have "h = height (header b) \<longleftrightarrow> unat h = length bs" by (metis word_unat_eq_iff)
  with chain_next.IH [of h] show ?case by (auto simp: append_block_index nth_append less_Suc_eq)
qed

lemma valid_chain_wf: "valid_chain C bs \<Longrightarrow> b \<in> set bs \<Longrightarrow> wf_block b"
  by (induction rule: valid_chain.induct) (auto simp: valid_next_def)

lemma valid_chain_structure:
  "valid_chain C bs \<Longrightarrow> b \<in> set bs \<Longrightarrow> block_structure_ok C b (height (header b))"
proof (induction rule: valid_chain.induct)
  case chain_genesis
  have "block_structure_ok C (create_genesis_block C) 0"
    using genesis_block_verifies [of C] by (simp add: verify_block_structure_ok_iff)
  with chain_genesis show ?case by simp
next
  case (chain_next bs b')
  then show ?case by (auto simp: valid_next_def)
qed

lemma valid_next_height:
  assumes "valid_chain C bs" "valid_next C (replay C bs) b"
  shows "unat (height (header b)) = length bs"
  using valid_chain_last_height [OF chain_next [OF assms]] by simp

lemma valid_chain_at_height: "valid_chain C bs \<Longrightarrow> b \<in> set bs \<Longrightarrow> bs ! unat (height (header b)) = b"
  by (metis in_set_conv_nth valid_chain_height)

lemma valid_chain_prefix:
  "valid_chain C cs \<Longrightarrow> prefix bs cs \<Longrightarrow> bs \<noteq> [] \<Longrightarrow> valid_chain C bs"
proof (induction arbitrary: bs rule: valid_chain.induct)
  case chain_genesis
  then have "bs = [create_genesis_block C]" by (auto simp: prefix_Cons)
  then show ?case by (simp add: valid_chain.chain_genesis)
next
  case (chain_next cs c)
  from chain_next.prems(1) consider "bs = cs @ [c]" | "prefix bs cs" by auto
  then show ?case
    by cases (use chain_next valid_chain.chain_next in blast)+
qed

lemma valid_chain_hd: "valid_chain C bs \<Longrightarrow> hd bs = create_genesis_block C"
  by (induction rule: valid_chain.induct) (auto simp: hd_append dest: valid_chain_not_Nil)

section \<open>A node appends to its chain\<close>

definition grows :: "'vk crypto \<Rightarrow> store \<Rightarrow> store \<Rightarrow> bool" where
  "grows C s s' \<longleftrightarrow> s' = s \<or> (\<exists>b. valid_next C s b \<and> s' = append_block C b s)"

context redb_laws
begin

lemma process_valid_next:
  assumes "process_and_commit_block R C A block = (Inr u, A')" "wf_block block"
  shows "valid_next C (view (auth_storage A)) block"
    and "view (auth_storage A') = append_block C block (view (auth_storage A))"
proof -
  note ok = process_ok [OF assms(1)]
  from ok(5) block_invariants_mono have "block_invariants_ok C block (store_lookup (view (auth_storage A)))"
    by blast
  with ok assms show "valid_next C (view (auth_storage A)) block"
    "view (auth_storage A') = append_block C block (view (auth_storage A))"
    by (simp_all add: valid_next_def append_block_def)
qed

lemma process_grows:
  assumes "wf_block block"
  shows "grows C (view (auth_storage A)) (view (auth_storage (snd (process_and_commit_block R C A block))))"
proof (cases "process_and_commit_block R C A block")
  case (Pair res A')
  show ?thesis
  proof (cases res)
    case (Inl e)
    with Pair process_err(1) show ?thesis by (auto simp: grows_def)
  next
    case (Inr u)
    with Pair process_valid_next [OF Pair [unfolded Inr] assms] show ?thesis
      by (auto simp: grows_def)
  qed
qed

lemma rpc_grows:
  assumes wf: "wf_request req" and run: "dispatch (AurionNodeService R C) req n = (resp, n')"
  shows "grows C (view (nd_storage n)) (view (nd_storage n'))"
proof (cases req)
  case (SubmitBlock block)
  with run have n': "n' = snd (service_submit_block R C block n)"
    by (auto simp: AurionNodeService_def respond_def)
  from wf SubmitBlock process_grows [of block] show ?thesis
    by (simp add: n' submit_block_after Let_def after_block_def)
next
  case (GetBlockTemplate p)
  with run show ?thesis
    by (auto simp: AurionNodeService_def respond_def service_get_block_template_def grows_def)
next
  case (SendRawTransaction tx)
  with run show ?thesis
    by (auto simp: AurionNodeService_def respond_def service_send_raw_tx_def Let_def grows_def
        split: sum.splits prod.splits)
next
  case GetTipStatus
  with run show ?thesis
    by (auto simp: AurionNodeService_def respond_def service_get_tip_status_def grows_def)
qed

lemma inbound_block_grows:
  "grows C (view (nd_storage n)) (view (nd_storage (inbound_block R C (decode_block_frame C frame) n)))"
proof (cases "decode_block_frame C frame")
  case (Inl e)
  then show ?thesis by (simp add: inbound_block_def grows_def)
next
  case (Inr block)
  with process_grows [OF decode_block_frame_wf [OF Inr]] show ?thesis
    by (simp add: inbound_block_after after_block_def)
qed

end

lemma inbound_tx_storage: "nd_storage (inbound_tx R C msg n) = nd_storage n"
  by (auto simp: inbound_tx_def Let_def split: sum.split prod.split)

lemma node_step_grows:
  assumes step: "node_step view wview rview C n n'" and inv: "node_inv C view n"
  shows "grows C (view (nd_storage n)) (view (nd_storage n'))"
  using step
proof cases
  case (step_rpc R req resp)
  then show ?thesis by (intro redb_laws.rpc_grows)
next
  case (step_peer_block R frame)
  then show ?thesis by (simp add: redb_laws.inbound_block_grows)
next
  case (step_restart R path db g t)
  from redb_laws.execute_node_ledger [OF step_restart(1,4,2)] step_restart(3) inv show ?thesis
    by (auto simp: grows_def node_inv_def)
qed (simp_all add: grows_def inbound_tx_storage)

lemma node_steps_chain:
  assumes steps: "(node_step view wview rview C)\<^sup>*\<^sup>* n n'" and inv: "node_inv C view n"
    and chain: "valid_chain C bs" "view (nd_storage n) = replay C bs"
  shows "\<exists>more. valid_chain C (bs @ more) \<and> view (nd_storage n') = replay C (bs @ more)"
  using steps
proof (induction rule: rtranclp_induct)
  case base
  show ?case using chain by (intro exI [of _ "[]"]) simp
next
  case (step n1 n2)
  have "node_inv C view n1" using step(1) inv by (induction rule: rtranclp_induct) (auto intro: node_inv_step)
  from node_step_grows [OF step(2) this] step.IH obtain more where
    IH: "valid_chain C (bs @ more)" "view (nd_storage n1) = replay C (bs @ more)"
    and g: "grows C (replay C (bs @ more)) (view (nd_storage n2))" by auto
  from g show ?case unfolding grows_def
  proof
    assume "view (nd_storage n2) = replay C (bs @ more)"
    with IH show ?thesis by blast
  next
    assume "\<exists>b. valid_next C (replay C (bs @ more)) b \<and>
      view (nd_storage n2) = append_block C b (replay C (bs @ more))"
    then obtain b where "valid_next C (replay C (bs @ more)) b"
      "view (nd_storage n2) = replay C (bs @ more @ [b])"
      by (metis append.assoc replay_simps(2))
    with IH(1) show ?thesis by (metis append.assoc chain_next)
  qed
qed

lemma node_reachable_chain:
  "node_reachable view wview rview C n \<Longrightarrow>
     \<exists>bs. valid_chain C bs \<and> view (nd_storage n) = replay C bs"
proof (induction rule: node_reachable.induct)
  case (boot R path db g t n)
  from redb_laws.execute_node_ledger [OF boot(1,4,2)] boot(3)
  have "view (nd_storage n) = replay C [create_genesis_block C]"
    by (auto simp: replay_single append_block_def store_tip_def)
  with chain_genesis show ?case by blast
next
  case (node_steps n n')
  then obtain bs where "valid_chain C bs" "view (nd_storage n) = replay C bs" by blast
  with node_steps_chain [OF r_into_rtranclp [of "node_step view wview rview C", OF node_steps(2)] node_reachable_inv [OF node_steps(1)]]
  show ?case by blast
qed

lemma steps_keep_index:
  assumes "node_reachable view wview rview C n" "(node_step view wview rview C)\<^sup>*\<^sup>* n n'"
    and "store_tip (view (nd_storage n)) = Inr (Some (h, hash))"
  shows "\<exists>h' hash'. store_tip (view (nd_storage n')) = Inr (Some (h', hash')) \<and> h \<le> h' \<and>
    (h' = h \<longrightarrow> hash' = hash) \<and>
    (\<forall>k\<le>h. view (nd_storage n') (HEIGHT_INDEX, KU64 k) = view (nd_storage n) (HEIGHT_INDEX, KU64 k))"
proof -
  from node_reachable_chain [OF assms(1)] obtain bs where
    c: "valid_chain C bs" "view (nd_storage n) = replay C bs" by blast
  from node_steps_chain [OF assms(2) node_reachable_inv [OF assms(1)] c] obtain more where
    m: "valid_chain C (bs @ more)" "view (nd_storage n') = replay C (bs @ more)" by blast
  from valid_chain_tip [OF c(1)] assms(3) c(2) have h: "h = height (header (last bs))" "hash = block_hash C (last bs)"
    by simp_all
  note len = valid_chain_last_height [OF c(1)] valid_chain_last_height [OF m(1)]
  have ne: "bs \<noteq> []" by (rule valid_chain_not_Nil [OF c(1)])
  let ?h' = "height (header (last (bs @ more)))"
  have "h \<le> ?h'" using len h(1) by (simp add: word_le_nat_alt)
  moreover have "block_hash C (last (bs @ more)) = hash" if "?h' = h"
  proof -
    from that len h(1) ne have "more = []" by (cases bs) auto
    then show ?thesis using h(2) by simp
  qed
  moreover have "replay C (bs @ more) (HEIGHT_INDEX, KU64 k) = replay C bs (HEIGHT_INDEX, KU64 k)" if "k \<le> h" for k
  proof -
    have "unat k < length bs" using that h(1) len(1) ne by (cases bs) (auto simp: word_le_nat_alt)
    then show ?thesis by (simp add: valid_chain_index [OF c(1)] valid_chain_index [OF m(1)] nth_append)
  qed
  ultimately show ?thesis using valid_chain_tip [OF m(1)] m(2) c(2) by auto
qed

section \<open>Chains with the same tip\<close>

definition block_messages :: "'vk crypto \<Rightarrow> block \<Rightarrow> bytes set" where
  "block_messages C b = {encode_header (header b)} \<union> encode_tx ` set (transactions b)
     \<union> set (merkle_messages C (map (txid C) (transactions b)))"

definition chain_messages :: "'vk crypto \<Rightarrow> block list \<Rightarrow> bytes set" where
  "chain_messages C bs = (\<Union>b\<in>set bs. block_messages C b)"

lemma chain_messages_memb:
  "b \<in> set bs \<Longrightarrow> encode_header (header b) \<in> chain_messages C bs"
  "b \<in> set bs \<Longrightarrow> encode_tx ` set (transactions b) \<subseteq> chain_messages C bs"
  "b \<in> set bs \<Longrightarrow> set (merkle_messages C (map (txid C) (transactions b))) \<subseteq> chain_messages C bs"
  by (auto simp: chain_messages_def block_messages_def)

lemma same_last_hash_same_headers:
  assumes "valid_chain C as" "valid_chain C bs" "block_hash C (last as) = block_hash C (last bs)"
    and "inj_on (digest C) M" "\<forall>b\<in>set as \<union> set bs. encode_header (header b) \<in> M"
  shows "map header as = map header bs"
  using assms
proof (induction arbitrary: bs rule: valid_chain.induct)
  case chain_genesis
  have "header (create_genesis_block C) = header (last bs)"
    using chain_genesis valid_chain_not_Nil [OF chain_genesis(1)]
    by (intro header_bound_by_hash [OF chain_genesis(3)]) simp_all
  with valid_chain_last_height [OF chain_genesis(1)] valid_chain_not_Nil [OF chain_genesis(1)]
  have "length bs = 1" by (metis One_nat_def Suc_pred diff_0_eq_0 genesis_height length_greater_0_conv unat_0)
  with \<open>header (create_genesis_block C) = header (last bs)\<close> show ?case
    by (auto simp: length_Suc_conv)
next
  case (chain_next as a)
  from chain_next.prems(1) show ?case
  proof (cases rule: valid_chain.cases)
    case chain_genesis
    have "header a = header (create_genesis_block C)"
      using chain_next.prems chain_genesis by (intro header_bound_by_hash [OF chain_next.prems(3)]) simp_all
    moreover have "unat (height (header a)) \<noteq> 0" by (simp add: valid_next_links(1) [OF chain_next(1,2)])
    ultimately show ?thesis by simp
  next
    case (chain_next bs' b)
    note b = this
    have h: "header a = header b"
      using chain_next.prems b by (intro header_bound_by_hash [OF chain_next.prems(3)]) simp_all
    then have "block_hash C (last as) = block_hash C (last bs')"
      using valid_next_links(2) [OF chain_next.hyps(1,2)] valid_next_links(2) [OF b(2,3)] by simp
    then have "map header as = map header bs'"
      using chain_next.prems b by (intro chain_next.IH [OF b(2) _ chain_next.prems(3)]) simp_all
    with h b show ?thesis by simp
  qed
qed

lemma same_headers_same_blocks:
  assumes chains: "valid_chain C as" "valid_chain C bs" and h: "map header as = map header bs"
    and counts: "map (length \<circ> transactions) as = map (length \<circ> transactions) bs"
    and inj: "inj_on (digest C) (chain_messages C as \<union> chain_messages C bs)"
  shows "as = bs"
proof (rule nth_equalityI)
  from h show l: "length as = length bs" by (metis length_map)
  fix i assume i: "i < length as"
  let ?a = "as ! i" and ?b = "bs ! i"
  from i l have mem: "?a \<in> set as" "?b \<in> set bs" by simp_all
  have hd: "header ?a = header ?b" using h i l by (metis nth_map)
  have len: "length (transactions ?a) = length (transactions ?b)"
    using arg_cong [OF counts, of "\<lambda>xs. xs ! i"] i l by simp
  have root: "calculate_merkle_root C ?a = calculate_merkle_root C ?b"
    using valid_chain_structure [OF chains(1) mem(1)] valid_chain_structure [OF chains(2) mem(2)] hd
    by (simp add: block_structure_ok_def)
  have "transactions ?a = transactions ?b"
    by (rule transactions_bound_by_root [OF valid_chain_wf [OF chains(1) mem(1)]
          valid_chain_wf [OF chains(2) mem(2)] len root inj])
      (use chain_messages_memb mem in blast)+
  with hd show "?a = ?b" by simp
qed

section \<open>One hash, two blocks\<close>

text \<open>Repeating the last transaction of a block. A transaction without inputs that pays nothing is
  accepted inside a block, and repeating it is not a double spend.\<close>

definition repeat_last :: "block \<Rightarrow> block" where
  "repeat_last b = b\<lparr>transactions := transactions b @ [last (transactions b)]\<rparr>"

lemma repeat_last_header [simp]: "header (repeat_last b) = header b"
  by (simp add: repeat_last_def)

lemma repeat_last_hash [simp]: "block_hash C (repeat_last b) = block_hash C b"
  by (simp add: block_hash_def)

lemma repeat_last_neq: "repeat_last b \<noteq> b"
proof
  assume "repeat_last b = b"
  then have "length (transactions (repeat_last b)) = length (transactions b)" by simp
  then show False by (simp add: repeat_last_def)
qed

lemma repeat_last_root:
  assumes "odd (length (transactions b))" "length (transactions b) > 1"
  shows "calculate_merkle_root C (repeat_last b) = calculate_merkle_root C b"
proof -
  have "map (txid C) (transactions (repeat_last b))
      = map (txid C) (transactions b) @ [last (map (txid C) (transactions b))]"
    using assms by (cases "transactions b") (simp_all add: repeat_last_def last_map)
  with assms compute_merkle_root_dup_last [of "map (txid C) (transactions b)" C] show ?thesis
    by (simp add: calculate_merkle_root_def)
qed

lemma repeat_last_valid:
  assumes v: "valid_next C s b" and odd: "odd (length (transactions b))" "length (transactions b) > 1"
    and room: "Suc (length (transactions b)) < 2 ^ 32" and ins: "inputs (last (transactions b)) = []"
  shows "valid_next C s (repeat_last b)"
proof -
  let ?t = "last (transactions b)"
  from odd obtain cb others where txs: "transactions b = cb # others" "others \<noteq> []"
    by (cases "transactions b") auto
  have t: "\<not> is_coinbase ?t" "tx_spends ?t = []" using ins by (simp_all add: is_coinbase_def tx_spends_def)
  have mem: "?t \<in> set (transactions b)" using txs by simp
  have wf: "wf_block (repeat_last b)"
    using v mem room by (auto simp: valid_next_def wf_block_def repeat_last_def list_all_iff)
  have "block_structure_ok C (repeat_last b) (height (header b))"
    using v txs t(1) repeat_last_root [OF odd, of C]
    by (auto simp: valid_next_def block_structure_ok_def) (auto simp: repeat_last_def)
  moreover have "block_invariants_ok C (repeat_last b) (store_lookup s)"
    using v t mem by (auto simp: valid_next_def block_invariants_ok_def block_spends_def repeat_last_def list_all_iff)
  ultimately show ?thesis using v wf by (simp add: valid_next_def connects_def)
qed

section \<open>The exact account of a block\<close>

definition block_fees :: "store \<Rightarrow> block \<Rightarrow> nat" where
  "block_fees s b = sum_list (map (\<lambda>tx. input_total (store_lookup s) tx - output_total tx) (tl (transactions b)))"

definition fresh_outputs :: "'vk crypto \<Rightarrow> store \<Rightarrow> block \<Rightarrow> bool" where
  "fresh_outputs C s b \<longleftrightarrow> distinct (map fst (block_outputs C b)) \<and>
     (\<forall>op\<in>fst ` set (block_outputs C b). s (utxo_key op) = None)"

lemma supply_add_fresh:
  assumes "s (utxo_key op) = None" "wf_tx_output out"
  shows "total_supply (add_utxo (op, out) s) = total_supply s + amount (out_value out)"
proof -
  have "(\<Sum>op'\<in>UNIV - {op}. utxo_amount (add_utxo (op, out) s) op')
      = (\<Sum>op'\<in>UNIV - {op}. utxo_amount s op')"
    by (rule sum.cong) (simp_all add: utxo_amount_add_other)
  moreover have "utxo_amount s op = 0" "utxo_amount (add_utxo (op, out) s) op = amount (out_value out)"
    using assms by (simp_all add: utxo_amount_def store_utxo_def add_utxo_def tx_output.roundtrip)
  ultimately show ?thesis by (simp add: supply_split [of _ op])
qed

lemma supply_fold_add_fresh:
  assumes "distinct (map fst ps)" "\<forall>p\<in>set ps. s (utxo_key (fst p)) = None \<and> wf_tx_output (snd p)"
  shows "total_supply (fold add_utxo ps s) = total_supply s + sum_list (map (\<lambda>p. amount (out_value (snd p))) ps)"
  using assms
proof (induction ps arbitrary: s)
  case (Cons p ps)
  have "\<forall>q\<in>set ps. add_utxo p s (utxo_key (fst q)) = None \<and> wf_tx_output (snd q)"
  proof
    fix q assume q: "q \<in> set ps"
    with Cons.prems(1) have "fst q \<noteq> fst p" by (metis distinct.simps(2) image_eqI list.set_map list.simps(9))
    with Cons.prems(2) q show "add_utxo p s (utxo_key (fst q)) = None \<and> wf_tx_output (snd q)"
      by (simp add: add_utxo_def)
  qed
  with Cons.IH [of "add_utxo p s"] Cons.prems supply_add_fresh [of s "fst p" "snd p"] show ?case by simp
qed simp

lemma block_outputs_wf:
  assumes "wf_block b" "p \<in> set (block_outputs C b)"
  shows "wf_tx_output (snd p)"
proof -
  from assms(2) obtain tx where "tx \<in> set (transactions b)" "snd p \<in> set (outputs tx)"
    by (auto simp: block_outputs_def created_outputs_def enumerate_from_def dest: set_zip_rightD)
  with assms(1) show ?thesis by (auto simp: wf_block_def wf_tx_def list_all_iff)
qed

lemma lookup_amount_store [simp]: "lookup_amount (store_lookup s) = utxo_amount s"
  by (auto simp: fun_eq_iff lookup_amount_def store_lookup_def utxo_amount_def split: sum.split option.split)

lemma append_block_supply:
  assumes wf: "wf_block b" and dist: "distinct (block_spends b)" and fresh: "fresh_outputs C s b"
  shows "total_supply (append_block C b s) + sum_list (map (utxo_amount s) (block_spends b)) =
    total_supply s + sum_list (map output_total (transactions b))"
proof -
  let ?d = "fold del_utxo (block_spends b) s"
  have "total_supply (append_block C b s) = total_supply (fold add_utxo (block_outputs C b) ?d)"
    by (rule supply_cong) (simp add: append_block_def apply_block_def apply_utxos_def fold_add_utxo_at
        fold_del_utxo_at split: option.split)
  also have "\<dots> = total_supply ?d + sum_list (map (\<lambda>p. amount (out_value (snd p))) (block_outputs C b))"
    using fresh block_outputs_wf [OF wf, of _ C]
    by (intro supply_fold_add_fresh) (auto simp: fresh_outputs_def fold_del_utxo_at)
  finally show ?thesis
    using supply_fold_del [OF dist, of s] block_outputs_total [of C "transactions b"]
    by (simp add: block_outputs_def output_total_def [abs_def])
qed

lemma valid_next_fees:
  assumes v: "valid_next C s b"
  shows "sum_list (map (utxo_amount s) (block_spends b)) + output_total (hd (transactions b)) =
    sum_list (map output_total (transactions b)) + block_fees s b"
proof -
  from v obtain cb others where txs: "transactions b = cb # others"
    and cb: "is_coinbase cb" and oth: "\<forall>tx\<in>set others. \<not> is_coinbase tx"
    by (cases "transactions b") (auto simp: valid_next_def block_structure_ok_def list_all_iff)
  have spends: "block_spends b = concat (map tx_spends others)"
    using oth by (simp add: block_spends_def txs cb)
  have le: "output_total tx \<le> input_total (store_lookup s) tx" if "tx \<in> set others" for tx
    using v that oth txs by (auto simp: valid_next_def block_invariants_ok_def list_all_iff tx_conserves_def)
  have "map (input_total (store_lookup s)) others
      = map (\<lambda>tx. output_total tx + (input_total (store_lookup s) tx - output_total tx)) others"
    by (rule map_cong) (simp_all add: le)
  then have "sum_list (map (input_total (store_lookup s)) others) = sum_list (map output_total others)
      + sum_list (map (\<lambda>tx. input_total (store_lookup s) tx - output_total tx) others)"
    by (simp only: sum_list_addf)
  moreover have "sum_list (map (utxo_amount s) (block_spends b)) = sum_list (map (input_total (store_lookup s)) others)"
    by (simp add: spends sum_list_concat_map comp_def input_total_def [abs_def])
  ultimately show ?thesis by (simp add: txs block_fees_def)
qed

lemma valid_next_supply:
  assumes v: "valid_next C s b" and fresh: "fresh_outputs C s b"
  shows "total_supply (append_block C b s) + block_fees s b = total_supply s + output_total (hd (transactions b))"
proof -
  from v have "wf_block b" "distinct (block_spends b)"
    by (simp_all add: valid_next_def block_invariants_ok_def)
  from append_block_supply [OF this fresh] valid_next_fees [OF v] show ?thesis by simp
qed

text \<open>A demonstration block: an empty transaction without inputs, included twice.\<close>

definition demo_free :: transaction where
  "demo_free = \<lparr>tx_version = 1, inputs = [], outputs = [], locktime = 0\<rparr>"

lemma demo_free_accepted:
  "\<exists>A'. process_and_commit_block mem_redb flat_crypto genesis_node (demo_block 3 [demo_free, demo_free]) = (Inr (), A')"
    (is "\<exists>A'. process_and_commit_block _ _ _ ?b = _")
proof -
  have free: "\<not> is_coinbase demo_free" "tx_spends demo_free = []" "output_total demo_free = 0"
    by (simp_all add: demo_free_def is_coinbase_def tx_spends_def output_total_def)
  have root: "compute_merkle_root flat_crypto [0, 0, 0] = 0"
    using compute_merkle_root_dup_last [of "[0 :: hash256]" flat_crypto]
    by (simp add: compute_merkle_root_def merkle_loop_step)
  have "block_structure_ok flat_crypto ?b 1"
    by (auto simp: block_structure_ok_def demo_block_def demo_coinbase_facts free block_hash_def header_hash_def
        calculate_merkle_root_def txid_def root compact_valid_def MAX_TARGET_BITS_def compact_exponent_def)
  moreover have "block_invariants_ok flat_crypto ?b l" for l
    by (simp add: block_invariants_ok_def block_spends_def demo_block_def demo_coinbase_facts free
        tx_conserves_def tx_authorized_def input_total_def) (simp add: demo_free_def)
  ultimately have "fst (process_and_commit_block mem_redb flat_crypto genesis_node ?b) = Inr ()"
    using demo_connects [of 3 "[demo_free, demo_free]"]
    by (simp add: mem.process_accepts_iff demo_block_height) (simp add: genesis_node_eq)
  then show ?thesis by (metis prod.collapse)
qed

section \<open>Properties\<close>

text \<open>C2: The ledger is the replay of a chain. Whatever a node went through (requests, peers, crashes,
  failing calls), its tables are exactly what one gets by applying, to an empty database, a chain
  of blocks that starts with the genesis block, in which every block passed all rules at its
  place and names its predecessor; the height index lists exactly the hashes of that chain.\<close>

theorem ledger_is_replay:
  assumes "node_reachable view wview rview C n"
  shows "\<exists>bs. valid_chain C bs \<and> view (nd_storage n) = replay C bs \<and>
    store_tip (view (nd_storage n)) = Inr (Some (of_nat (length bs - 1), block_hash C (last bs))) \<and>
    (\<forall>k. Suc k < length bs \<longrightarrow> prev_block_hash (header (bs ! Suc k)) = block_hash C (bs ! k)) \<and>
    (\<forall>h. view (nd_storage n) (HEIGHT_INDEX, KU64 h) =
       (if unat h < length bs then Some (as_bytes (block_hash C (bs ! unat h))) else None))"
proof -
  from node_reachable_chain [OF assms] obtain bs where
    c: "valid_chain C bs" "view (nd_storage n) = replay C bs" by blast
  have "height (header (last bs)) = of_nat (length bs - 1)"
    by (simp only: valid_chain_last_height [OF c(1), symmetric]) simp
  with c valid_chain_tip [OF c(1)] valid_chain_links [OF c(1)] valid_chain_index [OF c(1)] show ?thesis
    by auto
qed

theorem ledger_is_replay_witness:
  "\<exists>bs. valid_chain flat_crypto bs \<and> nd_storage boot_node = replay flat_crypto bs"
  using ledger_is_replay [OF boot_node_reachable] by auto

text \<open>C8: There are no reorganisations. However long a node runs on and however often it is restarted,
  its tip never goes back and the hash recorded at a height it has reached never changes.\<close>

theorem chain_only_grows:
  assumes "node_reachable view wview rview C n" "(node_step view wview rview C)\<^sup>*\<^sup>* n n'"
    and "store_tip (view (nd_storage n)) = Inr (Some (h, hash))"
  shows "\<exists>h' hash'. store_tip (view (nd_storage n')) = Inr (Some (h', hash')) \<and> h \<le> h' \<and>
    (h' = h \<longrightarrow> hash' = hash) \<and>
    (\<forall>k\<le>h. view (nd_storage n') (HEIGHT_INDEX, KU64 k) = view (nd_storage n) (HEIGHT_INDEX, KU64 k))"
  by (rule steps_keep_index [OF assms])

theorem chain_only_grows_witness:
  "\<exists>n' h' hash'. store_tip (nd_storage n') = Inr (Some (h', hash')) \<and> 0 \<le> h' \<and>
     nd_storage n' (HEIGHT_INDEX, KU64 1) \<noteq> None \<and>
     nd_storage n' (HEIGHT_INDEX, KU64 0) = nd_storage boot_node (HEIGHT_INDEX, KU64 0)"
proof -
  obtain n' where run: "service_submit_block mem_redb flat_crypto (demo_block 3 []) boot_node
      = (Inr (Accepted 0 1), n')"
    using boot_node_submits by blast
  obtain resp where d: "dispatch (AurionNodeService mem_redb flat_crypto) (SubmitBlock (demo_block 3 [])) boot_node
      = (resp, n')"
    using run by (auto simp: AurionNodeService_def respond_def)
  have "node_step id (id :: store \<Rightarrow> store) (id :: store \<Rightarrow> store) flat_crypto boot_node n'"
    by (rule node_step.step_rpc [OF mem.redb_laws_axioms _ _ d]) (simp_all add: demo_block_small)
  then have "(node_step id (id :: store \<Rightarrow> store) (id :: store \<Rightarrow> store) flat_crypto)\<^sup>*\<^sup>* boot_node n'"
    by (rule r_into_rtranclp)
  from chain_only_grows [OF boot_node_reachable this, of 0] boot_node_tip obtain h' hash' where
    "store_tip (nd_storage n') = Inr (Some (h', hash'))"
    "nd_storage n' (HEIGHT_INDEX, KU64 0) = nd_storage boot_node (HEIGHT_INDEX, KU64 0)" by auto
  moreover have "accepted (Inr (Accepted 0 1))" by (simp add: accepted_def)
  with mem.submit_accepted(1) [OF run] have "nd_storage n' (HEIGHT_INDEX, KU64 1) \<noteq> None"
    by (simp add: apply_block_tables demo_block_height)
  ultimately show ?thesis by (intro exI [of _ n']) simp
qed

text \<open>C9: Agreement. Two nodes, on whatever databases, that report the same tip hold chains with the same
  headers and the same height index, as long as the hash does not collide on those headers. If it
  does not collide on the transactions and Merkle nodes either and the blocks have the same
  numbers of transactions, the two ledgers are equal, balances included.\<close>

theorem same_tip_same_chain:
  assumes a: "valid_chain C as" "view (nd_storage n) = replay C as"
    and b: "valid_chain C bs" "view' (nd_storage n') = replay C bs"
    and tip: "store_tip (view (nd_storage n)) = store_tip (view' (nd_storage n'))"
    and inj: "inj_on (digest C) ((\<lambda>x. encode_header (header x)) ` (set as \<union> set bs))"
  shows "map header as = map header bs \<and>
    (\<forall>h. view (nd_storage n) (HEIGHT_INDEX, KU64 h) = view' (nd_storage n') (HEIGHT_INDEX, KU64 h)) \<and>
    (map (length \<circ> transactions) as = map (length \<circ> transactions) bs \<and>
       inj_on (digest C) (chain_messages C as \<union> chain_messages C bs) \<longrightarrow>
     view (nd_storage n) = view' (nd_storage n'))"
proof -
  have "block_hash C (last as) = block_hash C (last bs)"
    using tip valid_chain_tip [OF a(1)] valid_chain_tip [OF b(1)] by (simp add: a(2) b(2))
  then have h: "map header as = map header bs"
    by (rule same_last_hash_same_headers [OF a(1) b(1) _ inj]) simp
  then have len: "length as = length bs" by (metis length_map)
  have "block_hash C (as ! k) = block_hash C (bs ! k)" if "k < length bs" for k
    using arg_cong [OF h, of "\<lambda>xs. xs ! k"] that len by (simp add: block_hash_def)
  then have "view (nd_storage n) (HEIGHT_INDEX, KU64 k) = view' (nd_storage n') (HEIGHT_INDEX, KU64 k)" for k
    by (simp add: a(2) b(2) valid_chain_index [OF a(1)] valid_chain_index [OF b(1)] len)
  then show ?thesis using h same_headers_same_blocks [OF a(1) b(1) h] a(2) b(2) by auto
qed

theorem same_tip_same_chain_witness:
  "nd_storage boot_node (HEIGHT_INDEX, KU64 0) = nd_storage (boot_node\<lparr>nd_clock := Inr 7\<rparr>) (HEIGHT_INDEX, KU64 0)"
proof -
  have r: "nd_storage boot_node = replay flat_crypto [create_genesis_block flat_crypto]"
    by (simp add: boot_node_def genesis_node_eq replay_single append_block_def)
  from same_tip_same_chain [OF chain_genesis _ chain_genesis, where view = id and view' = id
      and C = flat_crypto and n = boot_node and n' = "boot_node\<lparr>nd_clock := Inr 7\<rparr>"] r
  show ?thesis by simp
qed

text \<open>C38: Agreement stops at the hash. Take a well-formed block that a node on a working database accepts,
  with an odd number of transactions, at least three and fewer than 2^32 - 1, the last of which has
  no inputs. The block with that last transaction repeated is a different block with the same
  hash, for every hash function, and the node would have accepted it in its place: two nodes can
  report the same tip and store different blocks under it.\<close>

theorem block_hash_ambiguous:
  assumes healthy: "redb_healthy R view wview rview"
    and run: "process_and_commit_block R C A block = (Inr u, A')" and wf: "wf_block block"
    and odd: "odd (length (transactions block))" "1 < length (transactions block)"
      "Suc (length (transactions block)) < 2 ^ 32"
    and ins: "inputs (last (transactions block)) = []"
  shows "\<exists>A''. process_and_commit_block R C A (repeat_last block) = (Inr (), A'') \<and>
    get_tip R (auth_storage A'') = get_tip R (auth_storage A') \<and>
    get_block R (auth_storage A') (block_hash C block) = Inr (Some block) \<and>
    get_block R (auth_storage A'') (block_hash C block) = Inr (Some (repeat_last block)) \<and>
    repeat_last block \<noteq> block"
proof -
  have laws: "redb_laws R view wview rview" using healthy by (simp add: redb_healthy_def)
  let ?s = "view (auth_storage A)" and ?b = "repeat_last block"
  note pv = redb_laws.process_valid_next [OF laws run wf]
  from repeat_last_valid [OF pv(1) odd ins] have v: "valid_next C ?s ?b" .
  moreover have "auth_state A = Running" by (rule redb_laws.process_ok(1) [OF laws run])
  ultimately have "fst (process_and_commit_block R C A ?b) = Inr ()"
    by (simp add: redb_healthy.process_accepts_iff [OF healthy] valid_next_def)
  then obtain A'' where run': "process_and_commit_block R C A ?b = (Inr (), A'')" by (metis prod.collapse)
  from v have wf': "wf_block ?b" by (simp add: valid_next_def)
  note pv' = redb_laws.process_valid_next [OF laws run' wf']
  have "?b \<noteq> block" by (rule repeat_last_neq)
  with run' pv(2) pv'(2) apply_block_block(1) [OF wf, of C] apply_block_block(1) [OF wf', of C]
  show ?thesis
    by (simp add: redb_healthy.get_tip_ok [OF healthy] redb_healthy.get_block_ok [OF healthy] append_block_def
        apply_block_tip)
qed

theorem block_hash_ambiguous_witness:
  "\<exists>a b A A'. process_and_commit_block mem_redb flat_crypto genesis_node a = (Inr (), A) \<and>
     process_and_commit_block mem_redb flat_crypto genesis_node b = (Inr (), A') \<and>
     get_tip mem_redb (auth_storage A) = get_tip mem_redb (auth_storage A') \<and> a \<noteq> b"
proof -
  let ?b = "demo_block 3 [demo_free, demo_free]"
  obtain A' where run: "process_and_commit_block mem_redb flat_crypto genesis_node ?b = (Inr (), A')"
    using demo_free_accepted by blast
  have "wf_block ?b"
    by (simp add: demo_block_def demo_coinbase_def genesis_coinbase_def GENESIS_PAYLOAD_def demo_free_def wf_defs)
  from block_hash_ambiguous [OF mem.redb_healthy_axioms run this] run show ?thesis
    by (fastforce simp: demo_block_def demo_free_def)
qed

text \<open>C10: Fees are burnt. When a block is committed whose created outpoints are new, the supply changes by
  exactly what the coinbase creates less all the fees the block pays, and the coinbase is bounded
  by the subsidy alone: the fees leave the supply for ever.\<close>

theorem fees_are_burnt:
  assumes "redb_laws R view wview rview" "process_and_commit_block R C A block = (Inr u, A')"
    and "wf_block block" "fresh_outputs C (view (auth_storage A)) block"
  shows "total_supply (view (auth_storage A')) + block_fees (view (auth_storage A)) block =
      total_supply (view (auth_storage A)) + output_total (hd (transactions block)) \<and>
    output_total (hd (transactions block)) \<le> unat (allowed_subsidy (height (header block)))"
proof -
  note pv = redb_laws.process_valid_next [OF assms(1-3)]
  from valid_next_supply [OF pv(1) assms(4)] pv show ?thesis
    by (simp add: valid_next_def block_structure_ok_def)
qed

theorem fees_are_burnt_witness:
  "\<exists>A'. process_and_commit_block mem_redb flat_crypto genesis_node (demo_block 0 [demo_spend]) = (Inr (), A') \<and>
     total_supply (auth_storage A') + 2640000000000000 = total_supply (auth_storage genesis_node)"
proof -
  let ?s = "auth_storage genesis_node" and ?b = "demo_block 0 [demo_spend]"
  obtain A' where run: "process_and_commit_block mem_redb flat_crypto genesis_node ?b = (Inr (), A')"
    using demo_spend_accepted [of 0] by (metis prod.collapse)
  have "wf_block ?b"
    by (simp add: demo_block_def demo_coinbase_def genesis_coinbase_def GENESIS_PAYLOAD_def demo_spend_def wf_defs)
  moreover have "fresh_outputs flat_crypto ?s ?b"
    by (simp add: fresh_outputs_def block_outputs_def created_outputs_def demo_block_def demo_coinbase_facts
        demo_spend_facts)
  moreover have "block_fees ?s ?b = 2640000000000000"
  proof -
    have "lookup_amount (store_lookup ?s) (OutPoint_new 0 0) = 1980000000000000"
      "lookup_amount (store_lookup ?s) (OutPoint_new 0 1) = 660000000000000"
      unfolding lookup_amount_def using demo_lookup [of 0] demo_lookup [of 1]
      by (simp_all add: genesis_coinbase_def saturating_mul_def CREATOR_ALLOCATION_AUR_def
          DEV_ALLOCATION_AUR_def QUANTA_PER_AUR_def)
    then show ?thesis by (simp add: block_fees_def demo_block_def demo_spend_facts input_total_def)
  qed
  ultimately have "total_supply (auth_storage A') + 2640000000000000 = total_supply ?s"
    using fees_are_burnt [OF mem.redb_laws_axioms run] by (simp add: demo_block_def demo_coinbase_facts)
  with run show ?thesis by blast
qed

end
