(* ===== verification/Mesh.thy ===== *)
theory Mesh
  imports Chain
begin

text \<open>
  Several nodes and the peer mesh between them. Each broadcast a node has spawned may run at any
  time and may fail; a published sample may reach any node late, in any order, several times or
  never. The daemon follows the first valid block it sees at a height and asks no peer for blocks
  it missed; the properties say what this gives: blocks only enter through an accepted submission,
  the ledgers of a mesh with one block producer are prefixes of one chain, and a peer follows that
  chain exactly as far as its subscription delivers the blocks in order.
\<close>

section \<open>Tasks and samples\<close>

text \<open>The body of the tasks spawned by the RPC handlers, and the sample such a task puts.\<close>

definition run_broadcast :: "'vk crypto \<Rightarrow> zenoh \<Rightarrow> broadcast \<Rightarrow> (network_error, unit) result" where
  "run_broadcast C Z t = (case t of
     GossipBlock block \<Rightarrow> broadcast_block C Z block
   | GossipTx tx \<Rightarrow> broadcast_transaction C Z tx)"

definition broadcast_sample :: "'vk crypto \<Rightarrow> broadcast \<Rightarrow> (network_error, string \<times> bytes) result" where
  "broadcast_sample C t = (case t of GossipBlock block \<Rightarrow> block_sample C block | GossipTx tx \<Rightarrow> tx_sample C tx)"

text \<open>A broadcast succeeds exactly when its sample can be framed and the session takes it.\<close>

lemma run_broadcast_Inr:
  "run_broadcast C Z t = Inr () \<longleftrightarrow>
     (\<exists>topic frame. broadcast_sample C t = Inr (topic, frame) \<and> z_put Z topic frame = Inr ())"
  by (cases t) (auto simp: run_broadcast_def broadcast_sample_def broadcast_block_def
      broadcast_transaction_def map_err_eq_Inr)

fun accepted_submission :: "rpc_request \<Rightarrow> rpc_response \<Rightarrow> block option" where
  "accepted_submission (SubmitBlock block) (RespSubmitBlock (Accepted _ _)) = Some block"
| "accepted_submission _ _ = None"

section \<open>The mesh as a step relation\<close>

record 'db mesh =
  ms_node :: "nat \<Rightarrow> 'db node"
  ms_wire :: "(string \<times> bytes) list"

definition at_node :: "nat \<Rightarrow> 'db node \<Rightarrow> 'db mesh \<Rightarrow> 'db mesh" where
  "at_node i n M = M\<lparr>ms_node := (ms_node M)(i := n)\<rparr>"

text \<open>A step is labelled with the node and the block of an accepted submission.\<close>

inductive mesh_step ::
    "('db \<Rightarrow> store) \<Rightarrow> ('wtx \<Rightarrow> store) \<Rightarrow> ('rtx \<Rightarrow> store) \<Rightarrow> 'vk crypto \<Rightarrow> 'db mesh
     \<Rightarrow> (nat \<times> block) option \<Rightarrow> 'db mesh \<Rightarrow> bool"
  for view wview rview C where
    mesh_rpc: "redb_laws R view wview rview \<Longrightarrow> wf_request req \<Longrightarrow>
      (\<forall>tx. req = SendRawTransaction tx \<longrightarrow> no_collision C (nd_mempool (ms_node M i)) tx) \<Longrightarrow>
      dispatch (AurionNodeService R C) req (ms_node M i) = (resp, n') \<Longrightarrow>
      mesh_step view wview rview C M (map_option (Pair i) (accepted_submission req resp)) (at_node i n' M)"
  | mesh_publish: "t \<in> set (nd_spawned (ms_node M i)) \<Longrightarrow> run_broadcast C Z t = Inr () \<Longrightarrow>
      broadcast_sample C t = Inr smp \<Longrightarrow>
      mesh_step view wview rview C M None (M\<lparr>ms_wire := ms_wire M @ [smp]\<rparr>)"
  | mesh_block: "redb_laws R view wview rview \<Longrightarrow> nd_gossip (ms_node M i) \<Longrightarrow>
      (TOPIC_BLOCKS_NEW, frame) \<in> set (ms_wire M) \<Longrightarrow>
      mesh_step view wview rview C M None
        (at_node i (inbound_block R C (decode_block_frame C frame) (ms_node M i)) M)"
  | mesh_tx: "redb_laws R view wview rview \<Longrightarrow> nd_gossip (ms_node M i) \<Longrightarrow>
      (TOPIC_TX_NEW, frame) \<in> set (ms_wire M) \<Longrightarrow>
      (\<forall>tx. decode_tx_frame C frame = Inr tx \<longrightarrow> no_collision C (nd_mempool (ms_node M i)) tx) \<Longrightarrow>
      mesh_step view wview rview C M None
        (at_node i (inbound_tx R C (decode_tx_frame C frame) (ms_node M i)) M)"
  | mesh_clock: "mesh_step view wview rview C M None (at_node i ((ms_node M i)\<lparr>nd_clock := t\<rparr>) M)"
  | mesh_restart: "redb_laws R view wview rview \<Longrightarrow> db_create R path = Inr db \<Longrightarrow>
      view db = view (nd_storage (ms_node M i)) \<Longrightarrow> execute_node R C path g t = Inr n' \<Longrightarrow>
      mesh_step view wview rview C M None (at_node i n' M)"

text \<open>A run starts with freshly installed nodes; its log lists the accepted submissions.\<close>

inductive mesh_run ::
    "('db \<Rightarrow> store) \<Rightarrow> ('wtx \<Rightarrow> store) \<Rightarrow> ('rtx \<Rightarrow> store) \<Rightarrow> 'vk crypto \<Rightarrow> (nat \<times> block) list
     \<Rightarrow> 'db mesh \<Rightarrow> bool"
  for view wview rview C where
    mesh_start: "(\<And>i. redb_laws (R i) view wview rview) \<Longrightarrow> (\<And>i. db_create (R i) (path i) = Inr (db i)) \<Longrightarrow>
      (\<And>i. view (db i) = (\<lambda>_. None)) \<Longrightarrow> (\<And>i. execute_node (R i) C (path i) (g i) (t i) = Inr (ms_node M i)) \<Longrightarrow>
      ms_wire M = [] \<Longrightarrow> mesh_run view wview rview C [] M"
  | mesh_more: "mesh_run view wview rview C log M \<Longrightarrow> mesh_step view wview rview C M lbl M' \<Longrightarrow>
      mesh_run view wview rview C (log @ (case lbl of None \<Rightarrow> [] | Some s \<Rightarrow> [s])) M'"

lemma at_node_simps [simp]:
  "ms_node (at_node i n M) j = (if j = i then n else ms_node M j)" "ms_wire (at_node i n M) = ms_wire M"
  by (simp_all add: at_node_def)

text \<open>Every node of a mesh is a node of \<open>Node_System\<close>.\<close>

lemma mesh_step_node:
  assumes "mesh_step view wview rview C M lbl M'"
  shows "ms_node M' i = ms_node M i \<or> node_step view wview rview C (ms_node M i) (ms_node M' i)"
  using assms by cases (auto intro: node_step.intros)

lemma mesh_node_reachable:
  "mesh_run view wview rview C log M \<Longrightarrow> node_reachable view wview rview C (ms_node M i)"
proof (induction rule: mesh_run.induct)
  case (mesh_start R path db g t M)
  show ?case by (rule node_reachable.boot [OF mesh_start(1-4)])
next
  case (mesh_more log M lbl M')
  with mesh_step_node [OF mesh_more(2), of i] show ?case by (auto intro: node_steps)
qed

section \<open>The blocks in circulation\<close>

definition circulating :: "'vk crypto \<Rightarrow> 'db mesh \<Rightarrow> block set" where
  "circulating C M = {b. \<exists>i. GossipBlock b \<in> set (nd_spawned (ms_node M i))} \<union>
     {b. \<exists>frame. (TOPIC_BLOCKS_NEW, frame) \<in> set (ms_wire M) \<and> decode_block_frame C frame = Inr b}"

lemma sample_decodes:
  assumes "broadcast_sample C t = Inr (TOPIC_BLOCKS_NEW, frame)" "decode_block_frame C frame = Inr b"
    and "\<And>block. t = GossipBlock block \<Longrightarrow> wf_block block"
  shows "t = GossipBlock b"
proof (cases t)
  case (GossipBlock block)
  with assms(1) have f: "pack_frame C ''block'' (encode_block block) = Inr frame"
    by (simp add: broadcast_sample_def block_sample_def)
  then have "length (encode_block block) \<le> 4194304" by (simp add: pack_frame_Inr)
  from block_frame_roundtrip [OF assms(3) [OF GossipBlock] this, of C] f assms(2) GossipBlock
  show ?thesis by simp
next
  case (GossipTx tx)
  with assms(1) topics_distinct show ?thesis by (auto simp: broadcast_sample_def tx_sample_def)
qed

lemma inbound_spawned [simp]:
  "nd_spawned (inbound_block R C msg n) = nd_spawned n" "nd_spawned (inbound_tx R C msg' n) = nd_spawned n"
  by (auto simp: inbound_block_def inbound_tx_def Let_def split: sum.split prod.split)

lemma execute_node_spawned: "execute_node R C path g t = Inr n \<Longrightarrow> nd_spawned n = []"
  by (erule execute_node_Inr) simp

context redb_laws
begin

text \<open>What a request does to the ledger and to the tasks, and what a peer block does.\<close>

lemma rpc_effect:
  assumes wf: "wf_request req" and run: "dispatch (AurionNodeService R C) req n = (resp, n')"
  shows "case accepted_submission req resp of
      None \<Rightarrow> view (nd_storage n') = view (nd_storage n) \<and>
        (\<forall>b. GossipBlock b \<in> set (nd_spawned n') \<longrightarrow> GossipBlock b \<in> set (nd_spawned n))
    | Some b \<Rightarrow> valid_next C (view (nd_storage n)) b \<and>
        view (nd_storage n') = append_block C b (view (nd_storage n)) \<and>
        set (nd_spawned n') \<subseteq> insert (GossipBlock b) (set (nd_spawned n))"
proof (cases req)
  case (SubmitBlock block)
  with wf have wfb: "wf_block block" by simp
  obtain res where sub: "service_submit_block R C block n = (res, n')"
    and resp: "resp = (case res of Inr x \<Rightarrow> RespSubmitBlock x | Inl err \<Rightarrow> RespError err)"
    using run SubmitBlock by (cases "service_submit_block R C block n")
      (auto simp: AurionNodeService_def respond_def)
  show ?thesis
  proof (cases "accepted res")
    case True
    with resp SubmitBlock have acc: "accepted_submission req resp = Some block" by (auto simp: accepted_def)
    obtain A' u where p: "process_and_commit_block R C (nd_authority n) block = (Inr u, A')"
      using True sub submit_accepted_iff [of R C block n] by (auto simp: is_ok_iff) (metis prod.collapse)
    with submit_accepted(1,4) [OF sub True] process_valid_next [OF p wfb] acc show ?thesis
      by (auto simp: append_block_def)
  next
    case False
    then have "accepted_submission req resp = None"
      using resp SubmitBlock by (cases res; cases "projr res") (auto simp: accepted_def split: sum.splits)
    with submit_rejected [OF sub False] show ?thesis by simp
  qed
next
  case (SendRawTransaction tx)
  with run have "n' = snd (service_send_raw_tx R C tx n)" by (auto simp: AurionNodeService_def respond_def)
  then show ?thesis using SendRawTransaction
    by (auto simp: service_send_raw_tx_def Let_def spawn_def split: sum.split prod.split)
next
  case (GetBlockTemplate p)
  with run show ?thesis
    by (auto simp: AurionNodeService_def respond_def service_get_block_template_def)
next
  case GetTipStatus
  with run show ?thesis
    by (auto simp: AurionNodeService_def respond_def service_get_tip_status_def)
qed

lemma inbound_effect:
  assumes "decode_block_frame C frame = Inr b"
  shows "view (nd_storage (inbound_block R C (Inr b) n)) = view (nd_storage n) \<or>
    valid_next C (view (nd_storage n)) b \<and>
    view (nd_storage (inbound_block R C (Inr b) n)) = append_block C b (view (nd_storage n))"
proof (cases "process_and_commit_block R C (nd_authority n) b")
  case (Pair res A')
  show ?thesis
  proof (cases res)
    case (Inl e)
    with Pair process_err(1) [OF Pair [unfolded Inl]] show ?thesis by (simp add: inbound_block_after after_block_def)
  next
    case (Inr u)
    with Pair process_valid_next [OF Pair [unfolded Inr] decode_block_frame_wf [OF assms]] show ?thesis
      by (simp add: inbound_block_after after_block_def)
  qed
qed

end

text \<open>One step of the mesh, seen from the ledgers.\<close>

definition ledger :: "('db \<Rightarrow> store) \<Rightarrow> 'db mesh \<Rightarrow> nat \<Rightarrow> store" where
  "ledger view M i = view (nd_storage (ms_node M i))"

definition appends :: "'vk crypto \<Rightarrow> block \<Rightarrow> store \<Rightarrow> store \<Rightarrow> bool" where
  "appends C b s s' \<longleftrightarrow> valid_next C s b \<and> s' = append_block C b s"

lemma mesh_step_ledger:
  assumes step: "mesh_step view wview rview C M lbl M'" and inv: "\<And>i. node_inv C view (ms_node M i)"
  shows "ledger view M' j = ledger view M j \<or>
    (\<exists>b. appends C b (ledger view M j) (ledger view M' j) \<and> (lbl = Some (j, b) \<or> (lbl = None \<and> b \<in> circulating C M)))"
    and "lbl = Some (i, b) \<Longrightarrow> appends C b (ledger view M i) (ledger view M' i)"
proof -
  show "ledger view M' j = ledger view M j \<or>
    (\<exists>b. appends C b (ledger view M j) (ledger view M' j) \<and> (lbl = Some (j, b) \<or> (lbl = None \<and> b \<in> circulating C M)))"
    using step
  proof cases
    case (mesh_rpc R req i resp n')
    with redb_laws.rpc_effect [OF mesh_rpc(3,4,6)] show ?thesis
      by (auto simp: ledger_def appends_def split: option.splits)
  next
    case (mesh_block R i frame)
    show ?thesis
    proof (cases "decode_block_frame C frame")
      case (Inr b)
      with mesh_block have "b \<in> circulating C M" by (auto simp: circulating_def)
      with mesh_block Inr redb_laws.inbound_effect [OF mesh_block(3) Inr, of "ms_node M i"] show ?thesis
        by (auto simp: ledger_def appends_def)
    qed (use mesh_block in \<open>simp add: ledger_def inbound_block_def\<close>)
  next
    case (mesh_restart R path db i g t n')
    with redb_laws.execute_node_ledger [OF mesh_restart(3,6,4)] inv [of i] show ?thesis
      by (auto simp: ledger_def node_inv_def)
  qed (auto simp: ledger_def inbound_tx_storage)
  show "appends C b (ledger view M i) (ledger view M' i)" if "lbl = Some (i, b)"
    using step
  proof cases
    case (mesh_rpc R req i' resp n')
    with that redb_laws.rpc_effect [OF mesh_rpc(3,4,6)] show ?thesis
      by (auto simp: ledger_def appends_def)
  qed (use that in simp_all)
qed

lemma mesh_step_circulating:
  assumes step: "mesh_step view wview rview C M lbl M'" and wf: "\<And>b. b \<in> circulating C M \<Longrightarrow> wf_block b"
  shows "circulating C M' \<subseteq> circulating C M \<union> snd ` set_option lbl"
  using step
proof cases
  case (mesh_rpc R req i resp n')
  with redb_laws.rpc_effect [OF mesh_rpc(3,4,6)] show ?thesis
    by (fastforce simp: circulating_def split: option.splits if_splits)
next
  case (mesh_publish t i Z smp)
  have "b \<in> circulating C M" if "smp = (TOPIC_BLOCKS_NEW, frame)" "decode_block_frame C frame = Inr b" for frame b
  proof -
    have "t = GossipBlock b"
      using sample_decodes [OF _ that(2), of t] mesh_publish that(1) wf by (auto simp: circulating_def)
    with mesh_publish show ?thesis by (auto simp: circulating_def)
  qed
  with mesh_publish show ?thesis by (auto simp: circulating_def)
next
  case (mesh_restart R path db i g t n')
  with execute_node_spawned [OF mesh_restart(6)] show ?thesis
    by (auto simp: circulating_def split: if_splits)
qed (auto simp: circulating_def split: if_splits)

lemma appends_chain:
  assumes "valid_chain C bs" "appends C b (replay C bs) s"
  shows "valid_chain C (bs @ [b])" "s = replay C (bs @ [b])" "unat (height (header b)) = length bs" "wf_block b"
  using assms chain_next valid_next_height by (fastforce simp: appends_def valid_next_def)+

section \<open>Where blocks come from\<close>

definition provenance :: "('db \<Rightarrow> store) \<Rightarrow> 'vk crypto \<Rightarrow> (nat \<times> block) list \<Rightarrow> 'db mesh \<Rightarrow> bool" where
  "provenance view C log M \<longleftrightarrow>
     circulating C M \<subseteq> snd ` set log \<and> (\<forall>b\<in>snd ` set log. wf_block b) \<and>
     (\<forall>i. \<exists>bs. valid_chain C bs \<and> ledger view M i = replay C bs \<and> set (tl bs) \<subseteq> snd ` set log)"

lemma mesh_start_facts:
  assumes "redb_laws R view wview rview" "db_create R path = Inr db" "view db = (\<lambda>_. None)"
    and "execute_node R C path g t = Inr n"
  shows "view (nd_storage n) = replay C [create_genesis_block C]" "nd_spawned n = []"
  using redb_laws.execute_node_ledger [OF assms(1,4,2)] assms(3) execute_node_spawned [OF assms(4)]
  by (auto simp: replay_single append_block_def store_tip_def)

lemma mesh_inv: "mesh_run view wview rview C log M \<Longrightarrow> node_inv C view (ms_node M i)"
  by (rule node_reachable_inv [OF mesh_node_reachable])

lemma mesh_provenance: "mesh_run view wview rview C log M \<Longrightarrow> provenance view C log M"
proof (induction rule: mesh_run.induct)
  case (mesh_start R path db g t M)
  note f = mesh_start_facts [OF mesh_start(1-4)]
  have "circulating C M = {}" using f(2) mesh_start(5) by (simp add: circulating_def)
  moreover have "\<exists>bs. valid_chain C bs \<and> ledger view M i = replay C bs \<and> set (tl bs) \<subseteq> {}" for i
    using f(1) by (intro exI [of _ "[create_genesis_block C]"]) (simp add: ledger_def chain_genesis)
  ultimately show ?case by (simp add: provenance_def)
next
  case (mesh_more log M lbl M')
  let ?new = "case lbl of None \<Rightarrow> [] | Some s \<Rightarrow> [s]"
  note inv = mesh_inv [OF mesh_more(1)]
  note IH = mesh_more.IH [unfolded provenance_def]
  have new: "snd ` set (log @ ?new) = snd ` set log \<union> snd ` set_option lbl" by (cases lbl) auto
  have wf: "wf_block b" if "b \<in> circulating C M" for b using IH that by auto
  note led = mesh_step_ledger [OF mesh_more(2) inv]
  have "circulating C M' \<subseteq> snd ` set (log @ ?new)"
    unfolding new using mesh_step_circulating [OF mesh_more(2) wf] IH by blast
  moreover have "\<forall>b\<in>snd ` set (log @ ?new). wf_block b"
    unfolding new using IH led(2) by (fastforce simp: appends_def valid_next_def)
  moreover have "\<exists>bs. valid_chain C bs \<and> ledger view M' j = replay C bs \<and> set (tl bs) \<subseteq> snd ` set (log @ ?new)" for j
  proof -
    from IH obtain bs where bs: "valid_chain C bs" "ledger view M j = replay C bs" "set (tl bs) \<subseteq> snd ` set log"
      by blast
    show ?thesis
    proof (cases "ledger view M' j = ledger view M j")
      case True
      with bs show ?thesis unfolding new by (intro exI [of _ bs]) auto
    next
      case False
      with led(1) [of j] obtain b where b: "appends C b (replay C bs) (ledger view M' j)"
        "lbl = Some (j, b) \<or> b \<in> circulating C M" unfolding bs(2) by blast
      then have "b \<in> snd ` set log \<union> snd ` set_option lbl" using IH by force
      moreover have "set (tl (bs @ [b])) \<subseteq> insert b (set (tl bs))" by (cases bs) auto
      ultimately show ?thesis unfolding new using appends_chain(1,2) [OF bs(1) b(1)] bs(3)
        by (intro exI [of _ "bs @ [b]"]) blast
    qed
  qed
  ultimately show ?case by (simp add: provenance_def)
qed

section \<open>One producer of blocks\<close>

text \<open>With one node accepting submissions, every ledger is a prefix of its chain.\<close>

definition follows :: "('db \<Rightarrow> store) \<Rightarrow> 'vk crypto \<Rightarrow> nat \<Rightarrow> 'db mesh \<Rightarrow> block list \<Rightarrow> bool" where
  "follows view C m M cm \<longleftrightarrow> valid_chain C cm \<and> ledger view M m = replay C cm \<and>
     circulating C M \<subseteq> set cm \<and>
     (\<forall>i. \<exists>bs. bs \<noteq> [] \<and> ledger view M i = replay C bs \<and> prefix bs cm)"

lemma follows_wf: "follows view C m M cm \<Longrightarrow> b \<in> circulating C M \<Longrightarrow> wf_block b"
  by (auto simp: follows_def intro: valid_chain_wf)

lemma prefix_extend:
  assumes chain: "valid_chain C cm" and pre: "prefix bs cm" "bs \<noteq> []"
    and b: "appends C b (replay C bs) s" "b \<in> set cm"
  shows "prefix (bs @ [b]) cm" "s = replay C (bs @ [b])"
proof -
  note ac = appends_chain [OF valid_chain_prefix [OF chain pre] b(1)]
  show "s = replay C (bs @ [b])" by (rule ac(2))
  from valid_chain_at_height [OF chain b(2)] ac(3) have at: "cm ! length bs = b" by simp
  from b(2) valid_chain_height [OF chain] ac(3) have "length bs < length cm"
    by (metis in_set_conv_nth)
  then obtain c zs where "cm = bs @ c # zs" using pre(1) by (auto simp: prefix_def neq_Nil_conv)
  with at show "prefix (bs @ [b]) cm" by simp
qed

lemma follows_step:
  assumes step: "mesh_step view wview rview C M lbl M'" and inv: "\<And>i. node_inv C view (ms_node M i)"
    and f: "follows view C m M cm" and only: "\<And>i b. lbl = Some (i, b) \<Longrightarrow> i = m"
  shows "\<exists>ext. follows view C m M' (cm @ ext) \<and> set ext \<subseteq> snd ` set_option lbl"
proof -
  note led = mesh_step_ledger [OF step inv]
  have cm: "valid_chain C cm" "ledger view M m = replay C cm" "circulating C M \<subseteq> set cm"
    using f by (simp_all add: follows_def)
  have circ: "circulating C M' \<subseteq> set cm \<union> snd ` set_option lbl"
    using mesh_step_circulating [OF step follows_wf [OF f]] cm(3) by blast
  have others: "\<exists>bs. bs \<noteq> [] \<and> ledger view M' i = replay C bs \<and> prefix bs (cm @ ext)"
    if "i \<noteq> m \<or> lbl = None" for i ext
  proof -
    from f obtain bs where bs: "bs \<noteq> []" "ledger view M i = replay C bs" "prefix bs cm"
      by (auto simp: follows_def)
    show ?thesis
    proof (cases "ledger view M' i = ledger view M i")
      case True
      with bs show ?thesis by (intro exI [of _ bs]) (simp add: prefix_prefix)
    next
      case False
      with led(1) [of i] obtain b where b: "appends C b (ledger view M i) (ledger view M' i)"
        "lbl = Some (i, b) \<or> (lbl = None \<and> b \<in> circulating C M)" by blast
      from b(2) that only cm(3) have "b \<in> set cm" by blast
      from prefix_extend [OF cm(1) bs(3,1) b(1) [unfolded bs(2)] this] show ?thesis
        by (intro exI [of _ "bs @ [b]"]) (simp add: prefix_prefix)
    qed
  qed
  show ?thesis
  proof (cases lbl)
    case None
    have "ledger view M' m = ledger view M m"
    proof (rule ccontr)
      assume "ledger view M' m \<noteq> ledger view M m"
      with led(1) [of m] None cm(2,3) obtain b where "appends C b (replay C cm) (ledger view M' m)" "b \<in> set cm"
        by (metis option.distinct(1) subsetD)
      from prefix_extend(1) [OF cm(1) prefix_order.refl valid_chain_not_Nil [OF cm(1)] this] show False
        by (simp add: prefix_def)
    qed
    with None cm circ others [of _ "[]"] show ?thesis by (intro exI [of _ "[]"]) (simp add: follows_def)
  next
    case (Some p)
    with only obtain b where b: "lbl = Some (m, b)" by (cases p) auto
    from led(2) [OF b] have ap: "appends C b (replay C cm) (ledger view M' m)" by (simp add: cm(2))
    note ac = appends_chain [OF cm(1) ap]
    have "\<exists>bs. bs \<noteq> [] \<and> ledger view M' i = replay C bs \<and> prefix bs (cm @ [b])" for i
    proof (cases "i = m")
      case True
      with ac(2) show ?thesis by (intro exI [of _ "cm @ [b]"]) simp
    qed (use others in blast)
    with ac b circ have "follows view C m M' (cm @ [b])" by (auto simp: follows_def)
    with b show ?thesis by (intro exI [of _ "[b]"]) simp
  qed
qed

lemma mesh_follows:
  "mesh_run view wview rview C log M \<Longrightarrow> fst ` set log \<subseteq> {m} \<Longrightarrow>
     \<exists>cm. follows view C m M cm \<and> set (tl cm) \<subseteq> snd ` set log"
proof (induction rule: mesh_run.induct)
  case (mesh_start R path db g t M)
  note f = mesh_start_facts [OF mesh_start(1-4)]
  have "circulating C M = {}" using f(2) mesh_start(5) by (simp add: circulating_def)
  then have "follows view C m M [create_genesis_block C]"
    using f(1) by (auto simp: follows_def ledger_def chain_genesis intro!: exI [of _ "[create_genesis_block C]"])
  then show ?case by (intro exI [of _ "[create_genesis_block C]"]) simp
next
  case (mesh_more log M lbl M')
  then obtain cm where f: "follows view C m M cm" and tl: "set (tl cm) \<subseteq> snd ` set log" by auto
  have only: "i = m" if "lbl = Some (i, b)" for i b using mesh_more.prems that by auto
  from follows_step [OF mesh_more(2) mesh_inv [OF mesh_more(1)] f] only obtain ext where
    ext: "follows view C m M' (cm @ ext)" "set ext \<subseteq> snd ` set_option lbl" by blast
  have "cm \<noteq> []" using f valid_chain_not_Nil by (auto simp: follows_def)
  with tl ext(2) have "set (tl (cm @ ext)) \<subseteq> snd ` set (log @ (case lbl of None \<Rightarrow> [] | Some s \<Rightarrow> [s]))"
    by (cases lbl) auto
  with ext(1) show ?case by blast
qed

section \<open>Blocks out of order\<close>

context redb_laws
begin

lemma inbound_off_tip:
  assumes tip: "store_tip (view (nd_storage n)) = Inr (Some (h, hash))"
    and off: "\<And>b. msg = Inr b \<Longrightarrow> unat (height (header b)) \<noteq> Suc (unat h)"
  shows "view (nd_storage (inbound_block R C msg n)) = view (nd_storage n)"
proof (cases msg)
  case (Inr b)
  obtain res A' where run: "process_and_commit_block R C (nd_authority n) b = (res, A')" by (metis surj_pair)
  have "\<not> connects (view (nd_storage n)) b"
    using tip off [OF Inr] by (auto simp: connects_def expected_next_Inr)
  then obtain e where "res = Inl e" using process_ok(3) run by (cases res) auto
  with run Inr process_err(1) [of C "nd_authority n" b e A'] show ?thesis
    by (simp add: inbound_block_after after_block_def)
qed (simp add: inbound_block_def)

lemma inbound_all_off_tip:
  assumes "store_tip (view (nd_storage n)) = Inr (Some (h, hash))"
    and "\<forall>b. Inr b \<in> set msgs \<longrightarrow> unat (height (header b)) \<noteq> Suc (unat h)"
  shows "view (nd_storage (fold (inbound_block R C) msgs n)) = view (nd_storage n)"
  using assms
proof (induction msgs arbitrary: n)
  case (Cons msg msgs)
  have "view (nd_storage (inbound_block R C msg n)) = view (nd_storage n)"
    by (rule inbound_off_tip [OF Cons.prems(1)]) (use Cons.prems(2) in auto)
  with Cons.IH [of "inbound_block R C msg n"] Cons.prems show ?case by simp
qed simp

end

section \<open>Following a subscription\<close>

context redb_healthy
begin

lemma process_keeps_running:
  assumes "auth_state A = Running" "store_tip (view (auth_storage A)) = Inr tip"
    and "process_and_commit_block R C A block = (res, A')"
  shows "auth_state A' = Running"
proof (cases "fst (validate_block R C A block)")
  case (Inl e)
  with assms show ?thesis
    by (auto simp: process_and_commit_block_def validate_block_def enforce_operational_def is_operational_iff
        get_tip_ok split: prod.splits sum.splits)
next
  case (Inr spent)
  then have "validate_block R C A block = (Inr spent, A)"
    by (cases "validate_block R C A block") (auto simp: validate_block_Inr)
  then obtain u where "res = Inr u"
    using assms(3) commit_validated_ok [of C A block spent] by (auto simp: process_and_commit_block_def)
  with assms(3) process_ok(2) show ?thesis by blast
qed

text \<open>One item of a subscription to blocks of a chain: the next block is appended, any other is not.\<close>

lemma inbound_next:
  assumes "valid_next C (view (nd_storage n)) b" "auth_state (nd_authority n) = Running"
  shows "view (nd_storage (inbound_block R C (Inr b) n)) = append_block C b (view (nd_storage n))"
    and "auth_state (nd_authority (inbound_block R C (Inr b) n)) = Running"
proof -
  from assms have "fst (process_and_commit_block R C (nd_authority n) b) = Inr ()"
    by (simp add: process_accepts_iff valid_next_def)
  then obtain A' where run: "process_and_commit_block R C (nd_authority n) b = (Inr (), A')"
    by (metis prod.collapse)
  moreover from assms(1) have "wf_block b" by (simp add: valid_next_def)
  ultimately show "view (nd_storage (inbound_block R C (Inr b) n)) = append_block C b (view (nd_storage n))"
    "auth_state (nd_authority (inbound_block R C (Inr b) n)) = Running"
    using process_valid_next(2) [OF run] process_ok(2) [OF run]
    by (simp_all add: inbound_block_after after_block_def)
qed

lemma inbound_keeps_running:
  assumes "auth_state (nd_authority n) = Running" "store_tip (view (nd_storage n)) = Inr tip"
  shows "auth_state (nd_authority (inbound_block R C msg n)) = Running"
  using process_keeps_running [OF assms] assms(1)
  by (auto simp: inbound_block_def split: sum.split prod.split)

lemma stream_follows:
  assumes chain: "valid_chain C chain" and k: "0 < k" "k \<le> length chain"
    and led: "view (nd_storage n) = replay C (take k chain)" and up: "auth_state (nd_authority n) = Running"
    and blocks: "\<forall>b. Inr b \<in> set stream \<longrightarrow> b \<in> set chain"
  shows "\<exists>j. k \<le> j \<and> j \<le> length chain \<and>
    view (nd_storage (fold (inbound_block R C) stream n)) = replay C (take j chain) \<and>
    subseq (map Inr (take (j - k) (drop k chain))) stream \<and>
    (subseq (map Inr (drop k chain)) stream \<longrightarrow> j = length chain)"
  using k led up blocks
proof (induction stream arbitrary: k n)
  case Nil
  then show ?case by (intro exI [of _ k]) (auto dest: list_emb_length)
next
  case (Cons msg stream)
  let ?n' = "inbound_block R C msg n"
  have pre: "valid_chain C (take k chain)"
    using Cons.prems(1,2) by (intro valid_chain_prefix [OF chain take_is_prefix]) auto
  note tip = valid_chain_tip [OF pre, folded Cons.prems(3)]
  show ?case
  proof (cases "k < length chain \<and> msg = Inr (chain ! k)")
    case True
    then have drop: "drop k chain = chain ! k # drop (Suc k) chain" by (simp add: Cons_nth_drop_Suc)
    have take: "take (Suc k) chain = take k chain @ [chain ! k]" using True by (simp add: take_Suc_conv_app_nth)
    have "valid_chain C (take k chain @ [chain ! k])"
      unfolding take [symmetric] using True by (intro valid_chain_prefix [OF chain take_is_prefix]) auto
    then have "valid_next C (view (nd_storage n)) (chain ! k)"
      using Cons.prems(1,2,3) True by (auto elim: valid_chain_snocE)
    note nxt = inbound_next [OF this Cons.prems(4)]
    from nxt True obtain j where "Suc k \<le> j" "j \<le> length chain"
      "view (nd_storage (fold (inbound_block R C) stream ?n')) = replay C (take j chain)"
      "subseq (map Inr (take (j - Suc k) (drop (Suc k) chain))) stream"
      "subseq (map Inr (drop (Suc k) chain)) stream \<longrightarrow> j = length chain"
      using Cons.IH [of "Suc k" ?n'] Cons.prems(3,5) take by auto
    moreover from this(1) have "take (j - k) (drop k chain) = chain ! k # take (j - Suc k) (drop (Suc k) chain)"
      by (simp add: drop flip: Suc_diff_Suc)
    ultimately show ?thesis using True by (intro exI [of _ j]) (simp add: drop)
  next
    case False
    have off: "unat (height (header b)) \<noteq> Suc (unat (height (header (last (take k chain)))))" if "msg = Inr b" for b
    proof -
      from that Cons.prems(5) have b: "b \<in> set chain" by auto
      then have "unat (height (header b)) < length chain"
        by (metis chain in_set_conv_nth valid_chain_height)
      with False that valid_chain_at_height [OF chain b] have "unat (height (header b)) \<noteq> k" by auto
      with valid_chain_last_height [OF pre] Cons.prems(1,2) show ?thesis by simp
    qed
    have same: "view (nd_storage ?n') = view (nd_storage n)" by (rule inbound_off_tip [OF tip off])
    have up': "auth_state (nd_authority ?n') = Running" by (rule inbound_keeps_running [OF Cons.prems(4) tip])
    have later: "\<forall>b. Inr b \<in> set stream \<longrightarrow> b \<in> set chain" using Cons.prems(5) by simp
    from Cons.IH [OF Cons.prems(1,2) same [unfolded Cons.prems(3)] up' later] obtain j where
      j: "k \<le> j" "j \<le> length chain" "view (nd_storage (fold (inbound_block R C) stream ?n')) = replay C (take j chain)"
        "subseq (map Inr (take (j - k) (drop k chain))) stream"
        "subseq (map Inr (drop k chain)) stream \<longrightarrow> j = length chain" by blast
    have "j = length chain" if "subseq (map Inr (drop k chain)) (msg # stream)"
    proof (cases "k < length chain")
      case True
      then have drop: "drop k chain = chain ! k # drop (Suc k) chain" by (simp add: Cons_nth_drop_Suc)
      from True False have "Inr (chain ! k) \<noteq> msg" by auto
      with that j(5) show ?thesis by (simp add: drop subseq_Cons2_neq)
    qed (use j(1,2) in simp)
    with j show ?thesis by (intro exI [of _ j]) (simp add: list_emb_Cons)
  qed
qed

end

section \<open>A mesh in memory\<close>

abbreviation mem_mesh :: "(nat \<times> block) list \<Rightarrow> store mesh \<Rightarrow> bool" where
  "mem_mesh \<equiv> mesh_run id (id :: store \<Rightarrow> store) (id :: store \<Rightarrow> store) flat_crypto"

text \<open>Node 0 accepts a block and publishes it; node 1 has not received it yet.\<close>

lemma demo_mesh:
  "\<exists>M frame. mem_mesh [(0, demo_block 3 [])] M \<and> ms_node M 1 = boot_node \<and>
     (TOPIC_BLOCKS_NEW, frame) \<in> set (ms_wire M) \<and> decode_block_frame flat_crypto frame = Inr (demo_block 3 []) \<and>
     nd_storage (inbound_block mem_redb flat_crypto (Inr (demo_block 3 [])) boot_node) = nd_storage (ms_node M 0)"
proof -
  let ?b = "demo_block 3 []" and ?M0 = "\<lparr>ms_node = (\<lambda>_. boot_node), ms_wire = []\<rparr> :: store mesh"
  have m0: "mem_mesh [] ?M0"
    by (rule mesh_start [OF mem.redb_laws_axioms, of "\<lambda>_. ''aurion.redb''" "\<lambda>_ _. None" flat_crypto "\<lambda>_. True" "\<lambda>_. Inr 1800000000"])
      (simp_all add: boot_node_exec, simp add: mem_redb_def)
  obtain n' where sub: "service_submit_block mem_redb flat_crypto ?b boot_node = (Inr (Accepted 0 1), n')"
    using boot_node_submits by blast
  then have d: "dispatch (AurionNodeService mem_redb flat_crypto) (SubmitBlock ?b) (ms_node ?M0 0)
      = (RespSubmitBlock (Accepted 0 1), n')"
    by (simp add: AurionNodeService_def respond_def)
  let ?M1 = "at_node 0 n' ?M0"
  have m1: "mem_mesh [(0, ?b)] ?M1"
    using mesh_more [OF m0 mesh_rpc [OF mem.redb_laws_axioms _ _ d]] demo_block_small [of 3] by simp
  have acc: "accepted (Inr (Accepted 0 1))" by (simp add: accepted_def)
  from mem.submit_accepted(4) [OF sub acc] have t: "GossipBlock ?b \<in> set (nd_spawned (ms_node ?M1 0))"
    by (simp add: boot_node_def)
  from block_frame_roundtrip [OF demo_block_small [THEN conjunct1] demo_block_small [THEN conjunct2], of flat_crypto 3]
  obtain frame where f: "pack_frame flat_crypto ''block'' (encode_block ?b) = Inr frame"
    "decode_block_frame flat_crypto frame = Inr ?b" by blast
  let ?Z = "\<lparr>z_put = \<lambda>_ _. Inr (), z_get = \<lambda>_ _. Inr None, z_declare_subscriber = \<lambda>_. Inr [],
    z_declare_queryable = \<lambda>_ _. Inr 0\<rparr> :: zenoh"
  have smp: "broadcast_sample flat_crypto (GossipBlock ?b) = Inr (TOPIC_BLOCKS_NEW, frame)"
    using f(1) by (simp add: broadcast_sample_def block_sample_def)
  then have "run_broadcast flat_crypto ?Z (GossipBlock ?b) = Inr ()" by (simp add: run_broadcast_Inr)
  from sub have "nd_storage (inbound_block mem_redb flat_crypto (Inr ?b) boot_node) = nd_storage n'"
    by (auto simp: service_submit_block_def inbound_block_def spawn_def split: prod.splits sum.splits if_splits)
  with mesh_more [OF m1 mesh_publish [OF t \<open>run_broadcast _ _ _ = _\<close> smp]] f(2) show ?thesis
    by (intro exI [of _ "?M1\<lparr>ms_wire := ms_wire ?M1 @ [(TOPIC_BLOCKS_NEW, frame)]\<rparr>"] exI [of _ frame]) (simp add: at_node_def)
qed

section \<open>Properties\<close>

text \<open>C11: Blocks do not come from nowhere. In a mesh of any number of nodes, whatever is delivered, lost,
  repeated or reordered and however often nodes crash, every block in any ledger, in any pending
  task and in any published frame is the genesis block or was accepted by some node from an RPC
  submission, and every ledger is a valid chain of such blocks.\<close>

theorem blocks_come_from_submissions:
  assumes "mesh_run view wview rview C log M"
  shows "\<exists>bs. valid_chain C (create_genesis_block C # bs) \<and>
    view (nd_storage (ms_node M i)) = replay C (create_genesis_block C # bs) \<and>
    set bs \<union> circulating C M \<subseteq> snd ` set log"
proof -
  from mesh_provenance [OF assms] obtain bs where
    bs: "valid_chain C bs" "ledger view M i = replay C bs" "set (tl bs) \<subseteq> snd ` set log"
    and c: "circulating C M \<subseteq> snd ` set log"
    unfolding provenance_def by blast
  from valid_chain_not_Nil [OF bs(1)] valid_chain_hd [OF bs(1)]
  have "bs = create_genesis_block C # tl bs" by (cases bs) auto
  with bs c show ?thesis unfolding ledger_def by (metis Un_least)
qed

theorem blocks_come_from_submissions_witness:
  "\<exists>M bs. mem_mesh [(0, demo_block 3 [])] M \<and> nd_storage (ms_node M 1) = nd_storage boot_node \<and>
     nd_storage (ms_node M 1) = replay flat_crypto (create_genesis_block flat_crypto # bs) \<and>
     set bs \<subseteq> {demo_block 3 []}"
proof -
  obtain M where M: "mem_mesh [(0, demo_block 3 [])] M" "ms_node M 1 = boot_node"
    using demo_mesh by blast
  from blocks_come_from_submissions [OF M(1), of 1] M(2) show ?thesis
    by (intro exI [of _ M]) (auto simp: M(1))
qed

text \<open>C3: One producer keeps the mesh consistent. When a single node accepts submissions, every ledger of
  the mesh is at all times an initial part of that node's chain, under any scheduling of tasks,
  any loss, repetition and reordering of frames, and any restarts and failing database calls.\<close>

theorem single_producer_consistency:
  assumes "mesh_run view wview rview C log M" "fst ` set log \<subseteq> {m}"
  shows "\<exists>chain. valid_chain C chain \<and> view (nd_storage (ms_node M m)) = replay C chain \<and>
    (\<forall>i. \<exists>k. 0 < k \<and> k \<le> length chain \<and> view (nd_storage (ms_node M i)) = replay C (take k chain))"
proof -
  from mesh_follows [OF assms] obtain chain where f: "follows view C m M chain" by blast
  have "\<exists>k. 0 < k \<and> k \<le> length chain \<and> view (nd_storage (ms_node M i)) = replay C (take k chain)" for i
  proof -
    from f obtain bs where "bs \<noteq> []" "ledger view M i = replay C bs" "prefix bs chain"
      unfolding follows_def by blast
    then show ?thesis
      by (intro exI [of _ "length bs"]) (auto simp: ledger_def prefix_def)
  qed
  with f show ?thesis by (auto simp: follows_def ledger_def)
qed

theorem single_producer_consistency_witness:
  "\<exists>M chain k. mem_mesh [(0, demo_block 3 [])] M \<and> valid_chain flat_crypto chain \<and>
     nd_storage (ms_node M 0) = replay flat_crypto chain \<and> nd_storage (ms_node M 1) = replay flat_crypto (take k chain)"
proof -
  obtain M where M: "mem_mesh [(0, demo_block 3 [])] M" using demo_mesh by blast
  have "fst ` set [(0 :: nat, demo_block 3 [])] \<subseteq> {0}" by simp
  from single_producer_consistency [OF M this] M show ?thesis by (metis id_apply)
qed

text \<open>C4: A peer follows the producer exactly as far as its subscription lets it. Only one node of the
  mesh accepts submissions, and a running peer on a working database serves a block subscription
  that delivers blocks already in circulation, with any losses, repetitions, delays and
  undecodable frames among them, while the producer accepts no further block. The peer then holds
  an initial part of the producer's chain, and it ends with the producer's ledger if and only if
  the blocks it lacked occur in the stream in the order of the chain. Nothing sends a frame again:
  a peer that lost one of them, or met it too early, stays behind.\<close>

theorem peer_follows_subscription:
  assumes run: "mesh_run view wview rview C log M" and producer: "fst ` set log \<subseteq> {m}"
    and healthy: "redb_healthy R view wview rview"
    and peer: "auth_state (nd_authority (ms_node M i)) = Running"
    and stream: "subscribe_blocks C Z = Inr stream" "\<forall>b. Inr b \<in> set stream \<longrightarrow> b \<in> circulating C M"
  shows "\<exists>chain k j. valid_chain C chain \<and> 0 < k \<and> k \<le> j \<and> j \<le> length chain \<and>
    view (nd_storage (ms_node M m)) = replay C chain \<and>
    view (nd_storage (ms_node M i)) = replay C (take k chain) \<and>
    view (nd_storage (block_listener R C Z (ms_node M i))) = replay C (take j chain) \<and>
    (view (nd_storage (block_listener R C Z (ms_node M i))) = view (nd_storage (ms_node M m)) \<longleftrightarrow>
     subseq (map Inr (drop k chain)) stream)"
proof -
  from mesh_follows [OF run producer] obtain chain bs where
    c: "valid_chain C chain" "ledger view M m = replay C chain" "circulating C M \<subseteq> set chain"
    and bs: "bs \<noteq> []" "ledger view M i = replay C bs" "prefix bs chain"
    unfolding follows_def by blast
  define k where "k = length bs"
  have k: "0 < k" "k \<le> length chain" "take k chain = bs"
    using bs(1,3) by (auto simp: k_def prefix_def)
  from stream(2) c(3) have "\<forall>b. Inr b \<in> set stream \<longrightarrow> b \<in> set chain" by blast
  moreover have "view (nd_storage (ms_node M i)) = replay C (take k chain)" using bs(2) k(3) by (simp add: ledger_def)
  moreover have "block_listener R C Z (ms_node M i) = fold (inbound_block R C) stream (ms_node M i)"
    by (simp add: block_listener_def stream(1))
  ultimately obtain j where j: "k \<le> j" "j \<le> length chain"
    "view (nd_storage (block_listener R C Z (ms_node M i))) = replay C (take j chain)"
    "subseq (map Inr (take (j - k) (drop k chain))) stream"
    "subseq (map Inr (drop k chain)) stream \<longrightarrow> j = length chain"
    using redb_healthy.stream_follows [OF healthy c(1) k(1,2) _ peer] by metis
  have "replay C (take j chain) = replay C chain \<longleftrightarrow> j = length chain"
  proof
    assume eq: "replay C (take j chain) = replay C chain"
    have "valid_chain C (take j chain)"
      using k(1) j(1,2) by (intro valid_chain_prefix [OF c(1) take_is_prefix]) auto
    from valid_chain_last_height [OF this] valid_chain_tip [OF this] valid_chain_last_height [OF c(1)]
      valid_chain_tip [OF c(1)] eq j(1,2) k(1)
    have "j - 1 = length chain - 1" by (metis length_take min.absorb2 sum.inject(2) option.inject prod.inject)
    with j(1,2) k(1) show "j = length chain" by simp
  qed simp
  moreover have "subseq (map Inr (drop k chain)) stream \<longleftrightarrow> j = length chain" using j(4,5) by auto
  ultimately show ?thesis using c(1,2) k j(1-3) bs(2) by (auto simp: ledger_def)
qed

theorem peer_follows_subscription_witness:
  "\<exists>M Z chain k. mem_mesh [(0, demo_block 3 [])] M \<and> ms_node M 1 = boot_node \<and>
     subscribe_blocks flat_crypto Z = Inr [Inr (demo_block 3 [])] \<and>
     nd_storage (block_listener mem_redb flat_crypto Z (ms_node M 1)) = nd_storage (ms_node M 0) \<and>
     nd_storage (ms_node M 1) = replay flat_crypto (take k chain) \<and>
     subseq (map Inr (drop k chain)) [Inr (demo_block 3 []) :: (network_error, block) result]"
proof -
  obtain M frame where M: "mem_mesh [(0, demo_block 3 [])] M" "ms_node M 1 = boot_node"
    "(TOPIC_BLOCKS_NEW, frame) \<in> set (ms_wire M)" "decode_block_frame flat_crypto frame = Inr (demo_block 3 [])"
    "nd_storage (inbound_block mem_redb flat_crypto (Inr (demo_block 3 [])) boot_node) = nd_storage (ms_node M 0)"
    using demo_mesh by blast
  let ?Z = "\<lparr>z_put = \<lambda>_ _. Inr (), z_get = \<lambda>_ _. Inr None,
    z_declare_subscriber = \<lambda>_. Inr [Inr frame], z_declare_queryable = \<lambda>_ _. Inr 0\<rparr> :: zenoh"
  have sub: "subscribe_blocks flat_crypto ?Z = Inr [Inr (demo_block 3 [])]"
    using M(4) by (simp add: subscribe_blocks_def)
  then have heard: "nd_storage (block_listener mem_redb flat_crypto ?Z (ms_node M 1)) = nd_storage (ms_node M 0)"
    using M(2,5) by (simp add: block_listener_def)
  have p: "fst ` set [(0 :: nat, demo_block 3 [])] \<subseteq> {0}" by simp
  have up: "auth_state (nd_authority (ms_node M 1)) = Running"
    unfolding M(2) by (simp add: boot_node_def genesis_node_eq)
  have "\<forall>b. Inr b \<in> set [Inr (demo_block 3 []) :: (network_error, block) result] \<longrightarrow> b \<in> circulating flat_crypto M"
    using M(3,4) by (auto simp: circulating_def)
  from peer_follows_subscription [OF M(1) p mem.redb_healthy_axioms up sub this] heard M(1,2) sub
  show ?thesis unfolding id_apply by blast
qed

text \<open>A missed block stalls a peer. While the block after its tip does not arrive, a node ignores every
  other block its subscription delivers, valid or not: its ledger does not change, and nothing in
  the daemon asks for the missing block.\<close>

theorem missed_block_stalls:
  assumes "redb_laws R view wview rview" "store_tip (view (nd_storage n)) = Inr (Some (h, hash))"
    and "subscribe_blocks C Z = Inr stream"
    and "\<forall>b. Inr b \<in> set stream \<longrightarrow> unat (height (header b)) \<noteq> Suc (unat h)"
  shows "view (nd_storage (block_listener R C Z n)) = view (nd_storage n)"
  using redb_laws.inbound_all_off_tip [OF assms(1,2,4)] assms(3) by (simp add: block_listener_def)

theorem missed_block_stalls_witness:
  "\<exists>Z b. subscribe_blocks flat_crypto Z = Inr [Inr b, Inr b] \<and> height (header b) = 2 \<and>
     nd_storage (block_listener mem_redb flat_crypto Z boot_node) = nd_storage boot_node"
proof -
  let ?b = "(demo_block 3 [])\<lparr>header := (header (demo_block 3 []))\<lparr>height := 2\<rparr>\<rparr>"
  have "wf_block ?b" "length (encode_block ?b) \<le> 4194304"
    using demo_block_small [of 3] by (simp_all add: wf_block_def encode_block_def length_encode_header)
  from block_frame_roundtrip [OF this, of flat_crypto] obtain frame where
    "decode_block_frame flat_crypto frame = Inr ?b" by blast
  then have sub: "subscribe_blocks flat_crypto \<lparr>z_put = \<lambda>_ _. Inr (), z_get = \<lambda>_ _. Inr None,
      z_declare_subscriber = \<lambda>_. Inr [Inr frame, Inr frame, Inl ''closed''], z_declare_queryable = \<lambda>_ _. Inr 0\<rparr>
      = Inr [Inr ?b, Inr ?b]"
    by (simp add: subscribe_blocks_def)
  from missed_block_stalls [OF mem.redb_laws_axioms _ this, of boot_node] boot_node_tip sub show ?thesis
    by (intro exI) auto
qed

end
