(* ===== verification/Concurrency.thy ===== *)
theory Concurrency
  imports Chain
begin

text \<open>
  The tasks of the daemon without the assumption that a handler call is one step. A block, from a
  client or from a peer, goes through \<open>process_and_commit_block\<close> (\<open>authority/engine.rs\<close>) in turns:
  the guard, the tip, one look-up after the other, the verdict, the commit and, once the write lock
  of the pool is free, the clean-up of the pool. No lock spans these turns, so the turns of any
  number of blocks, of admissions to the pool, and restarts interleave. The typing of the tables,
  the pool's indices and the link between pool and ledger hold for every interleaving; the chain
  and the supply cap are shown as long as no block is committed between another's reading of the
  tip and its commit, which nothing in the code enforces. Each step that reads or writes the
  database is one call of the storage engine, which runs in one transaction.
\<close>

section \<open>The turns of a block\<close>

type_synonym reads = "outpoint \<Rightarrow> tx_output option option"

datatype phase =
    Arrived
  | Guarded
  | Checking reads
  | Validated "outpoint list"
  | Committed
  | Finished

text \<open>The values read so far; an outpoint that has not been read counts as missing.\<close>

definition known :: "('a \<Rightarrow> 'b option option) \<Rightarrow> 'a \<Rightarrow> 'b option" where
  "known reads op = (case reads op of Some r \<Rightarrow> r | None \<Rightarrow> None)"

text \<open>The part of \<open>process_and_commit_block\<close> between the guard and the first look-up.\<close>

definition read_tip ::
    "('db, 'wtx, 'rtx) redb \<Rightarrow> 'vk crypto \<Rightarrow> 'db authority \<Rightarrow> block
     \<Rightarrow> (authority_error, unit) result \<times> 'db authority" where
  "read_tip R C A block = (case get_tip R (auth_storage A) of
     Inl e \<Rightarrow>
       if e = SlicePanic then (Inl AuthorityPanic, A)
       else (Inl (AuthStorage (storage_error_display e)),
             fail_stop (StateCorruption (storage_error_display e)) A)
   | Inr tip \<Rightarrow>
       (bindR (expected_next tip) (\<lambda>(expected_height, expected_parent).
          if prev_block_hash (header block) \<noteq> expected_parent
          then Inl (InvalidParent expected_parent (prev_block_hash (header block)))
          else map_err AuthConsensus (verify_block_structure C block expected_height)), A))"

fun authority_turn ::
    "('db, 'wtx, 'rtx) redb \<Rightarrow> 'vk crypto \<Rightarrow> block \<Rightarrow> phase \<Rightarrow> 'db authority \<Rightarrow> phase \<times> 'db authority" where
  "authority_turn R C block Arrived A = (case enforce_operational A of
     Inl _ \<Rightarrow> (Finished, A)
   | Inr _ \<Rightarrow> (Guarded, A))"
| "authority_turn R C block Guarded A = (case read_tip R C A block of
     (Inl _, A') \<Rightarrow> (Finished, A')
   | (Inr _, A') \<Rightarrow> (Checking (\<lambda>_. None), A'))"
| "authority_turn R C block (Checking reads) A = (case filter (\<lambda>op. reads op = None) (block_spends block) of
     op # _ \<Rightarrow> (Checking (reads(op \<mapsto> canonical_lookup R (auth_storage A) op)), A)
   | [] \<Rightarrow> (case verify_block_invariants C block (known reads) of
       Inl _ \<Rightarrow> (Finished, A)
     | Inr spent_inputs \<Rightarrow> (Validated spent_inputs, A)))"
| "authority_turn R C block (Validated spent_inputs) A = (case commit_validated R C A block spent_inputs of
     (Inl _, A') \<Rightarrow> (Finished, A')
   | (Inr _, A') \<Rightarrow> (Committed, A'))"
| "authority_turn R C block Committed A = (Committed, A)"
| "authority_turn R C block Finished A = (Finished, A)"

text \<open>What the caller does after the commit: under the pool's lock, and with a broadcast if the block
  came from a client.\<close>

definition clean_up :: "'vk crypto \<Rightarrow> block \<Rightarrow> bool \<Rightarrow> 'db node \<Rightarrow> 'db node" where
  "clean_up C block rpc n =
     (let n = n\<lparr>nd_mempool := process_committed_block C block (nd_mempool n)\<rparr> in
      if rpc then spawn (GossipBlock block) n else n)"

section \<open>Tasks side by side\<close>

text \<open>
  A block under way, with the number of commits there had been when it read the tip, and an
  admission that holds the write lock of the pool. The tip, the median time and the clock are read
  before the lock is taken and may be out of date; they are arbitrary here. The numbers of commits
  occur in specifications only.
\<close>

record block_task =
  tk_block :: block
  tk_rpc :: bool
  tk_phase :: phase
  tk_seen :: nat

record admission =
  ad_tx :: transaction
  ad_rpc :: bool
  ad_tip :: u64
  ad_mtp :: u64
  ad_now :: u64
  ad_reads :: "outpoint \<Rightarrow> extended_utxo option option"

record 'db conc =
  cn_node :: "'db node"
  cn_tasks :: "block_task list"
  cn_holder :: "admission option"
  cn_commits :: nat

definition new_task :: "block \<Rightarrow> bool \<Rightarrow> block_task" where
  "new_task block rpc = \<lparr>tk_block = block, tk_rpc = rpc, tk_phase = Arrived, tk_seen = 0\<rparr>"

definition task_turn ::
    "('db, 'wtx, 'rtx) redb \<Rightarrow> 'vk crypto \<Rightarrow> nat \<Rightarrow> 'db conc \<Rightarrow> 'db conc" where
  "task_turn R C i c =
     (let t = cn_tasks c ! i; n = cn_node c in
      if tk_phase t = Finished \<or> (tk_phase t = Committed \<and> cn_holder c \<noteq> None) then c
      else if tk_phase t = Committed then
        c\<lparr>cn_node := clean_up C (tk_block t) (tk_rpc t) n, cn_tasks := (cn_tasks c)[i := t\<lparr>tk_phase := Finished\<rparr>]\<rparr>
      else
        (case authority_turn R C (tk_block t) (tk_phase t) (nd_authority n) of (ph, A) \<Rightarrow>
           c\<lparr>cn_node := n\<lparr>nd_authority := A\<rparr>,
             cn_tasks := (cn_tasks c)[i := t\<lparr>tk_phase := ph,
               tk_seen := (if tk_phase t = Guarded then cn_commits c else tk_seen t)\<rparr>],
             cn_commits := (if ph = Committed then Suc (cn_commits c) else cn_commits c)\<rparr>))"

text \<open>An admission reads the outputs its transaction names, then inserts it and releases the lock.\<close>

definition admission_turn ::
    "('db, 'wtx, 'rtx) redb \<Rightarrow> 'vk crypto \<Rightarrow> admission \<Rightarrow> 'db conc \<Rightarrow> 'db conc" where
  "admission_turn R C h c =
     (let n = cn_node c in
      case filter (\<lambda>op. ad_reads h op = None) (tx_spends (ad_tx h)) of
        op # _ \<Rightarrow> c\<lparr>cn_holder := Some (h\<lparr>ad_reads := (ad_reads h)(op \<mapsto> storage_view R (nd_storage n) op)\<rparr>)\<rparr>
      | [] \<Rightarrow>
          (case mempool_insert C (ad_tx h) (known (ad_reads h)) (ad_tip h) (ad_mtp h) (ad_now h) (nd_mempool n) of
             (res, M) \<Rightarrow>
               let n = n\<lparr>nd_mempool := M\<rparr> in
               c\<lparr>cn_node := (if is_ok res \<and> ad_rpc h then spawn (GossipTx (ad_tx h)) n else n),
                 cn_holder := None\<rparr>))"

text \<open>With \<open>serial\<close>, a block is committed only if no other was since it read the tip.\<close>

inductive conc_step ::
    "('db \<Rightarrow> store) \<Rightarrow> ('wtx \<Rightarrow> store) \<Rightarrow> ('rtx \<Rightarrow> store) \<Rightarrow> 'vk crypto \<Rightarrow> bool \<Rightarrow> 'db conc \<Rightarrow> 'db conc \<Rightarrow> bool"
  for view wview rview C serial where
    conc_arrive: "wf_block block \<Longrightarrow>
      conc_step view wview rview C serial c (c\<lparr>cn_tasks := cn_tasks c @ [new_task block rpc]\<rparr>)"
  | conc_turn: "redb_laws R view wview rview \<Longrightarrow> i < length (cn_tasks c) \<Longrightarrow>
      (serial \<longrightarrow> (\<forall>spent. tk_phase (cn_tasks c ! i) = Validated spent \<longrightarrow> tk_seen (cn_tasks c ! i) = cn_commits c)) \<Longrightarrow>
      conc_step view wview rview C serial c (task_turn R C i c)"
  | conc_lock: "cn_holder c = None \<Longrightarrow> wf_tx tx \<Longrightarrow> no_collision C (nd_mempool (cn_node c)) tx \<Longrightarrow>
      conc_step view wview rview C serial c (c\<lparr>cn_holder := Some \<lparr>ad_tx = tx, ad_rpc = rpc, ad_tip = tip,
        ad_mtp = mtp, ad_now = now, ad_reads = (\<lambda>_. None)\<rparr>\<rparr>)"
  | conc_admission: "redb_laws R view wview rview \<Longrightarrow> cn_holder c = Some h \<Longrightarrow>
      conc_step view wview rview C serial c (admission_turn R C h c)"
  | conc_clock: "conc_step view wview rview C serial c (c\<lparr>cn_node := (cn_node c)\<lparr>nd_clock := t\<rparr>\<rparr>)"
  | conc_restart: "redb_laws R view wview rview \<Longrightarrow> db_create R path = Inr db \<Longrightarrow>
      view db = view (nd_storage (cn_node c)) \<Longrightarrow> execute_node R C path g t = Inr n \<Longrightarrow>
      conc_step view wview rview C serial c \<lparr>cn_node = n, cn_tasks = [], cn_holder = None, cn_commits = k\<rparr>"

inductive conc_reachable ::
    "('db \<Rightarrow> store) \<Rightarrow> ('wtx \<Rightarrow> store) \<Rightarrow> ('rtx \<Rightarrow> store) \<Rightarrow> 'vk crypto \<Rightarrow> bool \<Rightarrow> 'db conc \<Rightarrow> bool"
  for view wview rview C serial where
    conc_start: "redb_laws R view wview rview \<Longrightarrow> db_create R path = Inr db \<Longrightarrow> view db = (\<lambda>_. None) \<Longrightarrow>
      execute_node R C path g t = Inr n \<Longrightarrow>
      conc_reachable view wview rview C serial \<lparr>cn_node = n, cn_tasks = [], cn_holder = None, cn_commits = 0\<rparr>"
  | conc_more: "conc_reachable view wview rview C serial c \<Longrightarrow> conc_step view wview rview C serial c c' \<Longrightarrow>
      conc_reachable view wview rview C serial c'"

section \<open>Turns without interruption\<close>



lemma arrived_turn [simp]:
  "authority_turn R C block Arrived A = (if auth_state A = Running then Guarded else Finished, A)"
  by (simp add: enforce_operational_def is_operational_iff)

declare authority_turn.simps(1) [simp del]














section \<open>A ledger whose values are typed\<close>

text \<open>What of the ledger's invariant no race can break: every value decodes, the heights up to the tip are
  indexed, and the tip names its block. The account of the supply is not part of it.\<close>

definition ledger_typed :: "'vk crypto \<Rightarrow> store \<Rightarrow> bool" where
  "ledger_typed C s \<longleftrightarrow>
     (\<forall>k v. s (BLOCKS_TABLE, KBytes k) = Some v \<longrightarrow> (\<exists>b. wf_block b \<and> v = encode_block b)) \<and>
     (\<forall>op v. s (utxo_key op) = Some v \<longrightarrow> (\<exists>out. wf_tx_output out \<and> v = encode_tx_output out)) \<and>
     (\<forall>h bs. s (HEIGHT_INDEX, KU64 h) = Some bs \<longrightarrow> length bs = 32 \<and> s (BLOCKS_TABLE, KBytes bs) \<noteq> None) \<and>
     (\<exists>h hash. store_tip s = Inr (Some (h, hash)) \<and> tip_entry C s (h, hash) \<and>
        (\<forall>k\<le>unat h. s (HEIGHT_INDEX, KU64 (of_nat k)) \<noteq> None))"

text \<open>Every height below the block's is indexed.\<close>

definition rests_on :: "store \<Rightarrow> block \<Rightarrow> bool" where
  "rests_on s b \<longleftrightarrow> (\<forall>k < unat (height (header b)). s (HEIGHT_INDEX, KU64 (of_nat k)) \<noteq> None)"

lemma store_inv_typed:
  assumes "store_inv C s" "store_tip s = Inr (Some t)"
  shows "ledger_typed C s"
  using assms unfolding store_inv_def ledger_typed_def ledger_inv_def by (cases t) force

lemma connects_rests_on:
  assumes typed: "ledger_typed C s" and con: "connects s b"
  shows "rests_on s b"
proof -
  from typed obtain h hash where t: "store_tip s = Inr (Some (h, hash))"
    "\<forall>k\<le>unat h. s (HEIGHT_INDEX, KU64 (of_nat k)) \<noteq> None" by (auto simp: ledger_typed_def)
  with con have "unat (height (header b)) = Suc (unat h)" by (auto simp: connects_def expected_next_Inr)
  with t(2) show ?thesis by (simp add: rests_on_def)
qed

lemma rests_on_apply: "rests_on s b \<Longrightarrow> rests_on (apply_block C block spent s) b"
  by (simp add: rests_on_def apply_block_tables)

lemma typed_apply:
  assumes typed: "ledger_typed C s" and wf: "wf_block block" and on: "rests_on s block"
  shows "ledger_typed C (apply_block C block spent s)"
  unfolding ledger_typed_def
proof (intro conjI allI impI)
  let ?s = "apply_block C block spent s" and ?h = "height (header block)"
  show "\<exists>b. wf_block b \<and> v = encode_block b" if "?s (BLOCKS_TABLE, KBytes k) = Some v" for k v
    using that typed wf by (auto simp: apply_block_tables ledger_typed_def split: if_splits)
  show "\<exists>out. wf_tx_output out \<and> v = encode_tx_output out" if "?s (utxo_key op) = Some v" for op v
    using that typed map_of_block_outputs [OF wf]
    by (auto simp: apply_block_utxo ledger_typed_def split: option.splits if_splits)
  show "length bs = 32" "?s (BLOCKS_TABLE, KBytes bs) \<noteq> None" if "?s (HEIGHT_INDEX, KU64 h) = Some bs" for h bs
    using that typed by (auto simp: apply_block_tables ledger_typed_def split: if_splits)
  have "?s (HEIGHT_INDEX, KU64 (of_nat k)) \<noteq> None" if "k \<le> unat ?h" for k
    using that on by (cases "k = unat ?h") (auto simp: apply_block_tables rests_on_def)
  moreover have "tip_entry C ?s (?h, block_hash C block)"
    by (auto simp: tip_entry_def apply_block_tables)
  ultimately show "\<exists>h hash. store_tip ?s = Inr (Some (h, hash)) \<and> tip_entry C ?s (h, hash) \<and>
      (\<forall>k\<le>unat h. ?s (HEIGHT_INDEX, KU64 (of_nat k)) \<noteq> None)"
    by (intro exI [of _ ?h] exI [of _ "block_hash C block"]) (simp add: apply_block_tip)
qed

lemma typed_block:
  assumes "ledger_typed C s" "s (BLOCKS_TABLE, KBytes bs) \<noteq> None" "length bs = 32"
  shows "\<exists>block. wf_block block \<and> s (BLOCKS_TABLE, KBytes bs) = Some (encode_block block) \<and>
    store_block s (from_bytes bs) = Inr (Some block)"
proof -
  from assms(2) obtain v where v: "s (BLOCKS_TABLE, KBytes bs) = Some v" by blast
  with assms(1) have "\<exists>b. wf_block b \<and> v = encode_block b" unfolding ledger_typed_def by blast
  with v obtain b where "wf_block b" "s (BLOCKS_TABLE, KBytes bs) = Some (encode_block b)" by blast
  with assms(3) show ?thesis by (intro exI [of _ b]) (simp add: store_block_def block.roundtrip)
qed

lemma typed_readable:
  assumes typed: "ledger_typed C s"
  obtains h hash block where "store_tip s = Inr (Some (h, hash))" "indexed_upto s h"
    "store_block s hash = Inr (Some block)" "height (header block) = h" "block_hash C block = hash"
proof -
  from typed obtain h hash where t: "store_tip s = Inr (Some (h, hash))" "tip_entry C s (h, hash)"
    and idx: "\<forall>k\<le>unat h. s (HEIGHT_INDEX, KU64 (of_nat k)) \<noteq> None" by (auto simp: ledger_typed_def)
  have "indexed_upto s h"
    unfolding indexed_upto_def
  proof (intro allI impI)
    fix k assume "k \<le> unat h"
    with idx obtain bs where bs: "s (HEIGHT_INDEX, KU64 (of_nat k)) = Some bs" by blast
    with typed have l: "length bs = 32" "s (BLOCKS_TABLE, KBytes bs) \<noteq> None" by (auto simp: ledger_typed_def)
    with typed_block [OF typed l(2,1)] bs show "\<exists>block. store_block_by_height s (of_nat k) = Inr (Some block)"
      by (auto simp: store_block_by_height_def)
  qed
  moreover from t(2) obtain b where b: "s (BLOCKS_TABLE, KBytes (as_bytes hash)) = Some (encode_block b)"
    "block_hash C b = hash" "height (header b) = h" by (auto simp: tip_entry_def)
  from typed_block [OF typed, of "as_bytes hash"] b(1) obtain b' where
    b': "encode_block b = encode_block b'" "store_block s hash = Inr (Some b')" by auto
  moreover from encode_block_header [OF b'(1)] b(2,3) have "height (header b') = h" "block_hash C b' = hash"
    by (simp_all add: block_hash_def)
  ultimately show ?thesis using that t(1) by blast
qed

lemma valid_chain_store_inv: "valid_chain C bs \<Longrightarrow> store_inv C (replay C bs)"
proof (induction rule: valid_chain.induct)
  case chain_genesis
  let ?b = "create_genesis_block C" and ?s = "(\<lambda>_. None) :: store"
  have con: "connects ?s ?b" by (rule genesis_connects) (simp add: store_tip_def)
  have "block_structure_ok C ?b (height (header ?b))"
    using genesis_block_verifies [of C] by (simp add: verify_block_structure_ok_iff)
  moreover have "block_invariants_ok C ?b (store_lookup ?s)"
    by (simp add: block_invariants_ok_def) (simp add: create_genesis_block_def genesis_coinbase_facts)
  ultimately have "ledger_inv C (apply_block C ?b (block_spends ?b) ?s)"
    by (intro ledger_inv_accept [OF ledger_inv_empty con _ store_lookup_sound])
  from store_inv_apply [OF store_inv_empty this wf_genesis con] show ?case
    by (simp add: replay_single append_block_def)
next
  case (chain_next bs b)
  then have v: "wf_block b" "connects (replay C bs) b" "block_structure_ok C b (height (header b))"
    "block_invariants_ok C b (store_lookup (replay C bs))" by (simp_all add: valid_next_def)
  from ledger_inv_accept [OF store_inv_ledger [OF chain_next.IH] v(2,3) store_lookup_sound v(4)]
  show ?case using store_inv_apply [OF chain_next.IH _ v(1,2)] by (simp add: append_block_def)
qed

section \<open>What every interleaving keeps\<close>

text \<open>The outputs spent by blocks that are committed and not yet cleaned up.\<close>

definition awaiting :: "block_task list \<Rightarrow> outpoint set" where
  "awaiting ts = {op. \<exists>t\<in>set ts. tk_phase t = Committed \<and> op \<in> set (block_spends (tk_block t))}"

definition held :: "store \<Rightarrow> block_task list \<Rightarrow> outpoint \<Rightarrow> bool" where
  "held s ts op \<longleftrightarrow> (\<exists>out. store_utxo s op = Inr (Some out)) \<or> op \<in> awaiting ts"

text \<open>What a block's task knows; it is up to date as long as no other block has been committed.\<close>

definition phase_ok :: "'vk crypto \<Rightarrow> store \<Rightarrow> block \<Rightarrow> phase \<Rightarrow> bool \<Rightarrow> bool" where
  "phase_ok C s b ph current \<longleftrightarrow> (case ph of
     Checking reads \<Rightarrow> rests_on s b \<and> block_structure_ok C b (height (header b)) \<and>
       (current \<longrightarrow> connects s b \<and> lookup_sound (known reads) s)
   | Validated spent \<Rightarrow> rests_on s b \<and> spent = block_spends b \<and> (current \<longrightarrow> valid_next C s b)
   | _ \<Rightarrow> True)"

definition task_ok :: "'vk crypto \<Rightarrow> store \<Rightarrow> nat \<Rightarrow> block_task \<Rightarrow> bool" where
  "task_ok C s k t \<longleftrightarrow> wf_block (tk_block t) \<and> tk_seen t \<le> k \<and>
     phase_ok C s (tk_block t) (tk_phase t) (tk_seen t = k)"

definition admission_ok :: "'vk crypto \<Rightarrow> store \<Rightarrow> block_task list \<Rightarrow> mempool \<Rightarrow> admission \<Rightarrow> bool" where
  "admission_ok C s ts M h \<longleftrightarrow> wf_tx (ad_tx h) \<and> no_collision C M (ad_tx h) \<and>
     (\<forall>op u. ad_reads h op = Some (Some u) \<longrightarrow> held s ts op)"

definition pool_held :: "store \<Rightarrow> block_task list \<Rightarrow> mempool \<Rightarrow> bool" where
  "pool_held s ts M \<longleftrightarrow> (\<forall>p\<in>set (by_txid M). wf_tx (me_tx (snd p)) \<and>
     (\<forall>op\<in>set (tx_spends (me_tx (snd p))). held s ts op))"

definition conc_inv :: "('db \<Rightarrow> store) \<Rightarrow> 'vk crypto \<Rightarrow> bool \<Rightarrow> 'db conc \<Rightarrow> bool" where
  "conc_inv view C serial c \<longleftrightarrow>
     (let s = view (nd_storage (cn_node c)); M = nd_mempool (cn_node c) in
      ledger_typed C s \<and> (serial \<longrightarrow> (\<exists>bs. valid_chain C bs \<and> s = replay C bs)) \<and>
      pool_inv C M \<and> pool_held s (cn_tasks c) M \<and>
      (\<forall>t\<in>set (cn_tasks c). task_ok C s (cn_commits c) t) \<and>
      (\<forall>h. cn_holder c = Some h \<longrightarrow> admission_ok C s (cn_tasks c) M h))"

lemma awaiting_update:
  assumes "i < length ts"
  shows "op \<in> awaiting ts \<Longrightarrow> tk_phase (ts ! i) \<noteq> Committed \<or> op \<notin> set (block_spends (tk_block (ts ! i))) \<Longrightarrow>
      op \<in> awaiting (ts[i := t])"
    and "tk_phase t = Committed \<Longrightarrow> op \<in> set (block_spends (tk_block t)) \<Longrightarrow> op \<in> awaiting (ts[i := t])"
proof -
  show "op \<in> awaiting (ts[i := t])"
    if "op \<in> awaiting ts" "tk_phase (ts ! i) \<noteq> Committed \<or> op \<notin> set (block_spends (tk_block (ts ! i)))"
  proof -
    from that(1) obtain x where x: "x \<in> set ts" "tk_phase x = Committed" "op \<in> set (block_spends (tk_block x))"
      by (auto simp: awaiting_def)
    from x(1) obtain j where "j < length ts" "ts ! j = x" by (auto simp: in_set_conv_nth)
    with x have j: "j < length ts" "tk_phase (ts ! j) = Committed" "op \<in> set (block_spends (tk_block (ts ! j)))" by auto
    with that(2) have "ts[i := t] ! j = ts ! j" by (cases "j = i") auto
    with j show ?thesis unfolding awaiting_def by (metis (mono_tags, lifting) length_list_update mem_Collect_eq nth_mem)
  qed
  show "op \<in> awaiting (ts[i := t])" if "tk_phase t = Committed" "op \<in> set (block_spends (tk_block t))"
    using that set_update_memI [OF assms, of t] by (auto simp: awaiting_def)
qed

lemma pool_held_mono:
  assumes "pool_held s ts M" "set (by_txid M') \<subseteq> set (by_txid M)"
    and "\<And>p op. p \<in> set (by_txid M') \<Longrightarrow> op \<in> set (tx_spends (me_tx (snd p))) \<Longrightarrow> held s ts op \<Longrightarrow> held s' ts' op"
  shows "pool_held s' ts' M'"
  using assms unfolding pool_held_def by blast

lemma phase_ok_apply: "phase_ok C s b ph current \<Longrightarrow> phase_ok C (apply_block C b' spent s) b ph False"
  by (auto simp: phase_ok_def rests_on_apply split: phase.splits)

context redb_laws
begin

text \<open>One turn of a block: the tables stay, or a validated block is applied to them.\<close>

lemma read_tip_reads:
  assumes "read_tip R C A block = (res, A')"
  shows "view (auth_storage A') = view (auth_storage A)"
    and "res = Inr u \<Longrightarrow> connects (view (auth_storage A)) block \<and> block_structure_ok C block (height (header block))"
proof -
  from assms show "view (auth_storage A') = view (auth_storage A)"
    by (auto simp: read_tip_def split: sum.splits if_splits)
  assume "res = Inr u"
  with assms obtain tip h where tip: "get_tip R (auth_storage A) = Inr tip"
    "expected_next tip = Inr (h, prev_block_hash (header block))" "block_structure_ok C block h"
    by (auto simp: read_tip_def verify_block_structure_ok_iff split: sum.splits prod.splits if_splits)
  from tip(3) have "h = height (header block)" by (simp add: block_structure_ok_def)
  with tip get_tip_reads [OF tip(1)]
  show "connects (view (auth_storage A)) block \<and> block_structure_ok C block (height (header block))"
    by (auto simp: connects_def)
qed

lemma authority_turn_cases:
  assumes turn: "authority_turn R C b ph A = (ph', A')" and ok: "phase_ok C (view (auth_storage A)) b ph current"
    and typed: "ledger_typed C (view (auth_storage A))" and wf: "wf_block b" and ph: "ph \<notin> {Committed, Finished}"
  shows "(ph' \<noteq> Committed \<and> view (auth_storage A') = view (auth_storage A) \<and>
      phase_ok C (view (auth_storage A)) b ph' (ph = Guarded \<or> current)) \<or>
    (ph = Validated (block_spends b) \<and> ph' = Committed \<and>
      view (auth_storage A') = apply_block C b (block_spends b) (view (auth_storage A)))"
proof (cases ph)
  case Arrived
  with turn show ?thesis by (auto simp: phase_ok_def split: if_splits)
next
  case Guarded
  obtain res A1 where tip: "read_tip R C A b = (res, A1)" by (metis surj_pair)
  note r = read_tip_reads [OF tip]
  show ?thesis
  proof (cases res)
    case (Inl e)
    with turn tip Guarded r(1) show ?thesis by (auto simp: phase_ok_def)
  next
    case (Inr u)
    with r(2) connects_rests_on [OF typed] have "rests_on (view (auth_storage A)) b"
      "connects (view (auth_storage A)) b" "block_structure_ok C b (height (header b))" by blast+
    moreover have "lookup_sound (known (\<lambda>_. None)) s" for s by (simp add: lookup_sound_def known_def)
    ultimately show ?thesis using turn tip Guarded Inr r(1) by (auto simp: phase_ok_def)
  qed
next
  case (Checking reads)
  note ok' = ok [unfolded phase_ok_def Checking, simplified]
  show ?thesis
  proof (cases "filter (\<lambda>op. reads op = None) (block_spends b)")
    case (Cons op ops)
    have "lookup_sound (known (reads(op \<mapsto> canonical_lookup R (auth_storage A) op))) (view (auth_storage A))"
      if "lookup_sound (known reads) (view (auth_storage A))"
      using that canonical_lookup_sound [of "auth_storage A"] by (auto simp: lookup_sound_def known_def split: if_splits)
    with ok' turn Checking Cons show ?thesis by (auto simp: phase_ok_def)
  next
    case Nil
    show ?thesis
    proof (cases "verify_block_invariants C b (known reads)")
      case (Inl e)
      with turn Checking Nil show ?thesis by (auto simp: phase_ok_def)
    next
      case (Inr spent)
      then have inv: "block_invariants_ok C b (known reads)" "spent = block_spends b"
        by (simp_all add: verify_block_invariants_ok_iff)
      with ok' wf block_invariants_mono have "valid_next C (view (auth_storage A)) b" if current
        using that by (auto simp: valid_next_def)
      with ok' inv turn Checking Nil Inr show ?thesis by (auto simp: phase_ok_def)
    qed
  qed
next
  case (Validated spent)
  obtain res A1 where c: "commit_validated R C A b spent = (res, A1)" by (metis surj_pair)
  show ?thesis
  proof (cases res)
    case (Inl e)
    with c have "view (auth_storage A1) = view (auth_storage A)"
      by (auto simp: commit_validated_def split: prod.splits sum.splits dest: commit_block_atomic)
    with Inl c turn Validated show ?thesis by (auto simp: phase_ok_def)
  next
    case (Inr u)
    with c have "view (auth_storage A1) = apply_block C b spent (view (auth_storage A))"
      by (auto simp: commit_validated_def split: prod.splits sum.splits dest: commit_block_applies)
    with Inr c turn Validated ok show ?thesis by (auto simp: phase_ok_def)
  qed
qed (use ph in auto)

end

section \<open>Every step keeps the books\<close>

lemma conc_invI:
  assumes "view (nd_storage (cn_node c)) = s" "nd_mempool (cn_node c) = M"
    and "ledger_typed C s" "serial \<longrightarrow> (\<exists>bs. valid_chain C bs \<and> s = replay C bs)" "pool_inv C M"
    and "pool_held s (cn_tasks c) M" "\<And>t. t \<in> set (cn_tasks c) \<Longrightarrow> task_ok C s (cn_commits c) t"
    and "\<And>h. cn_holder c = Some h \<Longrightarrow> admission_ok C s (cn_tasks c) M h"
  shows "conc_inv view C serial c"
  using assms unfolding conc_inv_def Let_def by simp

lemma conc_invD:
  assumes "conc_inv view C serial c"
  defines "s \<equiv> view (nd_storage (cn_node c))"
  shows "ledger_typed C s" "serial \<longrightarrow> (\<exists>bs. valid_chain C bs \<and> s = replay C bs)"
    "pool_inv C (nd_mempool (cn_node c))" "pool_held s (cn_tasks c) (nd_mempool (cn_node c))"
    "t \<in> set (cn_tasks c) \<Longrightarrow> task_ok C s (cn_commits c) t"
    "cn_holder c = Some h \<Longrightarrow> admission_ok C s (cn_tasks c) (nd_mempool (cn_node c)) h"
  using assms unfolding conc_inv_def Let_def by simp_all

lemma pool_held_new [simp]: "pool_held s ts (Mempool_new k)"
  by (simp add: pool_held_def Mempool_new_def)

lemma conc_inv_fresh:
  assumes "ledger_typed C (view (nd_storage n))" "nd_mempool n = Mempool_new k"
    and "serial \<longrightarrow> (\<exists>bs. valid_chain C bs \<and> view (nd_storage n) = replay C bs)"
  shows "conc_inv view C serial \<lparr>cn_node = n, cn_tasks = [], cn_holder = None, cn_commits = m\<rparr>"
  unfolding conc_inv_def Let_def by (simp add: assms(1,2) pool_inv_new) (rule assms(3))

lemma execute_node_pool: "execute_node R C path g t = Inr n \<Longrightarrow> nd_mempool n = Mempool_new DEFAULT_MAX_MEMPOOL_BYTES"
  by (elim execute_node_Inr) simp

text \<open>A turn that leaves the tables and the pool alone.\<close>

lemma conc_inv_quiet:
  assumes inv: "conc_inv view C serial c" and i: "i < length (cn_tasks c)"
    and same: "view (nd_storage (cn_node d)) = view (nd_storage (cn_node c))"
      "nd_mempool (cn_node d) = nd_mempool (cn_node c)"
      "cn_holder d = cn_holder c" "cn_commits d = cn_commits c" "cn_tasks d = (cn_tasks c)[i := t]"
    and t: "tk_phase (cn_tasks c ! i) \<noteq> Committed" "task_ok C (view (nd_storage (cn_node c))) (cn_commits c) t"
  shows "conc_inv view C serial d"
proof -
  let ?s = "view (nd_storage (cn_node c))"
  have held: "held ?s (cn_tasks c) op \<Longrightarrow> held ?s ((cn_tasks c)[i := t]) op" for op
    using awaiting_update(1) [OF i] t(1) by (auto simp: held_def)
  note D = conc_invD [OF inv]
  show ?thesis
  proof (rule conc_invI [where view = view and c = d, OF same(1,2) D(1,2,3)])
    show "pool_held ?s (cn_tasks d) (nd_mempool (cn_node c))"
      using pool_held_mono [OF D(4) subset_refl] held by (simp add: same)
    show "task_ok C ?s (cn_commits d) x" if "x \<in> set (cn_tasks d)" for x
      using that D(5) t(2) set_update_subset_insert [of "cn_tasks c" i t] by (auto simp: same)
    show "admission_ok C ?s (cn_tasks d) (nd_mempool (cn_node c)) h" if "cn_holder d = Some h" for h
      using that D(6) held by (auto simp: same admission_ok_def)
  qed
qed

text \<open>A commit.\<close>

lemma conc_inv_commit:
  assumes inv: "conc_inv view C serial c" and i: "i < length (cn_tasks c)"
    and b: "tk_block (cn_tasks c ! i) = b" "tk_phase (cn_tasks c ! i) = Validated (block_spends b)"
    and serial: "serial \<Longrightarrow> tk_seen (cn_tasks c ! i) = cn_commits c"
    and d: "view (nd_storage (cn_node d)) = apply_block C b (block_spends b) (view (nd_storage (cn_node c)))"
      "nd_mempool (cn_node d) = nd_mempool (cn_node c)" "cn_holder d = cn_holder c"
      "cn_commits d = Suc (cn_commits c)" "cn_tasks d = (cn_tasks c)[i := (cn_tasks c ! i)\<lparr>tk_phase := Committed\<rparr>]"
  shows "conc_inv view C serial d"
proof -
  let ?s = "view (nd_storage (cn_node c))" and ?s' = "apply_block C b (block_spends b) (view (nd_storage (cn_node c)))"
  note D = conc_invD [OF inv]
  from D(5) i have "task_ok C ?s (cn_commits c) (cn_tasks c ! i)" by simp
  with b have t: "wf_block b" "rests_on ?s b" "tk_seen (cn_tasks c ! i) \<le> cn_commits c"
    "tk_seen (cn_tasks c ! i) = cn_commits c \<Longrightarrow> valid_next C ?s b"
    by (auto simp: task_ok_def phase_ok_def)
  have held: "held ?s' (cn_tasks d) op" if "held ?s (cn_tasks c) op" for op
    using that awaiting_update [OF i, where op = op and t = "(cn_tasks c ! i)\<lparr>tk_phase := Committed\<rparr>"] b store_utxo_apply [OF t(1), of op "block_spends b" ?s]
    by (auto simp: held_def d(5))
  show ?thesis
  proof (rule conc_invI [where view = view and c = d, OF d(1,2) typed_apply [OF D(1) t(1,2)] _ D(3)])
    show "serial \<longrightarrow> (\<exists>bs. valid_chain C bs \<and> ?s' = replay C bs)"
    proof
      assume serial
      with D(2) serial t(4) obtain bs where "valid_chain C bs" "?s = replay C bs" "valid_next C (replay C bs) b" by metis
      then show "\<exists>bs. valid_chain C bs \<and> ?s' = replay C bs"
        by (intro exI [of _ "bs @ [b]"]) (simp add: chain_next append_block_def)
    qed
    show "pool_held ?s' (cn_tasks d) (nd_mempool (cn_node c))"
      using pool_held_mono [OF D(4) subset_refl] held by blast
    show "task_ok C ?s' (cn_commits d) x" if "x \<in> set (cn_tasks d)" for x
    proof (cases "x = (cn_tasks c ! i)\<lparr>tk_phase := Committed\<rparr>")
      case True
      with t(1,3) b(1) show ?thesis by (simp add: task_ok_def phase_ok_def d(4))
    next
      case False
      with that have "x \<in> set (cn_tasks c)"
        using set_update_subset_insert [of "cn_tasks c" i] by (auto simp: d(5))
      from D(5) [OF this] show ?thesis by (auto simp: task_ok_def d(4) dest: phase_ok_apply)
    qed
    show "admission_ok C ?s' (cn_tasks d) (nd_mempool (cn_node c)) h" if "cn_holder d = Some h" for h
      using that D(6) held by (auto simp: d(3) admission_ok_def)
  qed
qed

text \<open>The clean-up after a commit.\<close>

lemma conc_inv_clean_up:
  assumes inv: "conc_inv view C serial c" and i: "i < length (cn_tasks c)" and free: "cn_holder c = None"
    and t: "tk_phase (cn_tasks c ! i) = Committed"
  shows "conc_inv view C serial (c\<lparr>cn_node := clean_up C (tk_block (cn_tasks c ! i)) rpc (cn_node c),
    cn_tasks := (cn_tasks c)[i := (cn_tasks c ! i)\<lparr>tk_phase := Finished\<rparr>]\<rparr>)" (is "conc_inv _ _ _ ?d")
proof -
  let ?s = "view (nd_storage (cn_node c))" and ?b = "tk_block (cn_tasks c ! i)"
  let ?M = "process_committed_block C ?b (nd_mempool (cn_node c))"
  note D = conc_invD [OF inv]
  note spec = process_committed_block_spec [where block = ?b, OF D(3) refl]
  have n: "nd_storage (cn_node ?d) = nd_storage (cn_node c)" "nd_mempool (cn_node ?d) = ?M"
    by (simp_all add: clean_up_def Let_def)
  have held: "held ?s (cn_tasks ?d) op" if "p \<in> set (by_txid ?M)" "op \<in> set (tx_spends (me_tx (snd p)))"
    "held ?s (cn_tasks c) op" for p op
  proof -
    from that(1,2) spec(3) [of "fst p" "snd p"] block_spends_subset [of ?b] have "op \<notin> set (block_spends ?b)" by auto
    with that(3) awaiting_update(1) [OF i] show ?thesis by (auto simp: held_def)
  qed
  show ?thesis
  proof (rule conc_invI [where view = view and c = ?d, OF _ n(2) D(1,2) spec(1)])
    show "view (nd_storage (cn_node ?d)) = ?s" by (simp only: n)
    show "pool_held ?s (cn_tasks ?d) ?M" by (rule pool_held_mono [OF D(4) spec(2)]) (rule held)
    show "task_ok C ?s (cn_commits ?d) x" if "x \<in> set (cn_tasks ?d)" for x
    proof -
      have "task_ok C ?s (cn_commits c) ((cn_tasks c ! i)\<lparr>tk_phase := Finished\<rparr>)"
        using D(5) [of "cn_tasks c ! i"] i by (simp add: task_ok_def phase_ok_def)
      with that D(5) set_update_subset_insert [of "cn_tasks c" i] show ?thesis by auto
    qed
  qed (simp_all add: free)
qed

context redb_laws
begin

lemma conc_inv_turn:
  assumes inv: "conc_inv view C serial c" and i: "i < length (cn_tasks c)"
    and serial: "serial \<longrightarrow> (\<forall>spent. tk_phase (cn_tasks c ! i) = Validated spent \<longrightarrow> tk_seen (cn_tasks c ! i) = cn_commits c)"
  shows "conc_inv view C serial (task_turn R C i c)"
proof -
  let ?t = "cn_tasks c ! i" and ?A = "nd_authority (cn_node c)" and ?s = "view (nd_storage (cn_node c))"
  note D = conc_invD [OF inv]
  from D(5) i have t: "task_ok C ?s (cn_commits c) ?t" by simp
  consider "tk_phase ?t = Finished \<or> (tk_phase ?t = Committed \<and> cn_holder c \<noteq> None)"
    | "tk_phase ?t = Committed" "cn_holder c = None" | "tk_phase ?t \<notin> {Committed, Finished}" by auto
  then show ?thesis
  proof cases
    case 1
    with inv show ?thesis by (simp add: task_turn_def Let_def)
  next
    case 2
    with conc_inv_clean_up [OF inv i 2(2,1)] show ?thesis by (simp add: task_turn_def Let_def)
  next
    case 3
    obtain ph A where turn: "authority_turn R C (tk_block ?t) (tk_phase ?t) ?A = (ph, A)" by (metis surj_pair)
    let ?d = "task_turn R C i c"
    let ?t' = "?t\<lparr>tk_phase := ph, tk_seen := (if tk_phase ?t = Guarded then cn_commits c else tk_seen ?t)\<rparr>"
    have d: "cn_node ?d = (cn_node c)\<lparr>nd_authority := A\<rparr>" "cn_holder ?d = cn_holder c"
      "cn_tasks ?d = (cn_tasks c)[i := ?t']" "cn_commits ?d = (if ph = Committed then Suc (cn_commits c) else cn_commits c)"
      using 3 turn by (simp_all add: task_turn_def Let_def)
    from t have ok: "phase_ok C ?s (tk_block ?t) (tk_phase ?t) (tk_seen ?t = cn_commits c)" "wf_block (tk_block ?t)"
      by (simp_all add: task_ok_def)
    from authority_turn_cases [OF turn ok(1) D(1) ok(2) 3] show ?thesis
    proof (elim disjE conjE)
      assume q: "ph \<noteq> Committed" "view (auth_storage A) = ?s"
        "phase_ok C ?s (tk_block ?t) ph (tk_phase ?t = Guarded \<or> tk_seen ?t = cn_commits c)"
      have "task_ok C ?s (cn_commits c) ?t'" using q(3) t by (auto simp: task_ok_def)
      with q(1,2) 3 show ?thesis by (intro conc_inv_quiet [OF inv i _ _ _ _ d(3)]) (simp_all add: d(1,2,4))
    next
      assume q: "tk_phase ?t = Validated (block_spends (tk_block ?t))" "ph = Committed"
        "view (auth_storage A) = apply_block C (tk_block ?t) (block_spends (tk_block ?t)) ?s"
      then have "cn_tasks ?d = (cn_tasks c)[i := ?t\<lparr>tk_phase := Committed\<rparr>]" by (simp add: d(3))
      from conc_inv_commit [OF inv i refl q(1) _ _ _ d(2) _ this] q(2,3) serial q(1) show ?thesis
        by (simp add: d(1,4))
    qed
  qed
qed

lemma conc_inv_admission:
  assumes inv: "conc_inv view C serial c" and h: "cn_holder c = Some h"
  shows "conc_inv view C serial (admission_turn R C h c)"
proof -
  let ?n = "cn_node c" and ?s = "view (nd_storage (cn_node c))"
  note D = conc_invD [OF inv]
  note adm = D(6) [OF h, unfolded admission_ok_def]
  show ?thesis
  proof (cases "filter (\<lambda>op. ad_reads h op = None) (tx_spends (ad_tx h))")
    case (Cons op ops)
    let ?h = "h\<lparr>ad_reads := (ad_reads h)(op \<mapsto> storage_view R (nd_storage ?n) op)\<rparr>"
    have "admission_ok C ?s (cn_tasks c) (nd_mempool ?n) ?h"
      using adm storage_view_sound [of "nd_storage ?n" op] by (auto simp: admission_ok_def held_def)
    then have "conc_inv view C serial (c\<lparr>cn_holder := Some ?h\<rparr>)"
      using D by (intro conc_invI [OF refl refl]) simp_all
    with Cons show ?thesis by (simp add: admission_turn_def Let_def)
  next
    case Nil
    obtain res M where run: "mempool_insert C (ad_tx h) (known (ad_reads h)) (ad_tip h) (ad_mtp h) (ad_now h)
      (nd_mempool ?n) = (res, M)" by (metis surj_pair)
    have known: "held ?s (cn_tasks c) op" if "known (ad_reads h) op \<noteq> None" for op
      using that adm by (auto simp: known_def split: option.splits)
    have M: "pool_inv C M" using pool_inv_insert [OF D(3) _ run] adm by blast
    have "pool_held ?s (cn_tasks c) M"
      unfolding pool_held_def
    proof (intro ballI conjI)
      fix p assume p: "p \<in> set (by_txid M)"
      note entry = mempool_insert_entries [OF D(3) run p]
      from entry adm D(4) show "wf_tx (me_tx (snd p))" by (auto simp: pool_held_def)
      fix op assume "op \<in> set (tx_spends (me_tx (snd p)))"
      with entry known D(4) show "held ?s (cn_tasks c) op" by (auto simp: pool_held_def)
    qed
    with Nil run M D show ?thesis
      by (intro conc_invI [where M = M, OF _ _ D(1,2)]) (auto simp: admission_turn_def Let_def)
  qed
qed

end

lemma conc_inv_step:
  assumes step: "conc_step view wview rview C serial c c'" and inv: "conc_inv view C serial c"
  shows "conc_inv view C serial c'"
  using step
proof cases
  case (conc_arrive block rpc)
  note D = conc_invD [OF inv]
  have "awaiting (cn_tasks c @ [new_task block rpc]) = awaiting (cn_tasks c)" by (auto simp: awaiting_def new_task_def)
  then have held: "held s (cn_tasks c @ [new_task block rpc]) = held s (cn_tasks c)" for s by (simp add: fun_eq_iff held_def)
  show ?thesis
  proof (rule conc_invI [OF refl refl])
    show "task_ok C (view (nd_storage (cn_node c'))) (cn_commits c') t" if "t \<in> set (cn_tasks c')" for t
      using that D(5) conc_arrive(2) by (auto simp: conc_arrive(1) new_task_def task_ok_def phase_ok_def)
  qed (use D conc_arrive(1) in \<open>simp_all add: pool_held_def admission_ok_def held\<close>)
next
  case (conc_turn R i)
  with redb_laws.conc_inv_turn inv show ?thesis by blast
next
  case (conc_lock tx rpc tip mtp now)
  note D = conc_invD [OF inv]
  show ?thesis
    by (rule conc_invI [OF refl refl])
      (use D conc_lock in \<open>auto simp: admission_ok_def\<close>)
next
  case (conc_admission R h)
  with redb_laws.conc_inv_admission inv show ?thesis by blast
next
  case (conc_clock t)
  show ?thesis
    by (rule conc_invI [OF refl refl]) (use conc_invD [OF inv] conc_clock in simp_all)
next
  case (conc_restart R path db g t n k)
  note D = conc_invD [OF inv]
  from D(1) obtain tip where "store_tip (view db) = Inr (Some tip)" by (auto simp: ledger_typed_def conc_restart(4))
  with redb_laws.execute_node_ledger [OF conc_restart(2,5,3)] conc_restart(4)
  have same: "view (nd_storage n) = view (nd_storage (cn_node c))" by auto
  from conc_inv_fresh [OF _ execute_node_pool [OF conc_restart(5)], of C view serial k] D(1,2) show ?thesis by (simp only: conc_restart(1) same)
qed

lemma conc_reachable_inv: "conc_reachable view wview rview C serial c \<Longrightarrow> conc_inv view C serial c"
proof (induction rule: conc_reachable.induct)
  case (conc_start R path db g t n)
  from redb_laws.execute_node_ledger [OF conc_start(1,4,2)] conc_start(3)
  have s: "view (nd_storage n) = replay C [create_genesis_block C]"
    by (auto simp: store_tip_def replay_single append_block_def)
  note chain = chain_genesis [of C]
  have "ledger_typed C (view (nd_storage n))"
    unfolding s by (rule store_inv_typed [OF valid_chain_store_inv [OF chain] valid_chain_tip [OF chain]])
  moreover from execute_node_pool [OF conc_start(4)] have "nd_mempool n = Mempool_new DEFAULT_MAX_MEMPOOL_BYTES" .
  moreover have "\<exists>bs. valid_chain C bs \<and> view (nd_storage n) = replay C bs" using chain s by blast
  ultimately show ?case by (rule conc_inv_fresh [OF _ _ impI])
next
  case (conc_more c c')
  then show ?case by (blast intro: conc_inv_step)
qed

lemma conc_step_tables:
  assumes step: "conc_step view wview rview C serial c c'" and inv: "conc_inv view C serial c"
  shows "view (nd_storage (cn_node c')) = view (nd_storage (cn_node c)) \<or>
    (\<exists>t\<in>set (cn_tasks c). view (nd_storage (cn_node c')) = append_block C (tk_block t) (view (nd_storage (cn_node c))) \<and>
       (serial \<longrightarrow> valid_next C (view (nd_storage (cn_node c))) (tk_block t)))"
  using step
proof cases
  case (conc_turn R i)
  let ?t = "cn_tasks c ! i" and ?s = "view (nd_storage (cn_node c))"
  note D = conc_invD [OF inv]
  from D(5) conc_turn(3) have t: "task_ok C ?s (cn_commits c) ?t" by simp
  show ?thesis
  proof (cases "tk_phase ?t \<in> {Committed, Finished}")
    case True
    then show ?thesis unfolding conc_turn(1) by (auto simp: task_turn_def Let_def clean_up_def)
  next
    case False
    obtain ph A where turn: "authority_turn R C (tk_block ?t) (tk_phase ?t) (nd_authority (cn_node c)) = (ph, A)"
      by (metis surj_pair)
    have st: "nd_storage (cn_node c') = auth_storage A"
      using False turn unfolding conc_turn(1) by (simp add: task_turn_def Let_def)
    from t have ok: "phase_ok C ?s (tk_block ?t) (tk_phase ?t) (tk_seen ?t = cn_commits c)" "wf_block (tk_block ?t)"
      by (simp_all add: task_ok_def)
    from redb_laws.authority_turn_cases [OF conc_turn(2) turn ok(1) D(1) ok(2) False] show ?thesis
    proof (elim disjE conjE)
      assume v: "tk_phase ?t = Validated (block_spends (tk_block ?t))"
        and a: "view (auth_storage A) = apply_block C (tk_block ?t) (block_spends (tk_block ?t)) ?s"
      have "serial \<longrightarrow> valid_next C ?s (tk_block ?t)" using conc_turn(4) v ok(1) by (simp add: phase_ok_def)
      then show ?thesis using a conc_turn(3) nth_mem by (auto simp: st append_block_def)
    qed (simp add: st)
  qed
next
  case (conc_admission R h)
  then show ?thesis by (simp add: admission_turn_def Let_def split: list.split prod.split)
next
  case (conc_restart R path db g t n k)
  from conc_invD(1) [OF inv] obtain tip where "store_tip (view db) = Inr (Some tip)"
    by (auto simp: ledger_typed_def conc_restart(4))
  with redb_laws.execute_node_ledger [OF conc_restart(2,5,3)] conc_restart(1,4) show ?thesis by auto
qed simp_all

text \<open>A commit does not look at the life cycle again: the guard is read once, before everything else.\<close>

lemma commit_ignores_fail_stop:
  assumes "redb_healthy R view wview rview" "i < length (cn_tasks c)" "tk_phase (cn_tasks c ! i) = Validated spent"
  shows "auth_state (nd_authority (cn_node (task_turn R C i c))) = auth_state (nd_authority (cn_node c)) \<and>
    view (nd_storage (cn_node (task_turn R C i c))) =
      apply_block C (tk_block (cn_tasks c ! i)) spent (view (nd_storage (cn_node c)))"
proof -
  from redb_healthy.commit_validated_ok [OF assms(1), of C "nd_authority (cn_node c)" "tk_block (cn_tasks c ! i)" spent]
  obtain db where "commit_validated R C (nd_authority (cn_node c)) (tk_block (cn_tasks c ! i)) spent =
      (Inr (), (nd_authority (cn_node c))\<lparr>auth_storage := db\<rparr>)"
    "view db = apply_block C (tk_block (cn_tasks c ! i)) spent (view (nd_storage (cn_node c)))" by blast
  with assms(3) show ?thesis by (simp add: task_turn_def Let_def)
qed

section \<open>Two blocks on the database in memory\<close>

definition two_blocks :: "store conc" where
  "two_blocks = \<lparr>cn_node = boot_node, cn_tasks = [new_task (demo_block 3 []) True, new_task (demo_block 4 []) False],
     cn_holder = None, cn_commits = 0\<rparr>"

lemma two_blocks_reachable:
  "conc_reachable id (id :: store \<Rightarrow> store) (id :: store \<Rightarrow> store) flat_crypto serial two_blocks"
proof -
  let ?c = "\<lparr>cn_node = boot_node, cn_tasks = [], cn_holder = None, cn_commits = 0\<rparr> :: store conc"
  have "conc_reachable id (id :: store \<Rightarrow> store) (id :: store \<Rightarrow> store) flat_crypto serial ?c"
    by (rule conc_start [OF mem.redb_laws_axioms _ _ boot_node_exec, of "\<lambda>_. None"]) (simp_all add: mem_redb_def)
  from conc_more [OF conc_more [OF this conc_arrive] conc_arrive, of "demo_block 3 []" "demo_block 4 []" True False]
    demo_block_small show ?thesis
    by (simp add: two_blocks_def)
qed

section \<open>Properties\<close>

text \<open>C1: the daemon keeps its books under every interleaving. Blocks from clients and peers, each one
  going through guard, tip, look-ups, commit and clean-up in turns of its own, admissions to the
  pool and restarts interleave in any way, two blocks racing to commit included, on any database
  that obeys the laws and whatever calls fail; a transaction that enters the pool collides in its
  id with no other pooled one. In every state the ledger has a tip whose block and all blocks below
  it can be read, the pool's indices agree, and every pooled transaction is well-formed and spends
  outputs of the ledger, or outputs that a committed block has spent whose clean-up of the pool is
  still to come. The supply stays below the cap as long as no block is committed between another's
  reading of the tip and its commit; the code has no lock that enforces this.\<close>

theorem books_under_interleaving:
  assumes "conc_reachable view wview rview C serial c"
  defines "s \<equiv> view (nd_storage (cn_node c))" and "M \<equiv> nd_mempool (cn_node c)"
  shows "(\<exists>h hash tip. store_tip s = Inr (Some (h, hash)) \<and> indexed_upto s h \<and>
       store_block s hash = Inr (Some tip) \<and> height (header tip) = h \<and> block_hash C tip = hash) \<and>
    pool_inv C M \<and>
    (\<forall>p\<in>set (by_txid M). wf_tx (me_tx (snd p)) \<and> (\<forall>op\<in>set (tx_spends (me_tx (snd p))).
       (\<exists>out. store_utxo s op = Inr (Some out)) \<or>
       (\<exists>t\<in>set (cn_tasks c). tk_phase t = Committed \<and> op \<in> set (block_spends (tk_block t))))) \<and>
    (serial \<longrightarrow> total_supply s \<le> amount MAX_TOTAL_SUPPLY_QUANTA)"
proof (intro conjI impI)
  note D = conc_invD [OF conc_reachable_inv [OF assms(1)], folded s_def M_def]
  from D(1) show "\<exists>h hash tip. store_tip s = Inr (Some (h, hash)) \<and> indexed_upto s h \<and>
      store_block s hash = Inr (Some tip) \<and> height (header tip) = h \<and> block_hash C tip = hash"
    by (elim typed_readable) blast
  show "pool_inv C M" by (rule D(3))
  show "\<forall>p\<in>set (by_txid M). wf_tx (me_tx (snd p)) \<and> (\<forall>op\<in>set (tx_spends (me_tx (snd p))).
       (\<exists>out. store_utxo s op = Inr (Some out)) \<or>
       (\<exists>t\<in>set (cn_tasks c). tk_phase t = Committed \<and> op \<in> set (block_spends (tk_block t))))"
    using D(4) by (simp add: pool_held_def held_def awaiting_def)
  assume serial
  with D(2) obtain bs where "valid_chain C bs" "s = replay C bs" by blast
  with valid_chain_store_inv valid_chain_tip store_inv_supply
  show "total_supply s \<le> amount MAX_TOTAL_SUPPLY_QUANTA" by metis
qed

theorem books_under_interleaving_witness:
  "pool_inv flat_crypto (nd_mempool (cn_node two_blocks)) \<and>
     total_supply (nd_storage (cn_node two_blocks)) \<le> amount MAX_TOTAL_SUPPLY_QUANTA"
  using books_under_interleaving [OF two_blocks_reachable [of True]] unfolding id_apply by blast

text \<open>C6: commits that do not race are atomic. As long as no block is committed between another's reading
  of the tip and its commit, the turns of any number of blocks, admissions and restarts implement
  the ledger in which a block is checked and applied at once: the tables are always the replay of
  a valid chain, and each step of each task leaves them alone or appends one of the blocks under
  way, which is then a valid next block of that very chain. The code has no lock that enforces the
  condition.\<close>

theorem commits_linearise:
  assumes "conc_reachable view wview rview C True c"
  shows "\<exists>chain. valid_chain C chain \<and> view (nd_storage (cn_node c)) = replay C chain \<and>
    (\<forall>c'. conc_step view wview rview C True c c' \<longrightarrow>
       view (nd_storage (cn_node c')) = replay C chain \<or>
       (\<exists>t\<in>set (cn_tasks c). valid_chain C (chain @ [tk_block t]) \<and>
          view (nd_storage (cn_node c')) = replay C (chain @ [tk_block t])))"
proof -
  note inv = conc_reachable_inv [OF assms]
  from conc_invD(2) [OF inv] obtain chain where
    chain: "valid_chain C chain" "view (nd_storage (cn_node c)) = replay C chain" by blast
  have "view (nd_storage (cn_node c')) = replay C chain \<or>
       (\<exists>t\<in>set (cn_tasks c). valid_chain C (chain @ [tk_block t]) \<and>
          view (nd_storage (cn_node c')) = replay C (chain @ [tk_block t]))"
    if "conc_step view wview rview C True c c'" for c'
    using conc_step_tables [OF that inv] chain chain_next [OF chain(1)] by auto
  with chain show ?thesis by blast
qed

theorem commits_linearise_witness:
  "\<exists>chain. valid_chain flat_crypto chain \<and> nd_storage (cn_node two_blocks) = replay flat_crypto chain"
  using commits_linearise [OF two_blocks_reachable] unfolding id_apply by blast



end
