(* ===== verification/Cli.thy ===== *)
theory Cli
  imports Daemon Chain
begin

text \<open>
  The command line of the binary (\<open>main.rs\<close>, \<open>commands/wallet.rs\<close>, \<open>commands/indexer.rs\<close> and the
  argument records of \<open>commands/node.rs\<close> and \<open>commands/mine/mod.rs\<close>): the commands, the defaults of
  their arguments, the log events and the exit status. Parsing is the crate \<open>clap\<close>. The last
  section follows the default payout script of the miner to its consequence on the ledger.
\<close>

section \<open>Commands\<close>

record mine_args =
  mine_rpc :: string
  payout_script_hex :: string
  cpu_only :: bool

definition MineArgs_default :: mine_args where
  "MineArgs_default =
     \<lparr>mine_rpc = ''127.0.0.1:8547'',
      payout_script_hex = ''76a914000000000000000000000000000000000000000088ac'', cpu_only = False\<rparr>"

definition NodeArgs_default :: node_args where
  "NodeArgs_default =
     \<lparr>datadir = ''./data'', rpc_bind = ''127.0.0.1:8547'', p2p_listen = ''tcp/0.0.0.0:7447'', na_peers = [],
      offline = False\<rparr>"

record indexer_args =
  indexer_db_path :: string

definition IndexerArgs_default :: indexer_args where
  "IndexerArgs_default = \<lparr>indexer_db_path = ''./indexer.db''\<rparr>"

datatype wallet_command = WalletNew | WalletBalance string | WalletSend string u128

datatype command =
    CmdNode node_args
  | CmdWallet wallet_command
  | CmdMine mine_args
  | CmdIndexer indexer_args

text \<open>A log event: its message and its fields.\<close>

type_synonym log_event = "string \<times> (string \<times> string) list"

fun wallet_run :: "wallet_command \<Rightarrow> log_event" where
  "wallet_run WalletNew = (''Generating new sovereign keypair...'', [])"
| "wallet_run (WalletBalance address) = (''Querying balance via node RPC...'', [(''address'', address)])"
| "wallet_run (WalletSend to_addr v) =
     (''Crafting and broadcasting transaction via node RPC...'',
      [(''to'', to_addr), (''amount'', show_nat (unat v))])"

definition indexer_run :: "indexer_args \<Rightarrow> log_event" where
  "indexer_run args =
     (''Starting Aurion SQLite projection indexer worker...'', [(''db_path'', str_debug (indexer_db_path args))])"

text \<open>The last events of the process and its exit status, from the outcomes of the two long-running
  commands.\<close>

definition aurion_main ::
    "(node_args \<Rightarrow> (string, unit) result) \<Rightarrow> (mine_args \<Rightarrow> (string, unit) result) \<Rightarrow> command
     \<Rightarrow> log_event list \<times> nat" where
  "aurion_main node_run mine_run cmd = (case cmd of
     CmdNode args \<Rightarrow>
       (case node_run args of
          Inl err \<Rightarrow> ([(''Node terminated with error: '' @ err, [])], 1) | Inr _ \<Rightarrow> ([], 0))
   | CmdWallet args \<Rightarrow> ([wallet_run args], 0)
   | CmdMine args \<Rightarrow>
       (case mine_run args of
          Inl err \<Rightarrow> ([(''Mining terminated with error: '' @ err, [])], 1) | Inr _ \<Rightarrow> ([], 0))
   | CmdIndexer args \<Rightarrow> ([indexer_run args], 0))"

text \<open>The process fails exactly when one of the two long-running commands reports an error.\<close>

lemma aurion_main_status:
  "snd (aurion_main node_run mine_run cmd) = (case cmd of
     CmdNode args \<Rightarrow> if isl (node_run args) then 1 else 0
   | CmdMine args \<Rightarrow> if isl (mine_run args) then 1 else 0
   | _ \<Rightarrow> 0)"
  by (auto simp: aurion_main_def split: command.split sum.split)

section \<open>The probe for a GPU\<close>

text \<open>The adapters with what they report and the outcome of asking one for a device are the crate
  \<open>wgpu\<close>. The search itself never uses the device; the probe only logs.\<close>

datatype gpu_init_error = NoAdapterFound usize | DeviceCreationFailed string

fun gpu_init_error_display :: "gpu_init_error \<Rightarrow> string" where
  "gpu_init_error_display (NoAdapterFound n) = ''no compatible GPU adapter found at index '' @ show_nat n"
| "gpu_init_error_display (DeviceCreationFailed e) = ''failed to create GPU logical device and queue: '' @ e"

record ('device, 'queue) gpu_context =
  adapter_name :: string
  gpu_backend :: string
  gpu_device :: 'device
  gpu_queue :: 'queue

definition init_gpu ::
    "'adapter list \<Rightarrow> ('adapter \<Rightarrow> string \<times> string) \<Rightarrow> ('adapter \<Rightarrow> (string, 'device \<times> 'queue) result)
     \<Rightarrow> usize \<Rightarrow> (gpu_init_error, ('device, 'queue) gpu_context) result" where
  "init_gpu adapters get_info request_device device_index =
     (if adapters = [] then Inl (NoAdapterFound device_index)
      else
        bindR (ok_or (NoAdapterFound device_index)
                 (if device_index < length adapters then Some (adapters ! device_index) else None)) (\<lambda>adapter.
          let (info_name, info_backend) = get_info adapter in
          bindR (map_err DeviceCreationFailed (request_device adapter)) (\<lambda>(device, queue).
            Inr \<lparr>adapter_name = info_name, gpu_backend = info_backend, gpu_device = device, gpu_queue = queue\<rparr>)))"

definition gpu_probe :: "bool \<Rightarrow> (gpu_init_error, ('device, 'queue) gpu_context) result \<Rightarrow> log_event list" where
  "gpu_probe only_cpu probed =
     (if only_cpu then []
      else case probed of
        Inr ctx \<Rightarrow>
          [(''GPU adapter detected; WGSL Blake3 pipeline is a future integration, using CPU nonce search'',
            [(''adapter'', adapter_name ctx), (''backend'', gpu_backend ctx)])]
      | Inl err \<Rightarrow>
          [(''GPU unavailable; falling back to multi-threaded CPU mining'',
            [(''error'', gpu_init_error_display err)])])"

lemma init_gpu_first:
  "init_gpu adapters get_info request_device 0 = Inl err \<longleftrightarrow>
     (adapters = [] \<and> err = NoAdapterFound 0) \<or>
     (\<exists>e. adapters \<noteq> [] \<and> request_device (hd adapters) = Inl e \<and> err = DeviceCreationFailed e)"
  by (cases adapters) (auto simp: init_gpu_def Let_def bindR_eq_Inl map_err_eq_Inl split: prod.split)

section \<open>The default payout script\<close>

text \<open>A locking script that begins with a byte that is neither a push nor an opcode cannot be
  satisfied by any unlocking script, datum or redeemer.\<close>

lemma execute_bytecode_bad_opcode:
  assumes "\<not> (0x01 \<le> b \<and> b \<le> 0x4b)" "opcode_from_u8 b = None"
  shows "\<exists>e. execute_bytecode C E (b # cursor) st n = Inl e"
proof (cases "n < MAX_OPS_PER_SCRIPT")
  case True
  then have "usize_checked_add n 1 = Some (Suc n)"
    by (simp add: usize_checked_add_def MAX_OPS_PER_SCRIPT_def)
  with assms True show ?thesis by (auto simp: execute_bytecode.simps(2) simp del: not_le)
qed (simp add: execute_bytecode.simps(2))

lemma execute_contract_bad_opcode:
  assumes "\<not> (0x01 \<le> b \<and> b \<le> 0x4b)" "opcode_from_u8 b = None"
  shows "execute_contract C E (b # cursor) unlocking dat red \<noteq> Inr valid"
proof -
  have "execute_bytecode C E (b # cursor) st n \<noteq> Inr res" for st n res
    using execute_bytecode_bad_opcode [OF assms, of C E cursor st n] by auto
  then show ?thesis by (simp add: execute_contract_def bindR_eq_Inr split: prod.splits)
qed

definition default_payout :: bytes where
  "default_payout = [0x76, 0xa9, 0x14] @ replicate 20 0 @ [0x88, 0xac]"

lemma hex_default_payout: "hex_bytes default_payout = payout_script_hex MineArgs_default"
  by code_simp

lemma default_payout_never_valid: "execute_contract C E default_payout unlocking dat red \<noteq> Inr valid"
  by (simp add: default_payout_def execute_contract_bad_opcode opcode_from_u8_def)

text \<open>An invariant pass that succeeds spends no output locked by a script no contract run accepts.\<close>

lemma block_spends_authorized:
  assumes "block_invariants_ok C block lookup" "op \<in> set (block_spends block)"
  obtains out tx fee h idx inp where "lookup op = Some out"
    "input_verdict C tx fee h idx inp out = Inr True"
proof -
  from assms(2) obtain tx inp where tx: "tx \<in> set (transactions block)" "\<not> is_coinbase tx"
      "inp \<in> set (inputs tx)" "op = previous_output inp"
    by (auto simp: block_spends_def tx_spends_def)
  with assms(1) have c: "tx_conserves lookup tx" "tx_authorized C lookup (height (header block)) tx"
    by (auto simp: block_invariants_ok_def list_all_iff)
  from c(1) tx obtain out where "lookup op = Some out" by (auto simp: tx_conserves_def tx_spends_def)
  moreover from tx(3) obtain idx where "(idx, inp) \<in> set (enumerate_from 0 (inputs tx))"
    by (metis imageE map_snd_enumerate_from list.set_map prod.collapse)
  ultimately show thesis using c(2) tx(4) that by (fastforce simp: tx_authorized_def)
qed

section \<open>A decoder of hexadecimal text\<close>

text \<open>An instance of what the crate \<open>hex\<close> documents: every lower-case encoding decodes to its bytes.\<close>

definition digit_value :: "char \<Rightarrow> nat option" where
  "digit_value c = List.find (\<lambda>d. hex_digit d = c) [0..<16]"

fun from_hex :: "string \<Rightarrow> (string, bytes) result" where
  "from_hex [] = Inr []"
| "from_hex [_] = Inl ''Odd number of digits''"
| "from_hex (a # b # cs) = (case (digit_value a, digit_value b) of
     (Some hi, Some lo) \<Rightarrow> bindR (from_hex cs) (\<lambda>bs. Inr (of_nat (hi * 16 + lo) # bs))
   | _ \<Rightarrow> Inl ''Invalid character'')"

lemma digit_value_hex_digit: "d < 16 \<Longrightarrow> digit_value (hex_digit d) = Some d"
proof -
  have "list_all (\<lambda>d. digit_value (hex_digit d) = Some d) [0..<16]" by code_simp
  then show "d < 16 \<Longrightarrow> digit_value (hex_digit d) = Some d" by (simp add: list_all_iff)
qed

lemma from_hex_hex_bytes: "from_hex (hex_bytes bs) = Inr bs"
proof (induction bs)
  case (Cons b bs)
  have "unat b div 16 < 16" using unat_bound [of b] by (simp add: less_mult_imp_div_less)
  with Cons show ?case
    by (simp add: hex_bytes_def hex_u8_def digit_value_hex_digit)
qed (simp add: hex_bytes_def)

section \<open>Properties\<close>

text \<open>C36: The default payout of the miner is unspendable. The script the command line supplies when the
  operator names none starts with the byte of another system's duplication opcode, which is none
  here: an output of a coinbase that pays to it stays in the table of unspent outputs, because no
  block that spends it is ever accepted.\<close>

theorem default_payout_unspendable:
  assumes "redb_laws R view wview rview"
    and "\<And>bs. hex_decode (hex_bytes bs) = Inr bs"
    and "hex_decode (payout_script_hex MineArgs_default) = Inr payout"
    and "build_coinbase_transaction h payout subsidy fees en = Inr cb" "out \<in> set (outputs cb)"
    and "store_lookup (view (auth_storage A)) op = Some out"
    and "process_and_commit_block R C A block = (Inr u, A')"
  shows "op \<notin> set (block_spends block) \<and> view (auth_storage A') (utxo_key op) \<noteq> None"
proof
  have "hex_decode (hex_bytes default_payout) = Inr default_payout" by (rule assms(2))
  with assms(3-5) have out: "locking_script out = default_payout"
    by (auto simp: hex_default_payout build_coinbase_transaction_def)
  show spent: "op \<notin> set (block_spends block)"
  proof
    assume "op \<in> set (block_spends block)"
    moreover obtain l where l: "lookup_sound l (view (auth_storage A))" "block_invariants_ok C block l"
      using redb_laws.process_ok(5) [OF assms(1,7)] by blast
    ultimately obtain out' tx fee k idx inp where
      v: "l op = Some out'" "input_verdict C tx fee k idx inp out' = Inr True"
      by (blast elim: block_spends_authorized)
    from lookup_sound_le [OF l(1) v(1)] assms(6) out have "locking_script out' = default_payout" by simp
    with v(2) show False by (simp add: input_verdict_def from_output_def default_payout_never_valid)
  qed
  have "view (auth_storage A) (utxo_key op) \<noteq> None"
    using assms(6) by (auto simp: store_lookup_def store_utxo_def split: option.splits)
  with spent redb_laws.process_ok(6) [OF assms(1,7)]
  show "view (auth_storage A') (utxo_key op) \<noteq> None"
    by (simp add: apply_block_utxo split: option.split)
qed

lemma funded_store_accepts:
  assumes "key = utxo_key op"
  shows "fst (process_and_commit_block mem_redb flat_crypto
     (genesis_node\<lparr>auth_storage := (auth_storage genesis_node)(key \<mapsto> v)\<rparr>) (demo_block 0 [])) = Inr ()"
proof -
  have "block_invariants_ok flat_crypto (demo_block 0 []) lookup" for lookup
    by (simp add: block_invariants_ok_def block_spends_def demo_block_def demo_coinbase_facts)
  moreover have "connects ((auth_storage genesis_node)(key \<mapsto> v)) (demo_block 0 [])"
    using demo_connects [of 0 "[]"] assms by (simp add: connects_def store_tip_def utxo_key_def)
  ultimately show ?thesis using demo_structure [of "[]"]
    by (simp add: mem.process_accepts_iff) (simp add: genesis_node_eq demo_block_def)
qed

theorem default_payout_unspendable_witness:
  "\<exists>cb out A'. build_coinbase_transaction 1 default_payout (Quantum 5) QUANTUM_ZERO 1 = Inr cb \<and>
     outputs cb = [out] \<and>
     process_and_commit_block mem_redb flat_crypto
       (genesis_node\<lparr>auth_storage :=
          (auth_storage genesis_node)(utxo_key (OutPoint_new 7 0) \<mapsto> encode_tx_output out)\<rparr>)
       (demo_block 0 []) = (Inr (), A') \<and>
     auth_storage A' (utxo_key (OutPoint_new 7 0)) \<noteq> None"
proof -
  let ?out = "\<lparr>out_value = Quantum 5, locking_script = default_payout, out_datum = DatumNone\<rparr>"
  let ?A = "genesis_node\<lparr>auth_storage :=
    (auth_storage genesis_node)(utxo_key (OutPoint_new 7 0) \<mapsto> encode_tx_output ?out)\<rparr>"
  obtain cb where cb: "build_coinbase_transaction 1 default_payout (Quantum 5) QUANTUM_ZERO 1 = Inr cb"
    using coinbase_total by blast
  then have out: "outputs cb = [?out]"
    by (auto simp: build_coinbase_transaction_def quantum_checked_add_def QUANTUM_ZERO_def checked_add_def)
  obtain A' where run: "process_and_commit_block mem_redb flat_crypto ?A (demo_block 0 []) = (Inr (), A')"
    using funded_store_accepts [OF refl] by (metis prod.collapse)
  have "wf_tx_output ?out" by (simp add: wf_defs default_payout_def)
  then have "store_lookup (id (auth_storage ?A)) (OutPoint_new 7 0) = Some ?out"
    by (simp add: store_lookup_def store_utxo_def tx_output.roundtrip)
  from default_payout_unspendable [OF mem.redb_laws_axioms, of from_hex default_payout 1 "Quantum 5" QUANTUM_ZERO 1 cb
      ?out ?A "OutPoint_new 7 0" flat_crypto "demo_block 0 []" "()" A'] this run cb out
  have "auth_storage A' (utxo_key (OutPoint_new 7 0)) \<noteq> None"
    by (simp add: from_hex_hex_bytes flip: hex_default_payout)
  with cb out run show ?thesis by blast
qed

end
