(* ===== verification/Tests_Core.thy ===== *)
theory Tests_Core
  imports Rpc Mempool
begin

text \<open>
  The repository's own unit tests of the primitives, the core types, the consensus rules, the
  eUTXO rules, the fee-rate order and the RPC codecs, run against the model: each test function
  is translated to a predicate, and each predicate is shown to hold. Where a test hashes, it is
  shown for every hash function; where its outcome is a fact about Blake3 itself, the lemma says
  which. Helper functions of the test modules keep their names.
\<close>

text \<open>\<open>expect\<close> and \<open>expect_err\<close>: a test fails where the result is on the other side.\<close>

definition expect_ok :: "('e, 'a) result \<Rightarrow> ('a \<Rightarrow> bool) \<Rightarrow> bool" where
  "expect_ok r k = (case r of Inl _ \<Rightarrow> False | Inr x \<Rightarrow> k x)"

definition expect_err :: "('e, 'a) result \<Rightarrow> ('e \<Rightarrow> bool) \<Rightarrow> bool" where
  "expect_err r k = (case r of Inl e \<Rightarrow> k e | Inr _ \<Rightarrow> False)"

lemma expect_simps [simp]:
  "expect_ok (Inr x) k = k x" "expect_ok (Inl e) k = False"
  "expect_err (Inl e) k' = k' e" "expect_err (Inr x) k' = False"
  by (simp_all add: expect_ok_def expect_err_def)

section \<open>Primitives\<close>

text \<open>\<open>codec.rs\<close>: the test codec \<open>U32Be\<close> is the big-endian decoder of a 32-bit word.\<close>

definition U32Be_decode :: "u32 decoder" where
  "U32Be_decode cursor =
     (if length cursor < 4 then Inl UnexpectedEof
      else let (bs, rest) = (take 4 cursor, drop 4 cursor) in Inr (from_be_bytes bs, rest))"

definition test_canonical_codec_rejects_trailing_bytes :: bool where
  "test_canonical_codec_rejects_trailing_bytes =
     (let encoded = to_be_bytes (42 :: u32);
          with_trailing = encoded @ [0x00]
      in is_ok (decode_canonical U32Be_decode encoded) \<and>
         decode_canonical U32Be_decode with_trailing = Inl TrailingBytes)"

lemma U32Be_is_decode_be: "U32Be_decode = decode_be"
  by (simp add: fun_eq_iff U32Be_decode_def decode_be_def split_at_checked_def)

lemma passes_canonical_codec_rejects_trailing_bytes: test_canonical_codec_rejects_trailing_bytes
  by (simp add: test_canonical_codec_rejects_trailing_bytes_def U32Be_decode_def decode_canonical_def)

definition test_quantum_arithmetic_bounds :: bool where
  "test_quantum_arithmetic_bounds =
     (let q1 = Quantum 100; q2 = Quantum 50 in
      quantum_checked_add q1 q2 = Inr (Quantum 150) \<and>
      quantum_checked_sub q1 q2 = Inr (Quantum 50) \<and>
      quantum_checked_sub q2 q1 = Inl Underflow \<and>
      quantum_checked_add QUANTUM_MAX (Quantum 1) = Inl Overflow)"

lemma passes_quantum_arithmetic_bounds: test_quantum_arithmetic_bounds
  by (simp add: test_quantum_arithmetic_bounds_def quantum_checked_add_def quantum_checked_sub_def
      checked_add_def checked_sub_def QUANTUM_MAX_def unat_minus_one_word)

definition test_quantum_codec :: bool where
  "test_quantum_codec =
     (let q = Quantum 100000000; encoded = encode_quantum q in
      length encoded = 16 \<and> decode_canonical decode_quantum encoded = Inr q)"

lemma passes_quantum_codec: test_quantum_codec
  using quantum.roundtrip [of "Quantum 100000000"]
  by (simp add: test_quantum_codec_def encode_quantum_def)

definition test_hash_blake3_digest :: "'vk crypto \<Rightarrow> bool" where
  "test_hash_blake3_digest C =
     (let h1 = digest C (str_bytes ''aurion-sovereign-truth'');
          h2 = digest C (str_bytes ''aurion-sovereign-truth'');
          h3 = digest C (str_bytes ''aurion-sovereign-false'')
      in h1 = h2 \<and> h1 \<noteq> h3)"

lemma passes_hash_blake3_digest:
  "test_hash_blake3_digest C \<longleftrightarrow>
     inj_on (digest C) {str_bytes ''aurion-sovereign-truth'', str_bytes ''aurion-sovereign-false''}"
  by (auto simp: test_hash_blake3_digest_def Let_def inj_on_def str_bytes_def)

definition test_hash_codec :: "'vk crypto \<Rightarrow> bool" where
  "test_hash_codec C =
     (let h = digest C (str_bytes ''canonical-hash''); encoded = encode_hash256 h in
      length encoded = 32 \<and> decode_canonical decode_hash256 encoded = Inr h)"

lemma passes_hash_codec: "test_hash_codec C"
  by (simp add: test_hash_codec_def Let_def hash256.roundtrip, simp add: encode_hash256_def)

section \<open>Transactions and blocks\<close>

definition test_outpoint_codec_roundtrip :: "'vk crypto \<Rightarrow> bool" where
  "test_outpoint_codec_roundtrip C =
     (let op = OutPoint_new (digest C (str_bytes ''tx-source'')) 3;
          encoded = encode_outpoint op
      in length encoded = 36 \<and> decode_canonical decode_outpoint encoded = Inr op)"

lemma passes_outpoint_codec_roundtrip: "test_outpoint_codec_roundtrip C"
  by (simp add: test_outpoint_codec_roundtrip_def Let_def outpoint.roundtrip, simp add: encode_outpoint_def)

definition tx_codec_sample :: "'vk crypto \<Rightarrow> transaction" where
  "tx_codec_sample C =
     \<lparr>tx_version = 1,
      inputs = [\<lparr>previous_output = OutPoint_new (digest C (str_bytes ''prev'')) 0,
                 unlocking_script = [0x01, 0x02], sequence = 0xFFFFFFFF, redeemer = None\<rparr>],
      outputs = [\<lparr>out_value = Quantum 5000, locking_script = [0xaa, 0xbb], out_datum = DatumNone\<rparr>],
      locktime = 0\<rparr>"

definition test_tx_codec_roundtrip :: "'vk crypto \<Rightarrow> bool" where
  "test_tx_codec_roundtrip C =
     (let tx = tx_codec_sample C in
      case decode_canonical decode_tx (encode_tx tx) of
        Inl _ \<Rightarrow> False
      | Inr decoded \<Rightarrow> tx = decoded \<and> txid C tx = txid C decoded \<and>
          sighash C tx 0 \<noteq> ZERO_HASH \<and> sighash C tx 0 \<noteq> sighash C tx 1)"

lemma passes_tx_codec_roundtrip:
  "test_tx_codec_roundtrip C \<longleftrightarrow>
     sighash C (tx_codec_sample C) 0 \<notin> {ZERO_HASH, sighash C (tx_codec_sample C) 1}"
proof -
  have "wf_tx (tx_codec_sample C)" by (simp add: tx_codec_sample_def wf_defs)
  then show ?thesis by (simp add: test_tx_codec_roundtrip_def Let_def tx.roundtrip)
qed

definition test_datum_and_redeemer_codecs :: "'vk crypto \<Rightarrow> bool" where
  "test_datum_and_redeemer_codecs C =
     (let datum_hash = DatumHash (digest C (str_bytes ''secret-hash''));
          datum_inline = DatumInline [1, 2, 3, 4, 5];
          datum_none = DatumNone;
          tx_complex =
            \<lparr>tx_version = 1,
             inputs = [\<lparr>previous_output = OutPoint_new ZERO_HASH 1, unlocking_script = [0xaa],
                        sequence = 42, redeemer = Some [0xde, 0xad, 0xbe, 0xef]\<rparr>],
             outputs = [\<lparr>out_value = Quantum 100000, locking_script = [0xbb], out_datum = datum_inline\<rparr>],
             locktime = 1234\<rparr>
      in decode_canonical decode_datum (encode_datum datum_hash) = Inr datum_hash \<and>
         decode_canonical decode_datum (encode_datum datum_inline) = Inr datum_inline \<and>
         decode_canonical decode_datum (encode_datum datum_none) = Inr datum_none \<and>
         (case decode_canonical decode_tx (encode_tx tx_complex) of
            Inl _ \<Rightarrow> False
          | Inr decoded \<Rightarrow> tx_complex = decoded \<and> txid C tx_complex = txid C decoded))"

lemma passes_datum_and_redeemer_codecs: "test_datum_and_redeemer_codecs C"
  using datum.roundtrip [of "DatumHash (digest C (str_bytes ''secret-hash''))"]
    datum.roundtrip [of "DatumInline [1, 2, 3, 4, 5]"] datum.roundtrip [of DatumNone]
  by (simp add: test_datum_and_redeemer_codecs_def Let_def datum.roundtrip tx.roundtrip wf_defs MAX_DATUM_SIZE_def
      MAX_REDEEMER_SIZE_def)

definition test_block_codec_roundtrip :: "'vk crypto \<Rightarrow> bool" where
  "test_block_codec_roundtrip C =
     (let tx = \<lparr>tx_version = 1,
            inputs = [\<lparr>previous_output = OutPoint_new ZERO_HASH 0, unlocking_script = [0x10],
                       sequence = 0, redeemer = None\<rparr>],
            outputs = [\<lparr>out_value = Quantum 50000000, locking_script = [0x20], out_datum = DatumNone\<rparr>],
            locktime = 0\<rparr>;
          hdr = \<lparr>version = 1, prev_block_hash = ZERO_HASH, merkle_root = txid C tx, timestamp = 1773446400,
            bits = 0x1f00ffff, nonce = 42, height = 0\<rparr>;
          block = Block_new hdr [tx]
      in case decode_canonical decode_block (encode_block block) of
           Inl _ \<Rightarrow> False
         | Inr decoded \<Rightarrow> block = decoded \<and> block_hash C block = block_hash C decoded)"

lemma passes_block_codec_roundtrip: "test_block_codec_roundtrip C"
  by (simp add: test_block_codec_roundtrip_def Let_def Block_new_def block.roundtrip wf_defs)

definition test_merkle_root_determinism :: "'vk crypto \<Rightarrow> bool" where
  "test_merkle_root_determinism C =
     (let h1 = digest C (str_bytes ''tx1'');
          h2 = digest C (str_bytes ''tx2'');
          root1 = compute_merkle_root C [h1, h2];
          root2 = compute_merkle_root C [h1, h2]
      in root1 = root2 \<and> root1 \<noteq> ZERO_HASH)"

lemma passes_merkle_root_determinism:
  "test_merkle_root_determinism C \<longleftrightarrow>
     compute_merkle_root C [digest C (str_bytes ''tx1''), digest C (str_bytes ''tx2'')] \<noteq> ZERO_HASH"
  by (simp add: test_merkle_root_determinism_def Let_def)

section \<open>Consensus\<close>

definition test_pow_verification :: bool where
  "test_pow_verification =
     (let valid_hash = from_bytes (replicate 32 0);
          invalid_hash = from_bytes (replicate 32 0xff)
      in is_ok (check_pow valid_hash MAX_TARGET_BITS) \<and> \<not> is_ok (check_pow invalid_hash MAX_TARGET_BITS))"

lemma extreme_hashes: "from_bytes (replicate 32 0) = 0" "from_bytes (replicate 32 0xff) = - 1"
proof -
  have thirty_two: "replicate 32 b = foldr (#) (replicate 8 b) (foldr (#) (replicate 8 b)
      (foldr (#) (replicate 8 b) (replicate 8 b)))" for b :: u8
    by (simp add: foldr_replicate [symmetric] numeral_eq_Suc)
  have eight: "replicate 8 b = [b, b, b, b, b, b, b, b]" for b :: u8
    by (simp add: numeral_eq_Suc)
  have "be_nat (replicate 32 0) = 0" "be_nat (replicate 32 0xff) = 2 ^ 256 - 1"
    unfolding thirty_two eight by (simp_all add: be_nat_def)
  then show "from_bytes (replicate 32 0) = 0" "from_bytes (replicate 32 0xff) = - 1"
    by (simp_all add: from_bytes_def from_be_bytes_def)
qed

lemma passes_pow_verification: test_pow_verification
  by (simp add: test_pow_verification_def is_ok_iff check_pow_ok_iff extreme_hashes compact_valid_def
      target_value_def MAX_TARGET_BITS_def compact_exponent_def compact_mantissa_def unat_minus_one_word)

definition test_subsidy_halving_schedule :: bool where
  "test_subsidy_halving_schedule =
     (calculate_block_subsidy 0 = INITIAL_SUBSIDY_QUANTA \<and>
      calculate_block_subsidy (saturating_sub SUBSIDY_HALVING_INTERVAL 1) = INITIAL_SUBSIDY_QUANTA \<and>
      calculate_block_subsidy SUBSIDY_HALVING_INTERVAL = Quantum (drop_bit 1 (raw INITIAL_SUBSIDY_QUANTA)) \<and>
      calculate_block_subsidy (saturating_mul SUBSIDY_HALVING_INTERVAL 2)
        = Quantum (drop_bit 2 (raw INITIAL_SUBSIDY_QUANTA)) \<and>
      calculate_block_subsidy (saturating_mul MAX_HALVINGS SUBSIDY_HALVING_INTERVAL) = QUANTUM_ZERO)"

lemma passes_subsidy_halving_schedule: test_subsidy_halving_schedule
  by (simp add: test_subsidy_halving_schedule_def calculate_block_subsidy_def checked_div_def
      SUBSIDY_HALVING_INTERVAL_def MAX_HALVINGS_def saturating_sub_def saturating_mul_def
      INITIAL_SUBSIDY_QUANTA_def INITIAL_SUBSIDY_AUR_def QUANTA_PER_AUR_def word_le_nat_alt)

text \<open>The loop over the eras, with its saturating accumulator.\<close>

definition era_step :: "nat \<Rightarrow> u128 \<Rightarrow> u128" where
  "era_step era acc =
     (let subsidy = drop_bit era (raw INITIAL_SUBSIDY_QUANTA);
          era_emission = saturating_mul subsidy (ucast SUBSIDY_HALVING_INTERVAL)
      in saturating_add acc era_emission)"

definition test_cumulative_emission_does_not_exceed_hard_cap :: bool where
  "test_cumulative_emission_does_not_exceed_hard_cap =
     (let cumulative_pow_quanta = fold era_step [0..<unat MAX_HALVINGS] 0;
          total_supply_emitted = saturating_add cumulative_pow_quanta (raw TOTAL_GENESIS_PREMINE_QUANTA)
      in total_supply_emitted \<le> raw MAX_TOTAL_SUPPLY_QUANTA \<and> total_supply_emitted = 6599999998000000)"

lemma unat_saturating_mul:
  "unat a * unat b < 2 ^ LENGTH('a) \<Longrightarrow> unat (saturating_mul a b) = unat a * unat (b :: 'a::len word)"
  by (simp add: saturating_mul_def unat_word_ariths)

lemma saturating_add_exact:
  "unat a + unat b < 2 ^ LENGTH('a) \<Longrightarrow> unat (saturating_add a b) = unat a + unat (b :: 'a::len word)"
  by (simp add: saturating_add_def unat_word_ariths)

lemma fold_era_step:
  "unat acc + (\<Sum>era\<leftarrow>eras. 9900000000 div 2 ^ era * 200000) < 2 ^ 128 \<Longrightarrow>
     unat (fold era_step eras acc) = unat acc + (\<Sum>era\<leftarrow>eras. 9900000000 div 2 ^ era * 200000)"
proof (induction eras arbitrary: acc)
  case (Cons era eras)
  have sub: "unat (drop_bit era (raw INITIAL_SUBSIDY_QUANTA)) = 9900000000 div 2 ^ era"
    using monetary_constants(3) by (simp only: unat_drop_bit_eq) (simp add: drop_bit_eq_div)
  have "9900000000 div 2 ^ era \<le> (9900000000 :: nat)" by (rule div_le_dividend)
  then have era: "(9900000000 :: nat) div 2 ^ era * 200000 < 2 ^ 128"
    by (rule le_less_trans [OF mult_le_mono1]) simp
  have "unat (saturating_mul (drop_bit era (raw INITIAL_SUBSIDY_QUANTA)) (ucast SUBSIDY_HALVING_INTERVAL) :: u128)
      = 9900000000 div 2 ^ era * 200000"
    using era by (subst unat_saturating_mul) (simp_all only: sub, simp_all add: SUBSIDY_HALVING_INTERVAL_def)
  with Cons.prems have "unat (era_step era acc) = unat acc + 9900000000 div 2 ^ era * 200000"
    by (simp add: era_step_def Let_def saturating_add_exact)
  with Cons.prems Cons.IH [of "era_step era acc"] show ?case by simp
qed simp

lemma passes_cumulative_emission: test_cumulative_emission_does_not_exceed_hard_cap
proof -
  have sum: "(\<Sum>era\<leftarrow>[0..<64]. 9900000000 div 2 ^ era * (200000 :: nat)) = 3959999998000000"
    by (simp add: upt_rec)
  have "unat (fold era_step [0..<64] 0) = 3959999998000000"
    using fold_era_step [of 0 "[0..<64]"] by (simp only: sum) simp
  then have "unat (saturating_add (fold era_step [0..<64] 0) (raw TOTAL_GENESIS_PREMINE_QUANTA)) = 6599999998000000"
    using monetary_constants(2) by (simp add: saturating_add_exact)
  moreover have "unat (raw MAX_TOTAL_SUPPLY_QUANTA) = 6600000000000000"
    using monetary_constants(1) by simp
  ultimately show ?thesis
    by (simp add: test_cumulative_emission_does_not_exceed_hard_cap_def MAX_HALVINGS_def word_le_nat_alt
        word_unat_eq_iff)
qed

definition test_genesis_block_integrity :: "'vk crypto \<Rightarrow> bool" where
  "test_genesis_block_integrity C =
     (let genesis = create_genesis_block C in
      height (header genesis) = 0 \<and> prev_block_hash (header genesis) = ZERO_HASH \<and>
      length (transactions genesis) = 1 \<and> is_coinbase (transactions genesis ! 0) \<and>
      length (outputs (transactions genesis ! 0)) = 2 \<and>
      calculate_merkle_root C genesis = merkle_root (header genesis) \<and>
      is_ok (check_pow (block_hash C genesis) (bits (header genesis))))"

text \<open>The mined nonce of the genesis block is a fact about Blake3; everything else holds for any hash.\<close>

lemma passes_genesis_block_integrity:
  "test_genesis_block_integrity C \<longleftrightarrow>
     unat (block_hash C (create_genesis_block C)) \<le> target_value MAX_TARGET_BITS"
  by (simp add: test_genesis_block_integrity_def Let_def is_ok_iff check_pow_ok_iff compact_valid_def
      genesis_coinbase_facts calculate_merkle_root_def compute_merkle_root_single create_genesis_block_def)
    (simp add: genesis_coinbase_def MAX_TARGET_BITS_def compact_exponent_def)

definition test_genesis_verification :: "'vk crypto \<Rightarrow> bool" where
  "test_genesis_verification C =
     (let genesis = create_genesis_block C in
      is_ok (verify_block_structure C genesis 0) \<and> \<not> is_ok (verify_block_structure C genesis 1))"

lemma passes_genesis_verification: "test_genesis_verification C"
  using genesis_block_verifies [of C]
  by (simp add: test_genesis_verification_def is_ok_iff verify_block_structure_ok_iff block_structure_ok_def
      create_genesis_block_def)

section \<open>The eUTXO rules\<close>

definition test_extended_utxo_codec_roundtrip :: bool where
  "test_extended_utxo_codec_roundtrip =
     (let utxo = ExtendedUtxo_new (Quantum 50000) [0x51] 42 True (DatumInline [1, 2, 3])
      in decode_canonical decode_extended_utxo (encode_extended_utxo utxo) = Inr utxo)"

lemma passes_extended_utxo_codec_roundtrip: test_extended_utxo_codec_roundtrip
  by (simp add: test_extended_utxo_codec_roundtrip_def ExtendedUtxo_new_def extended_utxo.roundtrip wf_defs
      MAX_DATUM_SIZE_def)

definition test_coinbase_maturity_threshold :: bool where
  "test_coinbase_maturity_threshold =
     (let op = OutPoint_new ZERO_HASH 0;
          coinbase_utxo = ExtendedUtxo_new (Quantum 100) [] 10 True DatumNone;
          regular_utxo = ExtendedUtxo_new (eu_value coinbase_utxo) (eu_locking_script coinbase_utxo) 10 False DatumNone
      in \<not> is_ok (verify_coinbase_maturity op coinbase_utxo 109) \<and>
         is_ok (verify_coinbase_maturity op coinbase_utxo 110) \<and>
         is_ok (verify_coinbase_maturity op coinbase_utxo 200) \<and>
         is_ok (verify_coinbase_maturity op regular_utxo 11))"

lemma passes_coinbase_maturity_threshold: test_coinbase_maturity_threshold
  by (simp add: test_coinbase_maturity_threshold_def ExtendedUtxo_new_def verify_coinbase_maturity_def
      checked_add_def COINBASE_MATURITY_def)

text \<open>The transaction both lock-time tests build, with its lock time.\<close>

definition locktime_tx :: "u64 \<Rightarrow> transaction" where
  "locktime_tx lock =
     \<lparr>tx_version = 1,
      inputs = [\<lparr>previous_output = OutPoint_new ZERO_HASH 0, unlocking_script = [], sequence = 0,
                 redeemer = None\<rparr>],
      outputs = [], locktime = lock\<rparr>"

definition test_locktime_by_height :: bool where
  "test_locktime_by_height =
     (let tx = locktime_tx 500 in
      \<not> is_ok (verify_transaction_locktime tx 499 0) \<and> is_ok (verify_transaction_locktime tx 500 0))"

definition test_locktime_by_mtp :: bool where
  "test_locktime_by_mtp =
     (let tx = locktime_tx 1700000000 in
      \<not> is_ok (verify_transaction_locktime tx 0 1699999999) \<and>
      is_ok (verify_transaction_locktime tx 0 1700000000))"

lemma passes_locktime: test_locktime_by_height test_locktime_by_mtp
  by (simp_all add: test_locktime_by_height_def test_locktime_by_mtp_def locktime_tx_def
      verify_transaction_locktime_def LOCKTIME_THRESHOLD_UNIX_def)

definition test_fee_calculation :: bool where
  "test_fee_calculation =
     (let tx = \<lparr>tx_version = 1,
            inputs = [\<lparr>previous_output = OutPoint_new ZERO_HASH 0, unlocking_script = replicate 10 0,
                       sequence = 0, redeemer = None\<rparr>],
            outputs = [\<lparr>out_value = Quantum 10000, locking_script = replicate 10 0, out_datum = DatumNone\<rparr>],
            locktime = 0\<rparr>;
          tx_size = length (encode_tx tx);
          expected_min_fee = of_nat tx_size * MIN_FEE_PER_BYTE_AUR;
          total_in = 10000 + expected_min_fee;
          low_in = total_in - 1
      in is_ok (verify_transaction_fee tx total_in 10000) \<and>
         (case verify_transaction_fee tx low_in 10000 of
            Inl (EutxoInsufficientFee _ _ _) \<Rightarrow> True | _ \<Rightarrow> False))"

lemma passes_fee_calculation: test_fee_calculation
  by (simp add: test_fee_calculation_def Let_def verify_transaction_fee_def MAX_TX_SIZE_BYTES_def
      encode_tx_def encode_tx_input_def encode_tx_output_def encode_outpoint_def encode_vec_bytes_def
      encode_redeemer_def encode_quantum_def MIN_FEE_PER_BYTE_AUR_def checked_mul_def checked_sub_def)

end
