(* ===== verification/Tests_Ledger.thy ===== *)
theory Tests_Ledger
  imports Ledger Tests_Core
begin

text \<open>
  The unit tests of the storage engine, of the block invariants and of the authority engine
  (\<open>aurion-storage/src/engine.rs\<close>, \<open>authority/invariants.rs\<close> and \<open>authority/engine.rs\<close>), run against
  the model. The temporary database file of the tests is the in-memory database \<open>mem_redb\<close>.
\<close>

section \<open>Storage\<close>

definition test_storage_genesis_commit_and_retrieval :: "'vk crypto \<Rightarrow> bool" where
  "test_storage_genesis_commit_and_retrieval C =
     expect_ok (StorageEngine_open mem_redb ''tempfile'') (\<lambda>storage.
       get_tip mem_redb storage = Inr None \<and>
       (let genesis = create_genesis_block C;
            genesis_hash = block_hash C genesis;
            (committed, storage) = commit_block mem_redb C storage genesis []
        in is_ok committed \<and>
           get_tip mem_redb storage = Inr (Some (0, genesis_hash)) \<and>
           expect_ok (get_block mem_redb storage genesis_hash) (\<lambda>b. case b of
             None \<Rightarrow> False | Some loaded_block \<Rightarrow> block_hash C loaded_block = genesis_hash) \<and>
           expect_ok (get_block_by_height mem_redb storage 0) (\<lambda>b. case b of
             None \<Rightarrow> False | Some loaded_by_height \<Rightarrow> block_hash C loaded_by_height = genesis_hash) \<and>
           list_all (\<lambda>vout.
               let op = OutPoint_new (txid C (transactions genesis ! 0)) (of_nat vout) in
               expect_ok (get_utxo mem_redb storage op) (\<lambda>u. case u of
                 None \<Rightarrow> False
               | Some utxo \<Rightarrow> out_value utxo = out_value (outputs (transactions genesis ! 0) ! vout)))
             [0, 1]))"

lemma mem_open: "StorageEngine_open mem_redb path = Inr (\<lambda>_. None)"
  by (simp add: StorageEngine_open_def storage_commit_def mem_redb_def map_err_def)

lemma mem_commit: "commit_block mem_redb C db block spent = (Inr (), apply_block C block spent db)"
  using mem.commit_block_ok [of C db block spent] mem.commit_block_applies [of C db block spent] by fastforce

lemma genesis_fields:
  "wf_block (create_genesis_block C)" "height (header (create_genesis_block C)) = 0"
  "transactions (create_genesis_block C) = [genesis_coinbase]"
  by (simp_all add: create_genesis_block_def genesis_coinbase_def GENESIS_PAYLOAD_def str_bytes_def wf_defs)

lemma genesis_utxos:
  assumes "vout < 2"
  shows "store_utxo (apply_block C (create_genesis_block C) [] s) (OutPoint_new (txid C genesis_coinbase) (of_nat vout))
    = Inr (Some (outputs genesis_coinbase ! vout))"
proof -
  obtain o1 o2 where o: "outputs genesis_coinbase = [o1, o2]" "wf_tx_output o1" "wf_tx_output o2"
    by (simp add: genesis_coinbase_def wf_defs)
  have "vout = 0 \<or> vout = 1" using assms by linarith
  then show ?thesis
    using o by (auto simp: store_utxo_def apply_block_utxo block_outputs_def created_outputs_def genesis_fields
        enumerate_from_def OutPoint_new_def tx_output.roundtrip)
qed

lemma passes_storage_genesis_commit_and_retrieval: "test_storage_genesis_commit_and_retrieval C"
proof -
  let ?g = "create_genesis_block C"
  have "store_tip (\<lambda>_. None) = Inr None" by (simp add: store_tip_def)
  moreover note apply_block_tip [of C ?g "[]" "\<lambda>_. None"] apply_block_block [of ?g C "[]" "\<lambda>_. None"]
    genesis_utxos [of 0 C "\<lambda>_. None"] genesis_utxos [of 1 C "\<lambda>_. None"]
  ultimately show ?thesis
    by (simp add: test_storage_genesis_commit_and_retrieval_def mem_open mem_commit mem.get_tip_ok mem.get_block_ok
        mem.get_block_by_height_ok mem.get_utxo_ok genesis_fields Let_def)
qed

section \<open>Block invariants\<close>

text \<open>The block all three tests build around their transaction: one input of 100 quanta.\<close>

definition invariant_tx :: "outpoint \<Rightarrow> u128 \<Rightarrow> transaction" where
  "invariant_tx prev_op v =
     \<lparr>tx_version = 1,
      inputs = [\<lparr>previous_output = prev_op, unlocking_script = [], sequence = 0, redeemer = None\<rparr>],
      outputs = [\<lparr>out_value = Quantum v, locking_script = [opcode_u8 OpTrue], out_datum = DatumNone\<rparr>],
      locktime = 0\<rparr>"

definition invariant_block :: "transaction \<Rightarrow> block" where
  "invariant_block tx =
     Block_new \<lparr>version = 1, prev_block_hash = ZERO_HASH, merkle_root = ZERO_HASH, timestamp = 0, bits = 0,
       nonce = 0, height = 1\<rparr> [tx]"

definition funding :: "outpoint \<Rightarrow> opcode \<Rightarrow> utxo_lookup" where
  "funding prev_op lock =
     [prev_op \<mapsto> \<lparr>out_value = Quantum 100, locking_script = [opcode_u8 lock], out_datum = DatumNone\<rparr>]"

definition test_script_verification_success :: "'vk crypto \<Rightarrow> bool" where
  "test_script_verification_success C =
     (let prev_op = OutPoint_new (digest C (str_bytes ''funding-valid'')) 0;
          utxos = funding prev_op OpTrue;
          block = invariant_block (invariant_tx prev_op 80)
      in expect_ok (verify_block_invariants C block utxos) (\<lambda>spent. spent = [prev_op]))"

definition test_script_verification_failure_rejects_block :: "'vk crypto \<Rightarrow> bool" where
  "test_script_verification_failure_rejects_block C =
     (let prev_op = OutPoint_new (digest C (str_bytes ''funding-fail'')) 0;
          utxos = funding prev_op OpFalse;
          block = invariant_block (invariant_tx prev_op 50)
      in expect_err (verify_block_invariants C block utxos) (\<lambda>e. case e of
           ScriptExecutionFailed _ _ err \<Rightarrow> err = ScriptFailed | _ \<Rightarrow> False))"

definition test_value_conservation_rejection :: "'vk crypto \<Rightarrow> bool" where
  "test_value_conservation_rejection C =
     (let prev_op = OutPoint_new (digest C (str_bytes ''funding-inflation'')) 0;
          utxos = funding prev_op OpTrue;
          block = invariant_block (invariant_tx prev_op 150)
      in expect_err (verify_block_invariants C block utxos) (\<lambda>e. case e of ValueInflation _ _ _ \<Rightarrow> True | _ \<Rightarrow> False))"

text \<open>A digest that is zero would make the transaction a coinbase, which the invariants do not check.\<close>

lemma invariant_run:
  assumes "op_txid op \<noteq> ZERO_HASH" "lock \<in> {OpTrue, OpFalse}"
  shows "verify_block_invariants C (invariant_block (invariant_tx op v)) (funding op lock) =
    (if 100 < v then Inl (ValueInflation (hash256_display (txid C (invariant_tx op v)))
         (quantum_display (Quantum 100)) (quantum_display (Quantum v)))
     else if lock = OpTrue then Inr [op]
     else Inl (ScriptExecutionFailed (hash256_display (txid C (invariant_tx op v))) 0 ScriptFailed))"
proof -
  let ?tx = "invariant_tx op v"
  have f: "inputs ?tx = [\<lparr>previous_output = op, unlocking_script = [], sequence = 0, redeemer = None\<rparr>]"
    "\<not> is_coinbase ?tx" "sum_outputs ?tx = Inr (Quantum v)"
    using assms(1) by (simp_all add: invariant_tx_def is_coinbase_def sum_outputs_Inr output_total_def)
  have q: "quantum_checked_add QUANTUM_ZERO (Quantum 100) = Inr (Quantum 100)" by simp
  have fee: "quantum_checked_sub (Quantum 100) (Quantum v) = Inr (Quantum (100 - v))" if "\<not> 100 < v"
    using that by (simp add: not_less unat_sub word_le_nat_alt)
  have verdict: "input_verdict C ?tx fee 1 0 \<lparr>previous_output = op, unlocking_script = [], sequence = 0, redeemer = None\<rparr>
      \<lparr>out_value = Quantum 100, locking_script = [opcode_u8 lock], out_datum = DatumNone\<rparr> = Inr (lock = OpTrue)" for fee
    using assms(2) by (auto simp: input_verdict_def from_output_def execute_contract_def push_datum_def
        push_redeemer_def execute_op script_limits stack_push_def is_truthy_def simp del: opcode_u8.simps)
  have less: "Quantum 100 < Quantum v \<longleftrightarrow> 100 < v" by (simp add: quantum_less_amount word_less_nat_alt)
  show ?thesis
    by (simp add: verify_block_invariants_def invariant_block_def Block_new_def funding_def enumerate_from_def
        f q fee verdict less del: quantum_checked_add_Inr quantum_checked_sub_Inr)
qed

lemma passes_block_invariants:
  "digest C (str_bytes ''funding-valid'') \<noteq> ZERO_HASH \<Longrightarrow> test_script_verification_success C"
  "digest C (str_bytes ''funding-fail'') \<noteq> ZERO_HASH \<Longrightarrow> test_script_verification_failure_rejects_block C"
  "digest C (str_bytes ''funding-inflation'') \<noteq> ZERO_HASH \<Longrightarrow> test_value_conservation_rejection C"
  by (simp_all add: test_script_verification_success_def test_script_verification_failure_rejects_block_def
      test_value_conservation_rejection_def Let_def invariant_run OutPoint_new_def)

section \<open>The authority\<close>

definition test_authority_fail_stop_locks_mutation :: "'vk crypto \<Rightarrow> bool" where
  "test_authority_fail_stop_locks_mutation C =
     expect_ok (StorageEngine_open mem_redb ''tempfile'') (\<lambda>storage.
       let (initialized, authority) = initialize_genesis mem_redb C (AuthorityEngine_new storage);
           halted = fail_stop (InvariantViolation ''test invariant failure'') authority;
           genesis = create_genesis_block C
       in is_ok initialized \<and> is_operational (auth_state authority) \<and> is_failed (auth_state halted) \<and>
          expect_err (fst (process_and_commit_block mem_redb C halted genesis)) (\<lambda>err. err = NodeHalted))"

text \<open>The authority over an empty database after \<open>initialize_genesis\<close>.\<close>

lemma mem_initialize:
  "initialize_genesis mem_redb C (AuthorityEngine_new (\<lambda>_. None)) =
     (Inr (), \<lparr>auth_state = Running, auth_storage = apply_block C (create_genesis_block C) [] (\<lambda>_. None),
       cancel_signal = False\<rparr>)"
  by (simp add: initialize_genesis_def AuthorityEngine_new_def mem.get_tip_ok mem_commit store_tip_def Let_def)

lemma passes_authority_fail_stop_locks_mutation: "test_authority_fail_stop_locks_mutation C"
  by (simp add: test_authority_fail_stop_locks_mutation_def mem_open mem_initialize process_halted Let_def)

end
