(* ===== verification/Tests_Mempool.thy ===== *)
theory Tests_Mempool
  imports Mempool Tests_Core
begin

text \<open>
  The unit tests of the fee-rate order (\<open>mempool/fee_rate.rs\<close>) and of the pool
  (\<open>mempool/mod.rs\<close>), run against the model.
\<close>

section \<open>Fee rates\<close>

text \<open>The hashes \<open>[b; 32]\<close> of the tests are ordered as their bytes.\<close>

definition filled :: "u8 \<Rightarrow> hash256" where
  "filled b = from_bytes (replicate 32 b)"

lemma unat_filled: "unat (filled b) = unat b * be_nat (replicate 32 1)"
proof -
  have rep: "be_nat (replicate n b) = unat b * be_nat (replicate n 1)" for n
    by (induction n) (simp_all add: be_nat_Cons distrib_left)
  have "unat (of_nat (be_nat (replicate 32 b)) :: hash256) = be_nat (replicate 32 b)"
    using be_nat_bound [of "replicate 32 b"] by (intro unat_of_nat_less) simp
  then show ?thesis by (simp add: filled_def from_bytes_def from_be_bytes_def rep)
qed

lemma filled_unit: "0 < be_nat (replicate 32 1)"
proof -
  have "replicate 32 (1 :: u8) = 1 # replicate 31 1" by (simp add: numeral_eq_Suc)
  then show ?thesis by (simp add: be_nat_Cons)
qed

lemma filled_order [simp]:
  "unat (filled a) < unat (filled b) \<longleftrightarrow> a < b" "filled a = filled b \<longleftrightarrow> a = b" "filled b = ZERO_HASH \<longleftrightarrow> b = 0"
proof -
  show "unat (filled a) < unat (filled b) \<longleftrightarrow> a < b"
    using filled_unit by (simp add: unat_filled word_less_nat_alt)
  have eq: "filled a = filled b \<longleftrightarrow> a = b" for a b
    using filled_unit by (simp add: word_unat_eq_iff [of "filled _"] unat_filled word_unat_eq_iff)
  then show "filled a = filled b \<longleftrightarrow> a = b" .
  have "filled 0 = ZERO_HASH" by (simp add: word_unat_eq_iff unat_filled ZERO_HASH_def)
  with eq [of b 0] show "filled b = ZERO_HASH \<longleftrightarrow> b = 0" by simp
qed

definition idx :: "u128 \<Rightarrow> usize \<Rightarrow> u8 \<Rightarrow> fee_rate_index" where
  "idx fee sz seed = FeeRateIndex_new (Quantum fee) sz (filled seed)"

text \<open>\<open>>\<close> on indices is the derived comparison of \<open>Ord\<close>.\<close>

definition rate_gt :: "fee_rate_index \<Rightarrow> fee_rate_index \<Rightarrow> bool" where
  "rate_gt a b \<longleftrightarrow> rate_cmp a b = Greater"

definition test_fee_rate_equal_size_higher_fee_ranks_higher :: bool where
  "test_fee_rate_equal_size_higher_fee_ranks_higher =
     (let high = idx 200 100 0x01; low = idx 100 100 0x02 in rate_gt high low \<and> beats high low)"

definition test_fee_rate_different_sizes_cross_multiply :: bool where
  "test_fee_rate_different_sizes_cross_multiply =
     (let a = idx 30 300 0x01; b = idx 10 100 0x02; high = idx 20 100 0x01; low = idx 10 100 0x02 in
      rate_gt b a \<and> rate_gt high low)"

definition test_fee_rate_txid_tiebreaker :: bool where
  "test_fee_rate_txid_tiebreaker =
     (let a = idx 100 100 0x01; b = idx 100 100 0x02 in rate_gt b a \<and> rate_cmp a a = Equal)"

definition test_wide_mul_u128_large_values :: bool where
  "test_wide_mul_u128_large_values = (let mx = - 1; (hi, lo) = wide_mul_u128 mx 1 in hi = 0 \<and> lo = mx)"

lemma idx_facts [simp]:
  "wf_index (idx fee sz seed) \<longleftrightarrow> 0 < sz \<and> sz < 2 ^ 64" "fr_fee (idx fee sz seed) = Quantum fee"
  "fr_size (idx fee sz seed) = sz" "fr_txid (idx fee sz seed) = filled seed"
  by (simp_all add: idx_def FeeRateIndex_new_def wf_index_def)

lemma passes_fee_rate_order:
  test_fee_rate_equal_size_higher_fee_ranks_higher test_fee_rate_different_sizes_cross_multiply
  test_fee_rate_txid_tiebreaker
  by (simp_all add: test_fee_rate_equal_size_higher_fee_ranks_higher_def beats_def rate_gt_def
      test_fee_rate_different_sizes_cross_multiply_def test_fee_rate_txid_tiebreaker_def rate_cmp_Less Let_def)

lemma passes_wide_mul_u128_large_values: test_wide_mul_u128_large_values
  by code_simp

definition test_fee_rate_ordering_equal_size :: bool where
  "test_fee_rate_ordering_equal_size =
     (let high = idx 200 100 0x01; low = idx 100 100 0x02;
          st = bt_insert rate_cmp high (bt_insert rate_cmp low [])
      in fr_fee (hd st) = fr_fee low \<and> fr_fee (last st) = fr_fee high)"

definition test_fee_rate_ordering_cross_multiply :: bool where
  "test_fee_rate_ordering_cross_multiply =
     (let a = idx 30 300 0x01; b = idx 10 100 0x02; high = idx 20 100 0x01; low = idx 10 100 0x02 in
      rate_gt high low \<and> rate_gt b a)"

lemma passes_fee_rate_ordering: test_fee_rate_ordering_equal_size test_fee_rate_ordering_cross_multiply
proof -
  have "rate_cmp (idx 200 100 1) (idx 100 100 2) = Greater" by (simp add: rate_cmp_Less)
  then show test_fee_rate_ordering_equal_size by (simp add: test_fee_rate_ordering_equal_size_def Let_def)
  show test_fee_rate_ordering_cross_multiply
    by (simp add: test_fee_rate_ordering_cross_multiply_def rate_gt_def rate_cmp_Less Let_def)
qed

section \<open>Helpers of the pool tests\<close>

definition make_tx :: "hash256 \<Rightarrow> u32 \<Rightarrow> u128 \<Rightarrow> transaction" where
  "make_tx prev_txid prev_idx output_value =
     (let op = OutPoint_new prev_txid prev_idx in
      \<lparr>tx_version = 1,
       inputs = [\<lparr>previous_output = op, unlocking_script = [], sequence = 0xFFFFFFFF, redeemer = None\<rparr>],
       outputs = [\<lparr>out_value = Quantum output_value, locking_script = [opcode_u8 OpTrue], out_datum = DatumNone\<rparr>],
       locktime = 0\<rparr>)"

definition min_fee_for :: "transaction \<Rightarrow> u128" where
  "min_fee_for tx = (let sz = of_nat (length (encode_tx tx)) in sz * MIN_FEE_PER_BYTE_AUR)"

definition single_utxo_view :: "outpoint \<Rightarrow> extended_utxo \<Rightarrow> utxo_view" where
  "single_utxo_view op utxo = (\<lambda>query. if query = op then Some utxo else None)"

text \<open>The output a test funds its transaction with.\<close>

definition op_true_utxo :: "u128 \<Rightarrow> extended_utxo" where
  "op_true_utxo v = ExtendedUtxo_new (Quantum v) [opcode_u8 OpTrue] 0 False DatumNone"

lemma make_tx_size: "length (encode_tx (make_tx t i v)) = 87"
  by (simp add: make_tx_def Let_def encode_tx_def encode_tx_input_def encode_tx_output_def encode_outpoint_def
      encode_vec_bytes_def encode_redeemer_def encode_quantum_def)

lemma min_fee_make_tx [simp]: "min_fee_for (make_tx t i v) = 870"
  by (simp add: min_fee_for_def make_tx_size MIN_FEE_PER_BYTE_AUR_def)

lemma make_tx_admissible:
  assumes "t \<noteq> ZERO_HASH" "spent (OutPoint_new t i) = None" "view (OutPoint_new t i) = Some (op_true_utxo w)"
    and "unat w = unat v + unat fee" "870 \<le> unat fee"
  shows "mempool_admissible C (make_tx t i v) view spent 0 0 (Quantum fee)"
proof -
  have "\<not> is_coinbase (make_tx t i v)"
    using assms(1) by (simp add: is_coinbase_def make_tx_def OutPoint_new_def)
  moreover have "contracts_ok C view (make_tx t i v) (Quantum fee) 1"
    using assms(3) op_true_contract
    by (auto simp: contracts_ok_def make_tx_def contract_verdict_def op_true_utxo_def ExtendedUtxo_new_def
        enumerate_from_def Let_def)
  moreover have "input_mature view 1 inp" if "inp \<in> set (inputs (make_tx t i v))" for inp
    using that assms(3) by (auto simp: input_mature_def make_tx_def op_true_utxo_def ExtendedUtxo_new_def sequence_satisfied_def Let_def)
  moreover have "view_total view (make_tx t i v) = unat w"
    using assms(3) by (simp add: view_total_def view_amount_def make_tx_def op_true_utxo_def ExtendedUtxo_new_def Let_def)
  moreover have "output_total (make_tx t i v) = unat v" by (simp add: output_total_def make_tx_def Let_def)
  moreover have "locktime_satisfied (make_tx t i v) 1 0" by (simp add: locktime_satisfied_def make_tx_def Let_def)
  moreover have "inputs (make_tx t i v) \<noteq> []" "outputs (make_tx t i v) \<noteq> []"
    "\<forall>inp\<in>set (inputs (make_tx t i v)). spent (previous_output inp) = None"
    using assms(2) by (simp_all add: make_tx_def Let_def)
  moreover have "unat w < 2 ^ 128" using unat_bound [of w] by simp
  ultimately show ?thesis
    using assms(4,5) by (simp add: mempool_admissible_def make_tx_size)
qed

text \<open>An insertion of such a transaction into a pool with room.\<close>

lemma insert_make_tx:
  assumes "t \<noteq> ZERO_HASH" "spent_outpoints M (OutPoint_new t i) = None"
    and "unat w = unat v + unat fee" "870 \<le> unat fee"
    and "total_bytes M + 87 \<le> max_bytes M" "max_bytes M < 2 ^ 64"
  shows "mempool_insert C (make_tx t i v) (single_utxo_view (OutPoint_new t i) (op_true_utxo w)) 0 0 now M
    = (Inr (txid C (make_tx t i v)), register (MempoolEntry_new C (make_tx t i v) (Quantum fee) now) M)"
proof -
  have "validate_for_mempool C (make_tx t i v) (single_utxo_view (OutPoint_new t i) (op_true_utxo w))
      (spent_outpoints M) 0 0 = Inr (Quantum fee)"
    unfolding validate_for_mempool_Inr using assms(1-4)
    by (intro make_tx_admissible) (simp_all add: single_utxo_view_def)
  with assms(5,6) show ?thesis
    by (simp add: mempool_insert_def usize_checked_add_def make_tx_size)
qed

section \<open>The pool\<close>

definition test_double_spend_conflict :: "'vk crypto \<Rightarrow> bool" where
  "test_double_spend_conflict C =
     (let prev_txid = filled 0xAB;
          op = OutPoint_new prev_txid 0;
          tx1 = make_tx prev_txid 0 10000;
          fee = min_fee_for tx1;
          view = single_utxo_view op (op_true_utxo (saturating_add 10000 fee));
          pool = Mempool_new DEFAULT_MAX_MEMPOOL_BYTES;
          (result1, pool) = mempool_insert C tx1 view 0 0 1 pool;
          tx2 = make_tx prev_txid 0 8000;
          (result2, pool) = mempool_insert C tx2 view 0 0 2 pool
      in is_ok result1 \<and>
         expect_err result2 (\<lambda>e. case e of DoubleSpendConflict _ _ \<Rightarrow> True | _ \<Rightarrow> False))"

lemma funded [simp]: "saturating_add 10000 870 = (10870 :: u128)" "saturating_add 100 870 = (970 :: u128)"
  by (simp_all add: saturating_add_def)

lemma new_pool [simp]:
  "spent_outpoints (Mempool_new n) = Map.empty" "total_bytes (Mempool_new n) = 0" "max_bytes (Mempool_new n) = n"
  "by_txid (Mempool_new n) = []" "by_fee_rate (Mempool_new n) = []"
  by (simp_all add: Mempool_new_def)

lemma tx_spends_make_tx [simp]: "tx_spends (make_tx t i v) = [OutPoint_new t i]"
  by (simp add: tx_spends_def make_tx_def Let_def)

lemma register_make_tx [simp]:
  "spent_outpoints (register (MempoolEntry_new C (make_tx t i v) fee now) M) op =
     (if op = OutPoint_new t i then Some (txid C (make_tx t i v)) else spent_outpoints M op)"
  "max_bytes (register e M) = max_bytes M"
  "by_txid (register e M) = AList.update (me_txid e) e (by_txid M)"
  "by_fee_rate (register e M) = bt_insert rate_cmp (entry_index e) (by_fee_rate M)"
  by (simp_all add: register_def reserve_at)

lemma register_bytes:
  "total_bytes M + 87 < 2 ^ 64 \<Longrightarrow>
     total_bytes (register (MempoolEntry_new C (make_tx t i v) fee now) M) = total_bytes M + 87"
  by (simp add: register_def make_tx_size usize_saturating_add_def)

lemma passes_double_spend_conflict: "test_double_spend_conflict C"
proof -
  let ?M = "register (MempoolEntry_new C (make_tx (filled 0xAB) 0 10000) (Quantum 870) 1)
    (Mempool_new DEFAULT_MAX_MEMPOOL_BYTES)"
  have 1: "mempool_insert C (make_tx (filled 0xAB) 0 10000)
      (single_utxo_view (OutPoint_new (filled 0xAB) 0) (op_true_utxo 10870)) 0 0 1
      (Mempool_new DEFAULT_MAX_MEMPOOL_BYTES) = (Inr (txid C (make_tx (filled 0xAB) 0 10000)), ?M)"
    by (rule insert_make_tx) (simp_all add: DEFAULT_MAX_MEMPOOL_BYTES_def)
  have ins: "inputs (make_tx (filled 0xAB) 0 8000) =
      [\<lparr>previous_output = OutPoint_new (filled 0xAB) 0, unlocking_script = [], sequence = 0xFFFFFFFF, redeemer = None\<rparr>]"
    "outputs (make_tx (filled 0xAB) 0 8000) \<noteq> []" by (simp_all add: make_tx_def Let_def)
  have "\<not> is_coinbase (make_tx (filled 0xAB) 0 8000)" by (simp add: is_coinbase_def ins OutPoint_new_def)
  then have "validate_for_mempool C (make_tx (filled 0xAB) 0 8000) view (spent_outpoints ?M) tip mtp =
      Inl (DoubleSpendConflict (OutPoint_new (filled 0xAB) 0) (txid C (make_tx (filled 0xAB) 0 10000)))"
    for view tip mtp
    using ins by (simp add: validate_for_mempool_def make_tx_size MAX_TX_SIZE_BYTES_def gate_conflict_def Let_def)
  then have 2: "mempool_insert C (make_tx (filled 0xAB) 0 8000) view tip mtp now ?M =
      (Inl (DoubleSpendConflict (OutPoint_new (filled 0xAB) 0) (txid C (make_tx (filled 0xAB) 0 10000))), ?M)"
    for view tip mtp now by (simp add: mempool_insert_def)
  show ?thesis
    by (simp add: test_double_spend_conflict_def 1 2)
qed

definition test_capacity_eviction_higher_fee_wins :: "'vk crypto \<Rightarrow> bool" where
  "test_capacity_eviction_higher_fee_wins C =
     (let pool = Mempool_new 2000;
          tx_low = make_tx (filled 0x01) 0 100;
          view_a = single_utxo_view (OutPoint_new (filled 0x01) 0) (op_true_utxo (saturating_add 100 (min_fee_for tx_low)));
          (r1, pool) = mempool_insert C tx_low view_a 0 0 1 pool;
          tx_low2 = make_tx (filled 0x02) 0 100;
          view_b = single_utxo_view (OutPoint_new (filled 0x02) 0) (op_true_utxo (saturating_add 100 (min_fee_for tx_low2)));
          (_, pool) = mempool_insert C tx_low2 view_b 0 0 2 pool;
          size_before = mempool_len pool;
          tx_high = make_tx (filled 0x03) 0 100;
          view_c = single_utxo_view (OutPoint_new (filled 0x03) 0)
            (op_true_utxo (saturating_add 100 (saturating_mul (min_fee_for tx_high) 100)));
          (rh, pool) = mempool_insert C tx_high view_c 0 0 3 pool
      in is_ok r1 \<and> (is_ok rh \<or> rh = Inl MempoolFull) \<and>
         mempool_len pool \<le> usize_saturating_add size_before 1)"

text \<open>The pool of this test is never short of room: it admits three transactions of 87 bytes into 2000,
  so the eviction that the test is named after does not take place.\<close>

definition capacity_a :: "'vk crypto \<Rightarrow> mempool" where
  "capacity_a C = register (MempoolEntry_new C (make_tx (filled 0x01) 0 100) (Quantum 870) 1) (Mempool_new 2000)"

definition capacity_b :: "'vk crypto \<Rightarrow> mempool" where
  "capacity_b C = register (MempoolEntry_new C (make_tx (filled 0x02) 0 100) (Quantum 870) 2) (capacity_a C)"

definition capacity_c :: "'vk crypto \<Rightarrow> mempool" where
  "capacity_c C = register (MempoolEntry_new C (make_tx (filled 0x03) 0 100) (Quantum 87000) 3) (capacity_b C)"

lemma OutPoint_new_inj [simp]: "OutPoint_new t i = OutPoint_new t' i' \<longleftrightarrow> t = t' \<and> i = i'"
  by (simp add: OutPoint_new_def)

lemma capacity_facts:
  "max_bytes (capacity_a C) = 2000" "max_bytes (capacity_b C) = 2000"
  "total_bytes (capacity_a C) = 87" "total_bytes (capacity_b C) = 174" "total_bytes (capacity_c C) = 261"
  "spent_outpoints (capacity_a C) (OutPoint_new (filled 2) 0) = None"
  "spent_outpoints (capacity_b C) (OutPoint_new (filled 3) 0) = None"
  by (simp_all add: capacity_a_def capacity_b_def capacity_c_def register_bytes)

lemma capacity_inserts:
  "mempool_insert C (make_tx (filled 0x01) 0 100)
     (single_utxo_view (OutPoint_new (filled 0x01) 0) (op_true_utxo 970)) 0 0 1 (Mempool_new 2000)
   = (Inr (txid C (make_tx (filled 0x01) 0 100)), capacity_a C)"
  "mempool_insert C (make_tx (filled 0x02) 0 100)
     (single_utxo_view (OutPoint_new (filled 0x02) 0) (op_true_utxo 970)) 0 0 2 (capacity_a C)
   = (Inr (txid C (make_tx (filled 0x02) 0 100)), capacity_b C)"
  "mempool_insert C (make_tx (filled 0x03) 0 100)
     (single_utxo_view (OutPoint_new (filled 0x03) 0) (op_true_utxo 87100)) 0 0 3 (capacity_b C)
   = (Inr (txid C (make_tx (filled 0x03) 0 100)), capacity_c C)"
  subgoal unfolding capacity_a_def by (rule insert_make_tx) simp_all
  subgoal unfolding capacity_b_def by (rule insert_make_tx) (simp_all add: capacity_facts)
  subgoal unfolding capacity_c_def by (rule insert_make_tx) (simp_all add: capacity_facts)
  done

lemma length_update: "length (AList.update k e xs) \<le> Suc (length xs)"
proof -
  have "length (map fst (AList.update k e xs)) \<le> Suc (length xs)" by (simp only: update_keys) simp
  then show ?thesis by simp
qed

lemma passes_capacity_eviction: "test_capacity_eviction_higher_fee_wins C"
proof -
  have "saturating_add 100 (saturating_mul 870 100) = (87100 :: u128)"
    by (simp add: saturating_add_def saturating_mul_def)
  moreover have "mempool_len (capacity_c C) \<le> mempool_len (capacity_b C) + 1"
    by (simp add: capacity_c_def mempool_len_def length_update)
  moreover have "mempool_len (capacity_c C) \<le> 3"
    using length_update [of _ _ "by_txid (capacity_b C)"] length_update [of _ _ "by_txid (capacity_a C)"]
      length_update [of _ _ "[]"]
    by (simp add: capacity_c_def capacity_b_def capacity_a_def mempool_len_def)
  ultimately show ?thesis
    by (simp add: test_capacity_eviction_higher_fee_wins_def capacity_inserts usize_saturating_add_def)
qed

definition test_spec05_invalid_contract_rejected :: "'vk crypto \<Rightarrow> bool" where
  "test_spec05_invalid_contract_rejected C =
     (let op = OutPoint_new (filled 0xCC) 0;
          locking = [opcode_u8 OpFalse];
          tx = \<lparr>tx_version = 1,
            inputs = [\<lparr>previous_output = op, unlocking_script = [opcode_u8 OpTrue], sequence = 0xFFFFFFFF,
                       redeemer = None\<rparr>],
            outputs = [\<lparr>out_value = Quantum 10000, locking_script = [opcode_u8 OpTrue], out_datum = DatumNone\<rparr>],
            locktime = 0\<rparr>;
          fee = min_fee_for tx;
          utxo = ExtendedUtxo_new (Quantum (saturating_add 10000 fee)) locking 0 False DatumNone;
          view = single_utxo_view op utxo;
          (result, _) = mempool_insert C tx view 0 0 1 (Mempool_new DEFAULT_MAX_MEMPOOL_BYTES)
      in result = Inl (ContractConditionFailed 0))"

text \<open>The script leaves two elements, true below and false on top: not the single truthy element that a
  contract has to leave.\<close>

lemma op_false_contract:
  "execute_contract C E [opcode_u8 OpFalse] [opcode_u8 OpTrue] DatumNone None = Inr False"
  by (simp add: execute_contract_def push_datum_def push_redeemer_def execute_op script_limits stack_push_def
      del: opcode_u8.simps)

lemma passes_spec05_invalid_contract_rejected: "test_spec05_invalid_contract_rejected C"
proof -
  define op where "op = OutPoint_new (filled 0xCC) 0"
  define tx where "tx = \<lparr>tx_version = 1,
      inputs = [\<lparr>previous_output = op, unlocking_script = [opcode_u8 OpTrue], sequence = 0xFFFFFFFF, redeemer = None\<rparr>],
      outputs = [\<lparr>out_value = Quantum 10000, locking_script = [opcode_u8 OpTrue], out_datum = DatumNone\<rparr>],
      locktime = 0\<rparr>"
  define utxo where "utxo = ExtendedUtxo_new (Quantum 10880) [opcode_u8 OpFalse] 0 False DatumNone"
  have sz: "length (encode_tx tx) = 88"
    by (simp add: tx_def op_def encode_tx_def encode_tx_input_def encode_tx_output_def encode_outpoint_def
        encode_vec_bytes_def encode_redeemer_def encode_quantum_def)
  have fee: "saturating_add 10000 (min_fee_for tx) = 10880"
    by (simp add: min_fee_for_def sz MIN_FEE_PER_BYTE_AUR_def saturating_add_def)
  have fields: "inputs tx = [\<lparr>previous_output = op, unlocking_script = [opcode_u8 OpTrue], sequence = 0xFFFFFFFF,
      redeemer = None\<rparr>]" "outputs tx \<noteq> []" "\<not> is_coinbase tx" "locktime tx = 0"
    by (simp_all add: tx_def is_coinbase_def op_def OutPoint_new_def)
  have u: "eu_value utxo = Quantum 10880" "eu_locking_script utxo = [opcode_u8 OpFalse]" "\<not> eu_is_coinbase utxo"
    "eu_datum utxo = DatumNone" by (simp_all add: utxo_def ExtendedUtxo_new_def)
  have m: "verify_coinbase_maturity op utxo 1 = Inr ()" "verify_relative_sequence 0xFFFFFFFF utxo 1 0 = Inr ()"
    using u by (simp_all add: verify_coinbase_maturity_ok_iff verify_relative_sequence_ok_iff sequence_satisfied_def)
  have l: "verify_transaction_locktime tx 1 0 = Inr ()"
    by (simp add: verify_transaction_locktime_ok_iff locktime_satisfied_def fields)
  have q: "quantum_checked_add QUANTUM_ZERO (Quantum 10880) = Inr (Quantum 10880)" "sum_outputs_mp tx = Inr (Quantum 10000)"
    "quantum_checked_sub (Quantum 10880) (Quantum 10000) = Inr (Quantum 880)"
    by (simp_all add: sum_outputs_mp_Inr output_total_def tx_def)
  have "validate_for_mempool C tx (single_utxo_view op utxo) Map.empty 0 0 = Inl (ContractConditionFailed 0)"
    using fields(2,3) op_false_contract [of C]
    by (simp add: validate_for_mempool_def sz MAX_TX_SIZE_BYTES_def fields(1) gate_conflict_def checked_add_def l
        enumerate_from_def single_utxo_view_def m u q quantum_less_amount contract_verdict_def Let_def)
  then show ?thesis
    unfolding test_spec05_invalid_contract_rejected_def Let_def op_def [symmetric] tx_def [symmetric] fee
      utxo_def [symmetric]
    by (simp add: mempool_insert_def)
qed

definition test_process_committed_block_clears_transactions :: "'vk crypto \<Rightarrow> bool" where
  "test_process_committed_block_clears_transactions C =
     (let prev_txid = filled 0xAA;
          op = OutPoint_new prev_txid 0;
          tx = make_tx prev_txid 0 10000;
          fee = min_fee_for tx;
          view = single_utxo_view op (op_true_utxo (saturating_add 10000 fee));
          (inserted, pool) = mempool_insert C tx view 0 0 1 (Mempool_new DEFAULT_MAX_MEMPOOL_BYTES)
      in is_ok inserted \<and> mempool_len pool = 1 \<and>
         (let genesis_block = create_genesis_block C;
              block = \<lparr>header = header genesis_block, transactions = [transactions genesis_block ! 0, tx]\<rparr>;
              pool = process_committed_block C block pool
          in mempool_is_empty pool \<and> op \<notin> dom (spent_outpoints pool)))"

lemma passes_process_committed_block_clears: "test_process_committed_block_clears_transactions C"
proof -
  let ?tx = "make_tx (filled 0xAA) 0 10000" and ?op = "OutPoint_new (filled 0xAA) 0"
  let ?M = "register (MempoolEntry_new C ?tx (Quantum 870) 1) (Mempool_new DEFAULT_MAX_MEMPOOL_BYTES)"
  let ?g = "create_genesis_block C"
  let ?M' = "process_committed_block C \<lparr>header = header ?g, transactions = [transactions ?g ! 0, ?tx]\<rparr> ?M"
  have ins: "mempool_insert C ?tx (single_utxo_view ?op (op_true_utxo 10870)) 0 0 1
      (Mempool_new DEFAULT_MAX_MEMPOOL_BYTES) = (Inr (txid C ?tx), ?M)"
    by (rule insert_make_tx) (simp_all add: DEFAULT_MAX_MEMPOOL_BYTES_def)
  have "pool_inv C ?M"
    by (rule pool_inv_insert [OF pool_inv_new _ ins]) (simp add: no_collision_def)
  note spec = process_committed_block_spec [OF this refl, where block = "\<lparr>header = header ?g, transactions = [transactions ?g ! 0, ?tx]\<rparr>"]
  have "by_txid ?M' = []"
  proof (rule ccontr)
    assume "by_txid ?M' \<noteq> []"
    then obtain t e where te: "(t, e) \<in> set (by_txid ?M')" by (cases "by_txid ?M'") auto
    with spec(2) have "t = txid C ?tx" by auto
    with spec(3) [OF te] show False by simp
  qed
  moreover have "spent_outpoints ?M' ?op = None"
  proof (cases "spent_outpoints ?M' ?op")
    case (Some t)
    with spec(1) \<open>by_txid ?M' = []\<close> show ?thesis by (simp add: pool_inv_def)
  qed
  ultimately show ?thesis
    by (simp add: test_process_committed_block_clears_transactions_def ins mempool_len_def mempool_is_empty_def Let_def
        domIff)
qed

definition test_coinbase_rejected :: "'vk crypto \<Rightarrow> bool" where
  "test_coinbase_rejected C =
     (let coinbase_tx = \<lparr>tx_version = 1,
            inputs = [\<lparr>previous_output = OutPoint_new ZERO_HASH 0, unlocking_script = [], sequence = 0xFFFFFFFF,
                       redeemer = None\<rparr>],
            outputs = [\<lparr>out_value = Quantum 5000000000, locking_script = [opcode_u8 OpTrue], out_datum = DatumNone\<rparr>],
            locktime = 0\<rparr>;
          null_view = (\<lambda>_. None);
          (result, _) = mempool_insert C coinbase_tx null_view 0 0 1 (Mempool_new DEFAULT_MAX_MEMPOOL_BYTES)
      in result = Inl CoinbaseNotAllowed)"

lemma passes_coinbase_rejected: "test_coinbase_rejected C"
  by (simp add: test_coinbase_rejected_def mempool_insert_def validate_for_mempool_def MAX_TX_SIZE_BYTES_def
      is_coinbase_def OutPoint_new_def encode_tx_def encode_tx_input_def encode_tx_output_def encode_outpoint_def
      encode_vec_bytes_def encode_redeemer_def encode_quantum_def Let_def)

definition test_select_highest_fee_rate_first :: "'vk crypto \<Rightarrow> bool" where
  "test_select_highest_fee_rate_first C =
     (let pool = Mempool_new DEFAULT_MAX_MEMPOOL_BYTES;
          tx_low = make_tx (filled 0x0A) 0 100;
          fee_low = min_fee_for tx_low;
          (low, pool) = mempool_insert C tx_low
            (single_utxo_view (OutPoint_new (filled 0x0A) 0) (op_true_utxo (saturating_add 100 fee_low))) 0 0 1 pool;
          tx_high = make_tx (filled 0x0B) 0 100;
          fee_high = saturating_mul (min_fee_for tx_high) 10;
          (high, pool) = mempool_insert C tx_high
            (single_utxo_view (OutPoint_new (filled 0x0B) 0) (op_true_utxo (saturating_add 100 fee_high))) 0 0 2 pool;
          selected = select_transactions_for_block pool 1000000
      in is_ok low \<and> is_ok high \<and> length selected = 2 \<and> txid C (selected ! 0) = txid C tx_high)"

text \<open>Both are pooled unless the two transactions collide under the hash.\<close>

lemma passes_select_highest_fee_rate_first:
  assumes "txid C (make_tx (filled 0x0A) 0 100) \<noteq> txid C (make_tx (filled 0x0B) 0 100)"
  shows "test_select_highest_fee_rate_first C"
proof -
  let ?low = "make_tx (filled 0x0A) 0 100" and ?high = "make_tx (filled 0x0B) 0 100"
  define A where "A = register (MempoolEntry_new C ?low (Quantum 870) 1) (Mempool_new DEFAULT_MAX_MEMPOOL_BYTES)"
  define B where "B = register (MempoolEntry_new C ?high (Quantum 8700) 2) A"
  have 1: "mempool_insert C ?low (single_utxo_view (OutPoint_new (filled 0x0A) 0) (op_true_utxo 970)) 0 0 1
      (Mempool_new DEFAULT_MAX_MEMPOOL_BYTES) = (Inr (txid C ?low), A)"
    unfolding A_def by (rule insert_make_tx) (simp_all add: DEFAULT_MAX_MEMPOOL_BYTES_def)
  have 2: "mempool_insert C ?high (single_utxo_view (OutPoint_new (filled 0x0B) 0) (op_true_utxo 8800)) 0 0 2 A
      = (Inr (txid C ?high), B)"
    unfolding B_def
    by (rule insert_make_tx) (simp_all add: A_def register_bytes DEFAULT_MAX_MEMPOOL_BYTES_def)
  have "rate_cmp (FeeRateIndex_new (Quantum 8700) 87 (txid C ?high)) (FeeRateIndex_new (Quantum 870) 87 (txid C ?low)) = Greater"
    by (simp add: rate_cmp_Less wf_index_def FeeRateIndex_new_def)
  then have rates: "by_fee_rate B = [FeeRateIndex_new (Quantum 870) 87 (txid C ?low), FeeRateIndex_new (Quantum 8700) 87 (txid C ?high)]"
    by (simp add: B_def A_def entry_index_def make_tx_size)
  have "map_of (by_txid B) (txid C ?low) = Some (MempoolEntry_new C ?low (Quantum 870) 1)"
    "map_of (by_txid B) (txid C ?high) = Some (MempoolEntry_new C ?high (Quantum 8700) 2)"
    using assms by (simp_all add: B_def A_def)
  with rates have "select_transactions_for_block B 1000000 = [?high, ?low]"
    by (simp add: select_transactions_for_block_def FeeRateIndex_new_def usize_checked_add_def make_tx_size)
  moreover have "saturating_mul 870 10 = (8700 :: u128)" "saturating_add 100 8700 = (8800 :: u128)"
    by (simp_all add: saturating_mul_def saturating_add_def)
  ultimately show ?thesis
    by (simp add: test_select_highest_fee_rate_first_def 1 2 Let_def)
qed

end
