(* ===== verification/Tests_Net.thy ===== *)
theory Tests_Net
  imports Network Tests_Core
begin

text \<open>
  The unit tests of the wire layers, run against the model: \<open>aurion-network/src/tests.rs\<close> (frames,
  configuration, gossip decoding, and the two mesh tests over a session that carries what is put
  to the subscriber), the synchronisation queries, and the RPC frames, templates, messages and
  client. As in the other test theories each function is a predicate, each predicate is shown to
  hold, and where its outcome depends on Blake3 the lemma says on what.
\<close>

text \<open>\<open>str::contains\<close>.\<close>

fun str_contains :: "string \<Rightarrow> string \<Rightarrow> bool" where
  "str_contains hay needle \<longleftrightarrow>
     take (length needle) hay = needle \<or> (case hay of [] \<Rightarrow> False | _ # t \<Rightarrow> str_contains t needle)"

declare str_contains.simps [simp del]

lemma str_contains_here: "str_contains (needle @ post) needle"
  by (subst str_contains.simps) simp

lemma str_contains_append: "str_contains hay needle \<Longrightarrow> str_contains (pre @ hay) needle"
  by (induction pre) (simp_all add: str_contains.simps [of "_ # _"])

section \<open>Network frames\<close>

definition sample_transaction :: transaction where
  "sample_transaction =
     \<lparr>tx_version = 1,
      inputs = [\<lparr>previous_output = OutPoint_new (from_bytes (replicate 32 0xEE)) 0, unlocking_script = [0x51],
                 sequence = 0xFFFFFFFF, redeemer = None\<rparr>],
      outputs = [\<lparr>out_value = Quantum 50000000, locking_script = [0x51], out_datum = DatumNone\<rparr>],
      locktime = 0\<rparr>"

definition network_sample_block :: "'vk crypto \<Rightarrow> block" where
  "network_sample_block C =
     (let tx = sample_transaction; root = txid C tx in
      \<lparr>header = \<lparr>version = 1, prev_block_hash = ZERO_HASH, merkle_root = root, timestamp = 1773446400,
         bits = 0x1d00ffff, nonce = 0, height = 1\<rparr>,
       transactions = [tx]\<rparr>)"

lemma samples_wf [simp]:
  "wf_tx sample_transaction" "wf_block (network_sample_block C)"
  by (simp_all add: network_sample_block_def sample_transaction_def wf_defs Let_def)

lemma samples_size [simp]:
  "length (encode_tx sample_transaction) \<le> 4194304"
  "length (encode_block (network_sample_block C)) \<le> 4194304"
  by (simp_all add: network_sample_block_def sample_transaction_def encode_block_def encode_header_def
      encode_tx_def encode_tx_input_def encode_tx_output_def encode_outpoint_def encode_vec_bytes_def
      encode_redeemer_def encode_quantum_def Let_def)

text \<open>The frame a pack of these tests makes, and what unpacking it gives, intact or with one byte of
  its payload changed.\<close>

definition own_frame :: "'vk crypto \<Rightarrow> string \<Rightarrow> bytes \<Rightarrow> bytes" where
  "own_frame C command payload = frame_bytes command (of_nat (length payload)) (blake3 C payload) payload"

definition test_command :: "string \<Rightarrow> bool" where
  "test_command command \<longleftrightarrow> length command \<le> 12 \<and> utf8_string command \<and> CHR 0x00 \<notin> set command"

lemma test_commands [simp]:
  "test_command ''block''" "test_command ''tx''" "test_command ''getheaders''" "test_command ''getblocks''"
  "test_command ''template''"
  by (simp_all add: test_command_def utf8_string_def str_bytes_def)

lemma pack_own [simp]:
  "test_command command \<Longrightarrow> length payload \<le> 4194304 \<Longrightarrow>
     pack_frame C command payload = Inr (own_frame C command payload)"
  by (simp add: pack_frame_Inr own_frame_def test_command_def)

lemma length_own [simp]: "test_command command \<Longrightarrow> length (own_frame C command payload) = 52 + length payload"
  by (simp add: own_frame_def test_command_def frame_fields)

lemma unpack_own [simp]:
  "test_command command \<Longrightarrow> length payload \<le> 4194304 \<Longrightarrow>
     unpack_frame C (own_frame C command payload) = Inr (command, payload)"
  using unpack_frame_bytes [of command "length payload" payload C "blake3 C payload"]
  by (simp add: own_frame_def test_command_def)

definition flip :: "nat \<Rightarrow> u8 \<Rightarrow> bytes \<Rightarrow> bytes" where
  "flip i m bs = bs[i := bs ! i XOR m]"

lemma unpack_flipped:
  assumes "test_command command" "length body \<le> 4194304" "i < length body"
  shows "unpack_frame C (flip (52 + i) m (own_frame C command body))
    = (if blake3 C (flip i m body) = blake3 C body then Inr (command, flip i m body) else Inl ChecksumMismatch)"
proof -
  let ?pre = "MAGIC_BYTES @ (str_bytes command @ replicate (COMMAND_SIZE - length command) 0)
     @ to_be_bytes (of_nat (length body) :: u32) @ to_be_bytes (blake3 C body)"
  have "length ?pre = 52" using assms(1) by (simp add: MAGIC_BYTES_def COMMAND_SIZE_def test_command_def)
  moreover have "own_frame C command body = ?pre @ body" by (simp add: own_frame_def frame_bytes_def)
  ultimately have "flip (52 + i) m (own_frame C command body) = ?pre @ flip i m body"
    by (simp only: flip_def list_update_append nth_append) simp
  then have "flip (52 + i) m (own_frame C command body)
      = frame_bytes command (of_nat (length (flip i m body))) (blake3 C body) (flip i m body)"
    by (simp add: frame_bytes_def flip_def)
  then show ?thesis
    using unpack_frame_bytes [of command "length body" "flip i m body" C "blake3 C body"] assms
    by (simp add: flip_def test_command_def)
qed

definition test_frame_roundtrip_52_byte_header :: "'vk crypto \<Rightarrow> bool" where
  "test_frame_roundtrip_52_byte_header C =
     (let payload = str_bytes ''canonical-block-data-payload-hash-root'' in
      expect_ok (pack_frame C ''block'' payload) (\<lambda>frame.
        length frame = usize_saturating_add HEADER_SIZE (length payload) \<and>
        expect_ok (unpack_frame C frame) (\<lambda>(command, unpacked). command = ''block'' \<and> unpacked = payload)))"

lemma passes_frame_roundtrip_52_byte_header: "test_frame_roundtrip_52_byte_header C"
  by (simp add: test_frame_roundtrip_52_byte_header_def HEADER_SIZE_def usize_saturating_add_def)

definition test_frame_rejects_oversized_payload :: "'vk crypto \<Rightarrow> bool" where
  "test_frame_rejects_oversized_payload C =
     (let oversized = replicate (usize_saturating_add MAX_PAYLOAD_SIZE 1) 0 in
      expect_err (pack_frame C ''block'' oversized) (\<lambda>err.
        err = PayloadTooLarge (usize_saturating_add MAX_PAYLOAD_SIZE 1) MAX_PAYLOAD_SIZE))"

lemma passes_frame_rejects_oversized_payload: "test_frame_rejects_oversized_payload C"
  by (simp add: test_frame_rejects_oversized_payload_def pack_frame_def COMMAND_SIZE_def MAX_PAYLOAD_SIZE_def
      usize_saturating_add_def)

definition test_frame_rejects_invalid_magic :: "'vk crypto \<Rightarrow> bool" where
  "test_frame_rejects_invalid_magic C =
     expect_ok (pack_frame C ''block'' (str_bytes ''data'')) (\<lambda>frame.
       let corrupt = frame[0 := 0x58] in
       expect_err (unpack_frame C corrupt) (\<lambda>err. err = InvalidMagic [0x58, 0x55, 0x52, 0x01]))"

lemma passes_frame_rejects_invalid_magic: "test_frame_rejects_invalid_magic C"
  by (simp add: test_frame_rejects_invalid_magic_def unpack_frame_def HEADER_SIZE_def own_frame_def
      frame_bytes_def MAGIC_BYTES_def COMMAND_SIZE_def)

definition test_frame_rejects_checksum_mismatch :: "'vk crypto \<Rightarrow> bool" where
  "test_frame_rejects_checksum_mismatch C =
     (let payload = str_bytes ''critical-financial-transaction'' in
      expect_ok (pack_frame C ''block'' payload) (\<lambda>frame.
        let corrupt_idx = HEADER_SIZE;
            frame = frame[corrupt_idx := frame ! corrupt_idx XOR 0xA5]
        in expect_err (unpack_frame C frame) (\<lambda>err. err = ChecksumMismatch)))"

lemma passes_frame_rejects_checksum_mismatch:
  "test_frame_rejects_checksum_mismatch C \<longleftrightarrow>
     blake3 C (flip 0 0xA5 (str_bytes ''critical-financial-transaction''))
       \<noteq> blake3 C (str_bytes ''critical-financial-transaction'')"
  using unpack_flipped [of "''block''" "str_bytes ''critical-financial-transaction''" 0 C "0xA5"]
  by (simp add: test_frame_rejects_checksum_mismatch_def HEADER_SIZE_def flip_def [of 52])

definition test_frame_rejects_truncated_payload :: "'vk crypto \<Rightarrow> bool" where
  "test_frame_rejects_truncated_payload C =
     (let payload = replicate 16 0xAB in
      expect_ok (pack_frame C ''block'' payload) (\<lambda>frame.
        let truncated = take (usize_saturating_add HEADER_SIZE 12) frame in
        expect_err (unpack_frame C truncated) (\<lambda>err. err = TruncatedPayload 16 12)))"

lemma unpack_truncated:
  assumes "test_command command" "n \<le> 4194304" "length body < n"
  shows "unpack_frame C (frame_bytes command (of_nat n) h body) = Inl (TruncatedPayload n (length body))"
proof -
  have n: "unat (of_nat n :: u32) = n" using assms(2) by (intro unat_of_nat_less) simp
  have c: "length command \<le> 12" "utf8_string command" "CHR 0x00 \<notin> set command"
    using assms(1) by (simp_all add: test_command_def)
  show ?thesis
    unfolding unpack_frame_def HEADER_SIZE_def Let_def frame_fields [OF c(1)]
    using assms n c by (simp add: takeWhile_command MAX_PAYLOAD_SIZE_def)
qed

lemma passes_frame_rejects_truncated_payload: "test_frame_rejects_truncated_payload C"
proof -
  have "take (usize_saturating_add HEADER_SIZE 12) (own_frame C ''block'' (replicate 16 0xAB))
      = frame_bytes ''block'' (of_nat 16) (blake3 C (replicate 16 0xAB)) (replicate 12 0xAB)"
    by (simp add: own_frame_def frame_bytes_def HEADER_SIZE_def COMMAND_SIZE_def MAGIC_BYTES_def
        usize_saturating_add_def)
  then have "unpack_frame C (take (usize_saturating_add HEADER_SIZE 12) (own_frame C ''block'' (replicate 16 0xAB)))
      = Inl (TruncatedPayload 16 12)"
    using unpack_truncated [of "''block''" 16 "replicate 12 0xAB"] by (simp only: test_commands length_replicate) simp
  then show ?thesis by (simp add: test_frame_rejects_truncated_payload_def)
qed

definition test_frame_rejects_command_too_long :: "'vk crypto \<Rightarrow> bool" where
  "test_frame_rejects_command_too_long C =
     expect_err (pack_frame C ''blockprotocolxx'' (str_bytes ''x'')) (\<lambda>err. err = CommandTooLong ''blockprotocolxx'')"

definition test_unpack_rejects_incomplete_header :: "'vk crypto \<Rightarrow> bool" where
  "test_unpack_rejects_incomplete_header C =
     expect_err (unpack_frame C (replicate 10 0)) (\<lambda>err. err = IncompleteHeader 10)"

lemma passes_frame_limits: "test_frame_rejects_command_too_long C" "test_unpack_rejects_incomplete_header C"
  by (simp_all add: test_frame_rejects_command_too_long_def test_unpack_rejects_incomplete_header_def
      pack_frame_def unpack_frame_def COMMAND_SIZE_def HEADER_SIZE_def)

section \<open>Configuration\<close>

definition test_default_config_enforces_peer_mode :: bool where
  "test_default_config_enforces_peer_mode =
     (let cfg = NetworkConfig_default; json5 = to_zenoh_json5 cfg in
      str_contains json5 (''mode: '' @ quoted ''peer'') \<and> str_contains json5 ''tcp/0.0.0.0:7447'')"

definition test_with_port_disables_scouting :: bool where
  "test_with_port_disables_scouting =
     (let cfg = with_port 49152; json5 = to_zenoh_json5 cfg in
      str_contains json5 ''49152'' \<and> str_contains json5 ''enabled: false'')"

definition test_shared_memory_toggle_serializes :: bool where
  "test_shared_memory_toggle_serializes =
     (let cfg = NetworkConfig_default\<lparr>enable_shared_memory := True\<rparr> in
      str_contains (to_zenoh_json5 cfg) ''enabled: true'')"

text \<open>A string contains what one of the parts it is put together from contains.\<close>

lemma str_contains_iff: "str_contains hay needle \<longleftrightarrow> (\<exists>pre post. hay = pre @ needle @ post)"
proof
  show "str_contains hay needle \<Longrightarrow> \<exists>pre post. hay = pre @ needle @ post"
  proof (induction hay)
    case Nil
    then show ?case by (simp add: str_contains.simps [of "[]"])
  next
    case (Cons c hay)
    show ?case
    proof (cases "take (length needle) (c # hay) = needle")
      case True
      then have "c # hay = [] @ needle @ drop (length needle) (c # hay)" by (metis append_Nil append_take_drop_id)
      then show ?thesis by blast
    next
      case False
      with Cons.prems have "str_contains hay needle" by (simp add: str_contains.simps [of "_ # _"])
      with Cons.IH obtain pre post where "hay = pre @ needle @ post" by blast
      then have "c # hay = (c # pre) @ needle @ post" by simp
      then show ?thesis by blast
    qed
  qed
qed (auto intro: str_contains_append str_contains_here)

lemma str_contains_left: "str_contains hay needle \<Longrightarrow> str_contains (hay @ post) needle"
  by (metis str_contains_iff append.assoc)

lemma str_contains_suffix: "str_contains hay (a @ b) \<Longrightarrow> str_contains hay b"
  by (metis str_contains_iff append.assoc)

lemma skip_five: "str_contains hay needle \<Longrightarrow> str_contains (a @ b @ c @ d @ e @ hay) needle"
  by (intro str_contains_append)

lemma config_parts:
  "str_contains (''mode: '' @ quoted ''peer'' @ '','') (''mode: '' @ quoted ''peer'')"
  "str_contains ''enabled: true,'' ''enabled: true''"
  "\<not> b \<Longrightarrow> str_contains (''enabled: '' @ json_bool b @ '','') ''enabled: false''"
  by (simp_all add: str_contains.simps [of "_ # _"] json_bool_def quoted_def)

lemma listen_endpoint:
  "listen_endpoints cfg = [ep] \<Longrightarrow> str_contains (endpoints_to_json5_array (listen_endpoints cfg)) ep"
  by (simp add: endpoints_to_json5_array_def str_contains_append [of _ _ "[CHR 0x5B, CHR 0x22]", simplified]
      str_contains_here)

lemma json5_contains_mode: "str_contains (to_zenoh_json5 cfg) (''mode: '' @ quoted ''peer'')"
  unfolding to_zenoh_json5_def Let_def
  by (rule str_contains_append, rule str_contains_left, intro str_contains_append config_parts)

lemma json5_contains_listen:
  "str_contains (endpoints_to_json5_array (listen_endpoints cfg)) ep \<Longrightarrow> str_contains (to_zenoh_json5 cfg) ep"
  unfolding to_zenoh_json5_def Let_def
  by (rule str_contains_append, rule str_contains_append, rule str_contains_append, rule str_contains_left,
      rule str_contains_append, rule str_contains_append, rule str_contains_append, rule str_contains_left)

text \<open>Gossip scouting is enabled in every configuration, so \<open>enabled: true\<close> is always there.\<close>

lemma json5_contains_enabled: "str_contains (to_zenoh_json5 cfg) ''enabled: true''"
  unfolding to_zenoh_json5_def Let_def
  by (rule skip_five, rule skip_five, rule str_contains_append, rule str_contains_append,
      rule str_contains_append, rule str_contains_append, rule str_contains_left,
      intro str_contains_append config_parts)

lemma json5_contains_disabled:
  "\<not> enable_shared_memory cfg \<Longrightarrow> str_contains (to_zenoh_json5 cfg) ''enabled: false''"
  unfolding to_zenoh_json5_def Let_def
  by (rule skip_five, rule skip_five, rule skip_five, rule skip_five, rule str_contains_left,
      intro str_contains_append config_parts)

lemma passes_config:
  test_default_config_enforces_peer_mode test_with_port_disables_scouting test_shared_memory_toggle_serializes
proof -
  have ep: "str_contains (to_zenoh_json5 NetworkConfig_default) ''tcp/0.0.0.0:7447''"
    by (intro json5_contains_listen listen_endpoint) (simp add: NetworkConfig_default_def)
  show test_default_config_enforces_peer_mode
    unfolding test_default_config_enforces_peer_mode_def Let_def using json5_contains_mode ep by blast
  show test_shared_memory_toggle_serializes
    unfolding test_shared_memory_toggle_serializes_def Let_def by (rule json5_contains_enabled)
  have "str_contains (to_zenoh_json5 (with_port 49152)) (''tcp/127.0.0.1:'' @ show_nat 49152)"
    by (intro json5_contains_listen listen_endpoint) (simp add: with_port_def)
  then have "str_contains (to_zenoh_json5 (with_port 49152)) (show_nat 49152)" by (rule str_contains_suffix)
  moreover have "show_nat 49152 = ''49152''" by (simp add: show_nat.simps hex_digit_def char_of_def bit_0)
  ultimately have "str_contains (to_zenoh_json5 (with_port 49152)) ''49152''" by (simp only:)
  moreover have "str_contains (to_zenoh_json5 (with_port 49152)) ''enabled: false''"
    by (rule json5_contains_disabled) (simp add: with_port_def)
  ultimately show test_with_port_disables_scouting
    unfolding test_with_port_disables_scouting_def Let_def by blast
qed

section \<open>Gossip decoding\<close>

definition test_decode_block_frame_roundtrip :: "'vk crypto \<Rightarrow> bool" where
  "test_decode_block_frame_roundtrip C =
     (let block = network_sample_block C; payload = encode_block block in
      expect_ok (pack_frame C ''block'' payload) (\<lambda>frame.
      expect_ok (decode_block_frame C frame) (\<lambda>decoded. decoded = block)))"

definition test_decode_tx_frame_roundtrip :: "'vk crypto \<Rightarrow> bool" where
  "test_decode_tx_frame_roundtrip C =
     (let tx = sample_transaction; payload = encode_tx tx in
      expect_ok (pack_frame C ''tx'' payload) (\<lambda>frame.
      expect_ok (decode_tx_frame C frame) (\<lambda>decoded. decoded = tx)))"

definition test_decode_block_frame_rejects_wrong_command :: "'vk crypto \<Rightarrow> bool" where
  "test_decode_block_frame_rejects_wrong_command C =
     (let block = network_sample_block C; payload = encode_block block in
      expect_ok (pack_frame C ''tx'' payload) (\<lambda>frame.
      expect_err (decode_block_frame C frame) (\<lambda>err. case err of NetCodecError _ \<Rightarrow> True | _ \<Rightarrow> False)))"

lemma passes_decode_frames:
  "test_decode_block_frame_roundtrip C" "test_decode_tx_frame_roundtrip C"
  "test_decode_block_frame_rejects_wrong_command C"
  by (simp_all add: test_decode_block_frame_roundtrip_def test_decode_tx_frame_roundtrip_def
      test_decode_block_frame_rejects_wrong_command_def decode_block_frame_def decode_tx_frame_def
      block.roundtrip tx.roundtrip)

definition test_decode_tx_frame_rejects_corrupted_checksum :: "'vk crypto \<Rightarrow> bool" where
  "test_decode_tx_frame_rejects_corrupted_checksum C =
     (let tx = sample_transaction; payload = encode_tx tx in
      expect_ok (pack_frame C ''tx'' payload) (\<lambda>frame.
        let last = length frame - 1; frame = frame[last := frame ! last XOR 0xFF] in
        expect_err (decode_tx_frame C frame) (\<lambda>err. err = ChecksumMismatch)))"

lemma passes_decode_tx_frame_rejects_corrupted_checksum:
  fixes C :: "'vk crypto"
  defines "payload \<equiv> encode_tx sample_transaction"
  shows "test_decode_tx_frame_rejects_corrupted_checksum C \<longleftrightarrow>
    blake3 C (flip (length payload - 1) 0xFF payload) \<noteq> blake3 C payload"
proof -
  let ?frame = "own_frame C ''tx'' payload"
  have l: "0 < length payload" "length payload \<le> 4194304"
    using samples_size(1) by (simp_all add: payload_def encode_tx_def)
  then have i: "length payload - 1 < length payload" by simp
  from l have last: "length ?frame - 1 = 52 + (length payload - 1)" by simp
  have u: "unpack_frame C (?frame[length ?frame - 1 := ?frame ! (length ?frame - 1) XOR 0xFF])
      = (if blake3 C (flip (length payload - 1) 0xFF payload) = blake3 C payload
         then Inr (''tx'', flip (length payload - 1) 0xFF payload) else Inl ChecksumMismatch)"
    using unpack_flipped [OF test_commands(2) l(2) i, of C "0xFF"]
    unfolding last flip_def [of "52 + _"] .
  have "test_decode_tx_frame_rejects_corrupted_checksum C \<longleftrightarrow>
      decode_tx_frame C (?frame[length ?frame - 1 := ?frame ! (length ?frame - 1) XOR 0xFF]) = Inl ChecksumMismatch"
    using l by (auto simp: test_decode_tx_frame_rejects_corrupted_checksum_def payload_def [symmetric] Let_def
        expect_err_def simp del: length_own split: sum.splits)
  also have "\<dots> \<longleftrightarrow> blake3 C (flip (length payload - 1) 0xFF payload) \<noteq> blake3 C payload"
    unfolding decode_tx_frame_def u by (simp add: map_err_def split: sum.splits)
  finally show ?thesis .
qed

section \<open>The peer mesh\<close>

text \<open>Two sessions joined by a link: what is put on the first reaches the subscribers of its key on the
  second, and a query on the second is answered by the callback the first has declared.\<close>

definition test_brokerless_peer_mesh_local_gossip :: "'vk crypto \<Rightarrow> zenoh \<Rightarrow> zenoh \<Rightarrow> bool" where
  "test_brokerless_peer_mesh_local_gossip C session_a session_b =
     expect_ok (subscribe_transactions C session_b) (\<lambda>tx_stream.
       let expected_tx = sample_transaction in
       expect_ok (broadcast_transaction C session_a expected_tx) (\<lambda>_.
         case tx_stream of received # _ \<Rightarrow> received = Inr expected_tx | [] \<Rightarrow> False))"

definition carries :: "zenoh \<Rightarrow> zenoh \<Rightarrow> (string \<times> bytes) list \<Rightarrow> bool" where
  "carries session_a session_b puts \<longleftrightarrow>
     (\<forall>(key, frame) \<in> set puts. z_put session_a key frame = Inr ()) \<and>
     (\<forall>key. z_declare_subscriber session_b key = Inr (map (\<lambda>p. Inr (snd p)) (filter (\<lambda>p. fst p = key) puts)))"

lemma passes_brokerless_peer_mesh_local_gossip:
  assumes "tx_sample C sample_transaction = Inr sample" "carries session_a session_b [sample]"
  shows "test_brokerless_peer_mesh_local_gossip C session_a session_b"
proof -
  have "sample = (TOPIC_TX_NEW, own_frame C ''tx'' (encode_tx sample_transaction))"
    using assms(1) by (simp add: tx_sample_def)
  with assms show ?thesis
    by (simp add: test_brokerless_peer_mesh_local_gossip_def subscribe_transactions_def broadcast_transaction_def
        carries_def decode_tx_frame_def tx.roundtrip)
qed

definition test_query_reply_block_template_sync :: "'vk crypto \<Rightarrow> zenoh \<Rightarrow> zenoh \<Rightarrow> bool" where
  "test_query_reply_block_template_sync C session_a session_b =
     (let expected_template = str_bytes ''aurion-genesis-block-template-height-1'' in
      expect_ok (register_block_template_provider C session_a (\<lambda>_. expected_template)) (\<lambda>_.
      expect_ok (request_block_template C session_b) (\<lambda>received. received = expected_template)))"

text \<open>The callback is the one that the test registers, and a reply carries its frame.\<close>

definition replies_from :: "zenoh \<Rightarrow> zenoh \<Rightarrow> string \<Rightarrow> (unit \<Rightarrow> (string \<times> bytes) option) \<Rightarrow> bool" where
  "replies_from session_a session_b key callback \<longleftrightarrow>
     (\<exists>handle. z_declare_queryable session_a key callback = Inr handle) \<and>
     z_get session_b key None = Inr (map_option (\<lambda>p. Inr (snd p)) (callback ()))"

lemma passes_query_reply_block_template_sync:
  assumes "replies_from session_a session_b TOPIC_IPC_MINER_TEMPLATE
    (template_provider C (\<lambda>_. str_bytes ''aurion-genesis-block-template-height-1''))"
  shows "test_query_reply_block_template_sync C session_a session_b"
  using assms
  by (auto simp: test_query_reply_block_template_sync_def replies_from_def register_block_template_provider_def
      request_block_template_def unframe_reply_def template_provider_def HEADER_SIZE_def Let_def)

section \<open>Synchronisation queries\<close>

definition test_sync_engine_frame_codec_consistency :: "'vk crypto \<Rightarrow> bool" where
  "test_sync_engine_frame_codec_consistency C =
     (let request = str_bytes ''height-range-100-200'' in
      expect_ok (pack_frame C ''getheaders'' request) (\<lambda>frame.
      expect_ok (unpack_frame C frame) (\<lambda>(cmd, payload). cmd = ''getheaders'' \<and> payload = request)))"

definition test_sync_blocks_codec_consistency :: "'vk crypto \<Rightarrow> bool" where
  "test_sync_blocks_codec_consistency C =
     expect_ok (pack_frame C ''getblocks'' (str_bytes ''hash-xyz'')) (\<lambda>frame.
     expect_ok (unpack_frame C frame) (\<lambda>(cmd, payload). cmd = ''getblocks'' \<and> payload = str_bytes ''hash-xyz''))"

lemma passes_sync_codec_consistency:
  "test_sync_engine_frame_codec_consistency C" "test_sync_blocks_codec_consistency C"
  by (simp_all add: test_sync_engine_frame_codec_consistency_def test_sync_blocks_codec_consistency_def)

section \<open>RPC frames\<close>

text \<open>The duplex pipe: what is written to one end is what the other end reads.\<close>

definition duplex :: "bytes \<Rightarrow> reader" where
  "duplex sent = \<lparr>rd_bytes = sent, rd_end = IoUnexpectedEof\<rparr>"

definition test_frame_roundtrip :: bool where
  "test_frame_roundtrip =
     (let payload = str_bytes ''aurion-frame-canonical-check'' in
      let (sent, writer) = write_frame payload fresh_writer in
      expect_ok sent (\<lambda>_.
      expect_ok (read_frame (duplex (wr_bytes writer))) (\<lambda>(decoded, _). decoded = payload)))"

lemma passes_frame_roundtrip: test_frame_roundtrip
  using read_frame_ok [of "str_bytes ''aurion-frame-canonical-check''" "[]" IoUnexpectedEof]
  by (simp add: test_frame_roundtrip_def write_frame_ok duplex_def)

definition test_write_frame_rejects_oversized_payload :: bool where
  "test_write_frame_rejects_oversized_payload =
     (let payload = replicate (usize_saturating_add MAX_RPC_FRAME_SIZE 1) 0 in
      expect_err (fst (write_frame payload fresh_writer)) (\<lambda>err. case err of RpcPayloadTooLarge _ \<Rightarrow> True | _ \<Rightarrow> False))"

definition test_read_frame_rejects_oversized_header :: bool where
  "test_read_frame_rejects_oversized_header =
     (let oversized = saturating_add (of_nat MAX_RPC_FRAME_SIZE) 1 :: u32 in
      let (sent, writer) = write_all (to_be_bytes oversized) fresh_writer in
      expect_ok sent (\<lambda>_.
      expect_err (read_frame (duplex (wr_bytes writer))) (\<lambda>err. case err of RpcPayloadTooLarge _ \<Rightarrow> True | _ \<Rightarrow> False)))"

lemma passes_frame_size_limits:
  test_write_frame_rejects_oversized_payload test_read_frame_rejects_oversized_header
  by (simp_all add: test_write_frame_rejects_oversized_payload_def test_read_frame_rejects_oversized_header_def
      write_frame_def write_all_def read_frame_def read_exact_def duplex_def fresh_writer_def
      MAX_RPC_FRAME_SIZE_def usize_saturating_add_def saturating_add_def)

section \<open>RPC messages\<close>

text \<open>The transaction, block and template of the template and protocol tests.\<close>

definition rpc_sample_tx :: transaction where
  "rpc_sample_tx =
     \<lparr>tx_version = 1,
      inputs = [\<lparr>previous_output = OutPoint_new ZERO_HASH 0, unlocking_script = [0x10], sequence = 0,
                 redeemer = None\<rparr>],
      outputs = [\<lparr>out_value = Quantum 50000000, locking_script = [0x20], out_datum = DatumNone\<rparr>],
      locktime = 0\<rparr>"

definition rpc_sample_header :: "u64 \<Rightarrow> block_header" where
  "rpc_sample_header h =
     \<lparr>version = 1, prev_block_hash = ZERO_HASH, merkle_root = ZERO_HASH, timestamp = 1773446400,
      bits = 0x1f00ffff, nonce = 42, height = h\<rparr>"

definition protocol_sample_block :: block where
  "protocol_sample_block = Block_new (rpc_sample_header 10) [rpc_sample_tx]"

definition sample_template :: "'vk crypto \<Rightarrow> block_template" where
  "sample_template C =
     \<lparr>bt_height = 10, bt_prev = ZERO_HASH, bt_target = digest C (str_bytes ''target''),
      bt_timestamp = 1773446400, coinbase_subsidy = Quantum 99000000, total_fee = Quantum 5000,
      bt_transactions = [rpc_sample_tx]\<rparr>"

lemma rpc_samples_wf [simp]: "wf_tx rpc_sample_tx" "wf_block protocol_sample_block" "wf_template (sample_template C)"
  by (simp_all add: rpc_sample_tx_def protocol_sample_block_def sample_template_def Block_new_def wf_template_def
      wf_defs)

lemma ascii_reasons [simp]:
  "wf_string ''subsidy parity mismatch''" "wf_string ''stale template''" "wf_string ''internal failure''"
  by (simp_all add: wf_string_def utf8_string_def str_bytes_def)

definition test_block_template_roundtrip :: "'vk crypto \<Rightarrow> bool" where
  "test_block_template_roundtrip C =
     (let template =
        \<lparr>bt_height = 201000, bt_prev = digest C (str_bytes ''prev''), bt_target = digest C (str_bytes ''target''),
         bt_timestamp = 1773446400, coinbase_subsidy = Quantum 99000000, total_fee = Quantum 12500,
         bt_transactions = [rpc_sample_tx, rpc_sample_tx]\<rparr>
      in expect_ok (decode_canonical decode_template (encode_template template)) (\<lambda>decoded. template = decoded))"

definition test_submit_result_roundtrip :: "'vk crypto \<Rightarrow> bool" where
  "test_submit_result_roundtrip C =
     (let accepted = Accepted (digest C (str_bytes ''block'')) 1024;
          rejected = Rejected ''subsidy parity mismatch''
      in expect_ok (decode_canonical decode_submit_result (encode_submit_result accepted)) (\<lambda>r. r = accepted) \<and>
         expect_ok (decode_canonical decode_submit_result (encode_submit_result rejected)) (\<lambda>r. r = rejected))"

definition test_rpc_request_roundtrip :: bool where
  "test_rpc_request_roundtrip =
     list_all (\<lambda>request. expect_ok (decode_canonical decode_request (encode_request request)) (\<lambda>decoded.
         request = decoded))
       [GetBlockTemplate (replicate 29 0xaa), SubmitBlock protocol_sample_block, SendRawTransaction rpc_sample_tx,
        GetTipStatus]"

definition test_rpc_response_roundtrip :: "'vk crypto \<Rightarrow> bool" where
  "test_rpc_response_roundtrip C =
     list_all (\<lambda>response. expect_ok (decode_canonical decode_response (encode_response response)) (\<lambda>decoded.
         response = decoded))
       [RespBlockTemplate (sample_template C),
        RespSubmitBlock (Accepted (digest C (str_bytes ''block'')) 10),
        RespSubmitBlock (Rejected ''stale template''),
        TransactionAccepted (digest C (str_bytes ''txid'')),
        TipStatus 10 (digest C (str_bytes ''tip'')) 1048576,
        RespError ''internal failure'']"

definition test_protocol_rejects_unknown_tag :: bool where
  "test_protocol_rejects_unknown_tag =
     (let unknown = [0xff] in
      \<not> is_ok (decode_canonical decode_response unknown) \<and> \<not> is_ok (decode_canonical decode_request unknown))"

lemma passes_message_roundtrips:
  "test_block_template_roundtrip C" "test_submit_result_roundtrip C" test_rpc_request_roundtrip
  "test_rpc_response_roundtrip C"
  by (simp_all add: test_block_template_roundtrip_def test_submit_result_roundtrip_def
      test_rpc_request_roundtrip_def test_rpc_response_roundtrip_def template.roundtrip submit_result.roundtrip
      request.roundtrip response.roundtrip wf_template_def sample_template_def wf_vec_def Let_def del: encode_request.simps
      encode_response.simps encode_submit_result.simps)

lemma passes_protocol_rejects_unknown_tag: test_protocol_rejects_unknown_tag
  by (simp add: test_protocol_rejects_unknown_tag_def decode_canonical_def decode_response_def decode_request_def)

section \<open>The client against a server\<close>

text \<open>The test's node. Its assertion on the payout address is a failed request here; the flag is the
  node's state.\<close>

definition TestNode :: "'vk crypto \<Rightarrow> bool rpc_handler" where
  "TestNode C =
     \<lparr>handle_get_block_template = (\<lambda>payout_address reject_submits.
        (if payout_address \<noteq> str_bytes ''aurion-test-addr'' then Inl ''assertion failed''
         else Inr \<lparr>bt_height = 7, bt_prev = ZERO_HASH, bt_target = digest C (str_bytes ''target''),
           bt_timestamp = 1773446400, coinbase_subsidy = Quantum 99000000, total_fee = Quantum 2300,
           bt_transactions = []\<rparr>, reject_submits)),
      handle_submit_block = (\<lambda>_ reject_submits.
        (if reject_submits then Inl ''subsidy parity mismatch''
         else Inr (Accepted (digest C (str_bytes ''mined'')) 7), reject_submits)),
      handle_send_raw_tx = (\<lambda>_ reject_submits. (Inr (digest C (str_bytes ''test-txid'')), reject_submits)),
      handle_get_tip_status = (\<lambda>reject_submits. (Inr (7, digest C (str_bytes ''tip''), 3), reject_submits))\<rparr>"

definition client_sample_block :: block where
  "client_sample_block = Block_new (rpc_sample_header 7) []"

text \<open>\<open>spawn_test_server\<close>: the peer of the client is the connection loop over the test's node.\<close>

definition spawn_test_server :: "'vk crypto \<Rightarrow> bool \<Rightarrow> bytes \<Rightarrow> reader" where
  "spawn_test_server C reject_submits sent =
     duplex (wr_bytes (fst (snd (handle_connection (TestNode C) (duplex sent) fresh_writer reject_submits))))"

definition test_get_block_template :: "'vk crypto \<Rightarrow> bool" where
  "test_get_block_template C =
     expect_ok (client_get_block_template (Inr ()) (spawn_test_server C False) fresh_writer
         (str_bytes ''aurion-test-addr'')) (\<lambda>template.
       bt_height template = 7 \<and> coinbase_subsidy template = Quantum 99000000 \<and> total_fee template = Quantum 2300)"

definition test_submit_block_accepted :: "'vk crypto \<Rightarrow> bool" where
  "test_submit_block_accepted C =
     expect_ok (client_submit_block (Inr ()) (spawn_test_server C False) fresh_writer client_sample_block) (\<lambda>result.
       result = Accepted (digest C (str_bytes ''mined'')) 7)"

definition test_submit_block_rejected :: "'vk crypto \<Rightarrow> bool" where
  "test_submit_block_rejected C =
     expect_err (client_submit_block (Inr ()) (spawn_test_server C True) fresh_writer client_sample_block) (\<lambda>err.
       case err of NodeRejected _ \<Rightarrow> True | _ \<Rightarrow> False)"

definition test_send_raw_tx_and_tip_status :: "'vk crypto \<Rightarrow> bool" where
  "test_send_raw_tx_and_tip_status C =
     (expect_ok (rpc_call (Inr ()) (spawn_test_server C False) fresh_writer
          (SendRawTransaction \<lparr>tx_version = 1, inputs = [], outputs = [], locktime = 0\<rparr>)) (\<lambda>response.
        case response of TransactionAccepted sent \<Rightarrow> sent = digest C (str_bytes ''test-txid'') | _ \<Rightarrow> False) \<and>
      expect_ok (rpc_call (Inr ()) (spawn_test_server C False) fresh_writer GetTipStatus) (\<lambda>response.
        case response of
          TipStatus h best sz \<Rightarrow> (h, best, sz) = (7, digest C (str_bytes ''tip''), 3) | _ \<Rightarrow> False))"

definition test_client_connection_refused :: "(bytes \<Rightarrow> reader) \<Rightarrow> bool" where
  "test_client_connection_refused peer =
     expect_err (rpc_call (Inl ''connection refused'') peer fresh_writer GetTipStatus) (\<lambda>err.
       case err of ConnectionFailed _ \<Rightarrow> True | _ \<Rightarrow> False)"

lemma call_test_server:
  assumes "wf_request req" "length (encode_request req) \<le> 4194304"
    and "wf_response (fst (dispatch (TestNode C) req flag))"
    and "length (encode_response (fst (dispatch (TestNode C) req flag))) \<le> 4194304"
  shows "rpc_call (Inr ()) (spawn_test_server C flag) fresh_writer req = Inr (fst (dispatch (TestNode C) req flag))"
proof -
  let ?resp = "fst (dispatch (TestNode C) req flag)"
  have "handle_connection (TestNode C) (duplex (frame_of (encode_request req))) fresh_writer flag
      = (Inr (), fresh_writer\<lparr>wr_bytes := frame_of (encode_response ?resp)\<rparr>, snd (dispatch (TestNode C) req flag))"
    using handle_connection_serves [of "[req]" fresh_writer "TestNode C" flag] assms
    by (cases "dispatch (TestNode C) req flag") (simp add: duplex_def)
  then show ?thesis
    using assms read_frame_ok [of "encode_response ?resp" "[]" IoUnexpectedEof]
    by (simp add: rpc_call_def write_frame_ok response.roundtrip spawn_test_server_def duplex_def)
qed

lemma passes_client:
  "test_get_block_template C" "test_submit_block_accepted C" "test_submit_block_rejected C"
  "test_send_raw_tx_and_tip_status C" "test_client_connection_refused peer"
proof -
  note h = TestNode_def respond_def encode_vec_bytes_def wf_vec_def encode_tx_def encode_template_def wf_template_def
    encode_string_def wf_defs encode_quantum_def client_sample_block_def rpc_sample_header_def Block_new_def
    encode_block_def encode_header_def
  show "test_get_block_template C"
    by (simp add: test_get_block_template_def client_get_block_template_def h
        call_test_server)
  show "test_submit_block_accepted C" "test_submit_block_rejected C"
    by (simp_all add: test_submit_block_accepted_def test_submit_block_rejected_def client_submit_block_def h
        call_test_server)
  show "test_send_raw_tx_and_tip_status C"
    by (simp add: test_send_raw_tx_and_tip_status_def h call_test_server)
  show "test_client_connection_refused peer"
    by (simp add: test_client_connection_refused_def rpc_call_def map_err_def)
qed

end
