(* ===== verification/Tests_Node.thy ===== *)
theory Tests_Node
  imports Miner Tests_Ledger Tests_Mempool Tests_Net
begin

text \<open>
  The unit tests of the miner (\<open>mine/coinbase.rs\<close>, \<open>mine/engine.rs\<close>) and of the RPC handlers
  (\<open>rpc_handler.rs\<close>), run against the model. The thread pool's choice among the solutions of a
  batch and the system clock are parameters; a search that never ends fails its test.
\<close>

section \<open>Coinbases\<close>

definition test_coinbase_constructs_with_subsidy_and_fees :: bool where
  "test_coinbase_constructs_with_subsidy_and_fees =
     (let h = 1001; payout = [0x51]; subsidy = Quantum 9900000000; fees = Quantum 2500; extra_nonce = 42 in
      expect_ok (build_coinbase_transaction h payout subsidy fees extra_nonce) (\<lambda>tx.
        is_coinbase tx \<and> tx_version tx = 1 \<and> locktime tx = 0 \<and> length (inputs tx) = 1 \<and>
        length (outputs tx) = 1 \<and>
        (let input = inputs tx ! 0;
             expected_script = to_be_bytes h @ to_be_bytes extra_nonce;
             output = outputs tx ! 0
         in previous_output input = OutPoint_new ZERO_HASH 0xFFFFFFFF \<and> sequence input = 0xFFFFFFFF \<and>
            redeemer input = None \<and> unlocking_script input = expected_script \<and>
            Inr (out_value output) = quantum_checked_add subsidy fees \<and> locking_script output = payout \<and>
            out_datum output = DatumNone)))"

definition test_coinbase_bip34_height_and_extranonce_encoding :: bool where
  "test_coinbase_bip34_height_and_extranonce_encoding =
     (let h = 300000; extra_nonce = 7 in
      expect_ok (build_coinbase_transaction h [0x51] QUANTUM_ZERO QUANTUM_ZERO extra_nonce) (\<lambda>tx.
        let expected = to_be_bytes h @ to_be_bytes extra_nonce in
        unlocking_script (inputs tx ! 0) = expected \<and>
        op_txid (previous_output (inputs tx ! 0)) = ZERO_HASH \<and>
        op_vout (previous_output (inputs tx ! 0)) = 0xFFFFFFFF \<and>
        out_value (outputs tx ! 0) = QUANTUM_ZERO))"

definition test_coinbase_reward_overflow_protection :: bool where
  "test_coinbase_reward_overflow_protection =
     (let result = build_coinbase_transaction 1 [0x51] QUANTUM_MAX (Quantum 1) 1 in \<not> is_ok result)"

lemma passes_coinbase:
  test_coinbase_constructs_with_subsidy_and_fees test_coinbase_bip34_height_and_extranonce_encoding
  test_coinbase_reward_overflow_protection
proof -
  have sum: "quantum_checked_add (Quantum 9900000000) (Quantum 2500) = Inr (Quantum 9900002500)"
    "quantum_checked_add QUANTUM_ZERO QUANTUM_ZERO = Inr QUANTUM_ZERO" by simp_all
  have over: "quantum_checked_add QUANTUM_MAX (Quantum 1) = Inl Overflow"
    by (simp add: quantum_checked_add_Inl QUANTUM_MAX_def unat_minus_one_word)
  show test_coinbase_constructs_with_subsidy_and_fees test_coinbase_bip34_height_and_extranonce_encoding
    test_coinbase_reward_overflow_protection
    by (simp_all add: test_coinbase_constructs_with_subsidy_and_fees_def
        test_coinbase_bip34_height_and_extranonce_encoding_def test_coinbase_reward_overflow_protection_def
        build_coinbase_transaction_def bip34_push_def is_coinbase_def OutPoint_new_def Let_def sum over
        del: quantum_checked_add_Inr)
qed

section \<open>The search\<close>

definition test_target_to_bits_roundtrip :: bool where
  "test_target_to_bits_roundtrip =
     expect_ok (compact_to_target MAX_TARGET_BITS) (\<lambda>target.
       let bts = target_to_bits target in
       expect_ok (compact_to_target bts) (\<lambda>decoded. target = decoded))"

definition test_target_to_bits_tiny_target :: bool where
  "test_target_to_bits_tiny_target =
     (let tiny = (replicate 32 0)[31 := 0x5a]; bts = target_to_bits tiny in
      expect_ok (compact_to_target bts) (\<lambda>decoded. lex_cmp decoded tiny \<noteq> Less))"

lemma passes_target_to_bits: test_target_to_bits_roundtrip test_target_to_bits_tiny_target
proof -
  obtain t where t: "compact_to_target MAX_TARGET_BITS = Inr t" using max_target_ok by blast
  then show test_target_to_bits_roundtrip
    by (simp add: test_target_to_bits_roundtrip_def target_to_bits_compact)
  have tiny: "(replicate 32 0)[31 := 0x5a] = replicate 30 0 @ [0, 0x5a :: u8]"
    by (simp add: numeral_eq_Suc)
  have "lex_cmp (replicate 30 0 @ [0, 0x5a :: u8]) (replicate 30 0 @ [0, 0x5a]) = Equal"
    by (simp add: lex_cmp_be_nat)
  then show test_target_to_bits_tiny_target
    unfolding test_target_to_bits_tiny_target_def Let_def tiny by (simp add: target_to_bits_small)
qed

definition mine_test_header :: block_header where
  "mine_test_header =
     \<lparr>version = 1, prev_block_hash = ZERO_HASH, merkle_root = ZERO_HASH, timestamp = 1773446400,
      bits = MAX_TARGET_BITS, nonce = 0, height = 1\<rparr>"

definition test_mine_candidate_finds_valid_nonce :: "'vk crypto \<Rightarrow> (u64 list \<Rightarrow> u64) \<Rightarrow> bool" where
  "test_mine_candidate_finds_valid_nonce C pick =
     expect_ok (compact_to_target MAX_TARGET_BITS) (\<lambda>target.
       case mine_candidate C pick (Inr ()) mine_test_header (from_bytes target) of
         None \<Rightarrow> False
       | Some res \<Rightarrow> expect_ok res (\<lambda>solved. is_ok (check_pow (header_hash C solved) (bits solved))))"

text \<open>The test passes exactly when some nonce solves its header.\<close>

lemma passes_mine_candidate_finds_valid_nonce:
  assumes "\<And>xs. xs \<noteq> [] \<Longrightarrow> pick xs \<in> set xs"
  shows "test_mine_candidate_finds_valid_nonce C pick \<longleftrightarrow>
    (\<exists>n. is_ok (check_pow (header_hash C (mine_test_header\<lparr>nonce := n\<rparr>)) MAX_TARGET_BITS))"
proof -
  let ?h = mine_test_header
  obtain t where t: "compact_to_target MAX_TARGET_BITS = Inr t" using max_target_ok by blast
  then have "length t = 32" by (simp add: compact_to_target_cases(1))
  then have bytes: "as_bytes (from_bytes t) = t" by (simp add: as_bytes_def from_bytes_def)
  have meets: "meets_target C ?h t n \<longleftrightarrow> is_ok (check_pow (header_hash C (?h\<lparr>nonce := n\<rparr>)) MAX_TARGET_BITS)" for n
    using t by (auto simp: meets_target_def check_pow_def header_hash_def is_ok_iff)
  show ?thesis
  proof (cases "mine_loop C pick ?h t 0")
    case None
    then have "\<not> (\<exists>n. meets_target C ?h t n)" using mine_loop_returns_iff [OF assms, where C = C and target = t and hdr = ?h] by simp
    with None t meets show ?thesis
      by (simp add: test_mine_candidate_finds_valid_nonce_def mine_candidate_def bytes)
  next
    case (Some solved)
    from mine_loop_sound [OF this assms] obtain n where n: "solved = ?h\<lparr>nonce := n\<rparr>" "meets_target C ?h t n" by blast
    then have "is_ok (check_pow (header_hash C solved) (bits solved))"
      using meets by (simp add: mine_test_header_def)
    with Some t n meets show ?thesis
      by (auto simp: test_mine_candidate_finds_valid_nonce_def mine_candidate_def bytes)
  qed
qed

section \<open>The RPC handlers\<close>

definition build_service :: "'vk crypto \<Rightarrow> (string, u64) result \<Rightarrow> (authority_error, store node) result" where
  "build_service C clock =
     (case StorageEngine_open mem_redb ''tempfile'' of
        Inl _ \<Rightarrow> Inl AuthorityPanic
      | Inr storage \<Rightarrow>
          (case initialize_genesis mem_redb C (AuthorityEngine_new storage) of
             (Inl e, _) \<Rightarrow> Inl e
           | (Inr _, authority) \<Rightarrow>
               Inr \<lparr>nd_authority = authority, nd_mempool = Mempool_new DEFAULT_MAX_MEMPOOL_BYTES,
                    nd_gossip = False, nd_spawned = [], nd_clock = clock\<rparr>))"

text \<open>The service the tests run on.\<close>

definition test_node :: "'vk crypto \<Rightarrow> (string, u64) result \<Rightarrow> store node" where
  "test_node C clock =
     \<lparr>nd_authority = \<lparr>auth_state = Running, auth_storage = apply_block C (create_genesis_block C) [] (\<lambda>_. None),
        cancel_signal = False\<rparr>,
      nd_mempool = Mempool_new DEFAULT_MAX_MEMPOOL_BYTES, nd_gossip = False, nd_spawned = [], nd_clock = clock\<rparr>"

lemma build_service_ok [simp]: "build_service C clock = Inr (test_node C clock)"
  by (simp add: build_service_def mem_open mem_initialize test_node_def)

definition test_get_block_template_after_genesis :: "'vk crypto \<Rightarrow> (string, u64) result \<Rightarrow> bool" where
  "test_get_block_template_after_genesis C clock =
     expect_ok (build_service C clock) (\<lambda>service.
     expect_ok (fst (service_get_block_template mem_redb (str_bytes ''miner-payout-alice'') service)) (\<lambda>template.
       let genesis = create_genesis_block C in
       bt_height template = 1 \<and> bt_prev template = block_hash C genesis \<and>
       coinbase_subsidy template = calculate_block_subsidy_rpc 1 \<and> total_fee template = QUANTUM_ZERO \<and>
       bt_transactions template = [] \<and>
       expect_ok (compact_to_target MAX_TARGET_BITS) (\<lambda>target. bt_target template = from_bytes target)))"

lemma test_node_storage:
  "get_tip mem_redb (nd_storage (test_node C clock)) = Inr (Some (0, block_hash C (create_genesis_block C)))"
  "get_block mem_redb (nd_storage (test_node C clock)) (block_hash C (create_genesis_block C)) =
     Inr (Some (create_genesis_block C))"
  "get_block_by_height mem_redb (nd_storage (test_node C clock)) 0 = Inr (Some (create_genesis_block C))"
  using apply_block_block [of "create_genesis_block C" C "[]" "\<lambda>_. None"] apply_block_tip [of C "create_genesis_block C"]
  by (simp_all add: test_node_def mem.get_tip_ok mem.get_block_ok mem.get_block_by_height_ok genesis_fields)

lemma test_node_fields:
  "auth_state (nd_authority (test_node C clock)) = Running" "nd_clock (test_node C clock) = clock"
  "nd_mempool (test_node C clock) = Mempool_new DEFAULT_MAX_MEMPOOL_BYTES"
  by (simp_all add: test_node_def)

lemma test_node_tip [simp]:
  "service_tip mem_redb (nd_storage (test_node C clock)) = Inr (0, block_hash C (create_genesis_block C))"
  by (simp add: service_tip_def test_node_storage)

lemma test_node_mtp [simp]:
  "median_time_past mem_redb (nd_storage (test_node C clock)) (block_hash C (create_genesis_block C)) =
     Inr (timestamp (header (create_genesis_block C)))"
  by (simp add: median_time_past_def test_node_storage genesis_fields mtp_samples.simps)

lemma test_node_template:
  assumes "compact_to_target MAX_TARGET_BITS = Inr target"
  obtains ts where "build_template mem_redb (test_node C (Inr now)) =
     Inr \<lparr>bt_height = 1, bt_prev = block_hash C (create_genesis_block C), bt_target = from_bytes target,
       bt_timestamp = ts, coinbase_subsidy = calculate_block_subsidy_rpc 1, total_fee = QUANTUM_ZERO,
       bt_transactions = []\<rparr>"
proof -
  have mtp: "timestamp (header (create_genesis_block C)) = GENESIS_TIMESTAMP"
    "bits (header (create_genesis_block C)) = MAX_TARGET_BITS" by (simp_all add: create_genesis_block_def)
  have "\<exists>ts. template_timestamp now GENESIS_TIMESTAMP = Inr ts"
    by (simp add: template_timestamp_def checked_add_def GENESIS_TIMESTAMP_def)
  then obtain ts where ts: "template_timestamp now GENESIS_TIMESTAMP = Inr ts" by blast
  have "select_transactions_for_block (Mempool_new DEFAULT_MAX_MEMPOOL_BYTES) n = []" for n
    by (simp add: select_transactions_for_block_def)
  with ts show thesis
    by (intro that [of ts]) (simp add: build_template_def next_work_target_def test_node_storage test_node_fields
        mtp assms checked_add_def)
qed

lemma passes_get_block_template_after_genesis: "test_get_block_template_after_genesis C (Inr now)"
proof -
  obtain target where t: "compact_to_target MAX_TARGET_BITS = Inr target" using max_target_ok by blast
  from test_node_template [OF t, of C now] obtain ts where "build_template mem_redb (test_node C (Inr now)) =
     Inr \<lparr>bt_height = 1, bt_prev = block_hash C (create_genesis_block C), bt_target = from_bytes target,
       bt_timestamp = ts, coinbase_subsidy = calculate_block_subsidy_rpc 1, total_fee = QUANTUM_ZERO,
       bt_transactions = []\<rparr>" by blast
  with t show ?thesis
    by (simp add: test_get_block_template_after_genesis_def service_get_block_template_def)
qed

definition test_get_tip_status_after_genesis :: "'vk crypto \<Rightarrow> (string, u64) result \<Rightarrow> bool" where
  "test_get_tip_status_after_genesis C clock =
     expect_ok (build_service C clock) (\<lambda>service.
     expect_ok (fst (service_get_tip_status mem_redb service)) (\<lambda>(h, hash, mempool_size).
       h = 0 \<and> hash = block_hash C (create_genesis_block C) \<and> mempool_size = 0))"

lemma passes_get_tip_status_after_genesis: "test_get_tip_status_after_genesis C clock"
  by (simp add: test_get_tip_status_after_genesis_def service_get_tip_status_def test_node_fields mempool_len_def)

definition test_submit_block_rejected_on_genesis :: "'vk crypto \<Rightarrow> (string, u64) result \<Rightarrow> bool" where
  "test_submit_block_rejected_on_genesis C clock =
     expect_ok (build_service C clock) (\<lambda>service.
       let genesis = create_genesis_block C in
       expect_ok (fst (service_submit_block mem_redb C genesis service)) (\<lambda>result. case result of
         Rejected reason \<Rightarrow> reason \<noteq> [] | Accepted _ _ \<Rightarrow> False))"

text \<open>The genesis block does not connect to itself: it names another parent, or else it is refused at
  the height it is given.\<close>

lemma genesis_refused:
  obtains e where "fst (process_and_commit_block mem_redb C (nd_authority (test_node C clock)) (create_genesis_block C)) = Inl e"
    "e \<noteq> AuthorityPanic"
proof -
  have "\<not> block_structure_ok C (create_genesis_block C) 1"
    by (simp add: block_structure_ok_def genesis_fields)
  then have "verify_block_structure C (create_genesis_block C) 1 \<noteq> Inr ()"
    by (simp add: verify_block_structure_ok_iff)
  then obtain e where "verify_block_structure C (create_genesis_block C) 1 = Inl e"
    by (cases "verify_block_structure C (create_genesis_block C) 1") auto
  then show thesis
    using that
    by (cases "block_hash C (create_genesis_block C) = prev_block_hash (header (create_genesis_block C))")
      (auto simp: process_and_commit_block_def validate_block_def enforce_operational_def test_node_fields
        test_node_storage expected_next_def checked_add_def)
qed

lemma authority_error_debug_nonempty [simp]: "authority_error_debug e \<noteq> []"
  by (cases e) simp_all

lemma passes_submit_block_rejected_on_genesis: "test_submit_block_rejected_on_genesis C clock"
proof -
  from genesis_refused [of C clock] obtain e where
    e: "fst (process_and_commit_block mem_redb C (nd_authority (test_node C clock)) (create_genesis_block C)) = Inl e"
      "e \<noteq> AuthorityPanic" by blast
  then obtain A' where
    "process_and_commit_block mem_redb C (nd_authority (test_node C clock)) (create_genesis_block C) = (Inl e, A')"
    by (cases "process_and_commit_block mem_redb C (nd_authority (test_node C clock)) (create_genesis_block C)") auto
  with e(2) show ?thesis
    by (simp add: test_submit_block_rejected_on_genesis_def service_submit_block_def Let_def)
qed

definition test_send_raw_tx_rejects_missing_utxo :: "'vk crypto \<Rightarrow> (string, u64) result \<Rightarrow> bool" where
  "test_send_raw_tx_rejects_missing_utxo C clock =
     expect_ok (build_service C clock) (\<lambda>service.
       let tx = \<lparr>tx_version = 1,
             inputs = [\<lparr>previous_output = OutPoint_new (filled 0xAB) 0, unlocking_script = [], sequence = 0xFFFFFFFF,
                        redeemer = None\<rparr>],
             outputs = [\<lparr>out_value = Quantum 1, locking_script = [0x51], out_datum = DatumNone\<rparr>],
             locktime = 0\<rparr>
       in expect_err (fst (service_send_raw_tx mem_redb C tx service)) (\<lambda>err. str_contains err ''not found''))"

text \<open>The output is missing unless the genesis coinbase has the id \<open>[0xAB; 32]\<close>.\<close>

lemma passes_send_raw_tx_rejects_missing_utxo:
  assumes "txid C genesis_coinbase \<noteq> filled 0xAB"
  shows "test_send_raw_tx_rejects_missing_utxo C (Inr now)"
proof -
  let ?op = "OutPoint_new (filled 0xAB) 0" and ?n = "test_node C (Inr now)" and ?tx = "make_tx (filled 0xAB) 0 1"
  have "?op \<notin> fst ` set (block_outputs C (create_genesis_block C))"
    using assms by (auto simp: block_outputs_def created_outputs_def genesis_fields OutPoint_new_def)
  then have "map_of (rev (block_outputs C (create_genesis_block C))) ?op = None" by (simp add: map_of_eq_None_iff)
  then have "store_utxo (nd_storage ?n) ?op = Inr None"
    by (simp add: test_node_def store_utxo_def apply_block_utxo)
  then have view: "storage_view mem_redb (nd_storage ?n) ?op = None"
    by (simp add: storage_view_def mem.get_utxo_ok)
  have f: "inputs ?tx = [\<lparr>previous_output = ?op, unlocking_script = [], sequence = 0xFFFFFFFF, redeemer = None\<rparr>]"
    "outputs ?tx \<noteq> []" "\<not> is_coinbase ?tx" "locktime ?tx = 0"
    by (simp_all add: make_tx_def is_coinbase_def OutPoint_new_def Let_def)
  have "verify_transaction_locktime ?tx 1 mtp = Inr ()" for mtp
    by (simp add: verify_transaction_locktime_ok_iff locktime_satisfied_def f)
  then have "validate_for_mempool C ?tx (storage_view mem_redb (nd_storage ?n)) Map.empty 0 mtp =
      Inl (MpMissingUtxo ?op)" for mtp
    using f by (simp add: validate_for_mempool_def make_tx_size MAX_TX_SIZE_BYTES_def gate_conflict_def view
        checked_add_def enumerate_from_def)
  then have "fst (service_send_raw_tx mem_redb C ?tx ?n) = Inl (mempool_reject_display (MpMissingUtxo ?op))"
    by (simp add: service_send_raw_tx_def test_node_fields mempool_insert_def Let_def)
  moreover have "str_contains (mempool_reject_display (MpMissingUtxo ?op)) ''not found''"
    unfolding mempool_reject_display.simps
    by (rule str_contains_left) (simp add: str_contains.simps [of "_ # _"])
  moreover have "?tx = \<lparr>tx_version = 1,
      inputs = [\<lparr>previous_output = ?op, unlocking_script = [], sequence = 0xFFFFFFFF, redeemer = None\<rparr>],
      outputs = [\<lparr>out_value = Quantum 1, locking_script = [0x51], out_datum = DatumNone\<rparr>], locktime = 0\<rparr>"
    by (simp add: make_tx_def)
  ultimately show ?thesis
    unfolding test_send_raw_tx_rejects_missing_utxo_def by (simp del: mempool_reject_display.simps)
qed

section \<open>A block mined from the node's own template\<close>

definition test_mined_height1_block_accepted_via_miner_loop ::
    "'vk crypto \<Rightarrow> (u64 list \<Rightarrow> u64) \<Rightarrow> (string, u64) result \<Rightarrow> bool" where
  "test_mined_height1_block_accepted_via_miner_loop C pick clock =
     expect_ok (build_service C clock) (\<lambda>service.
     expect_ok (fst (service_get_block_template mem_redb (str_bytes ''payout'') service)) (\<lambda>template.
       bt_height template = 1 \<and>
       expect_ok (build_coinbase_transaction (bt_height template) [0x51] (coinbase_subsidy template) QUANTUM_ZERO 1)
         (\<lambda>coinbase.
           let txs = [coinbase];
               root = compute_merkle_root C (map (txid C) txs);
               candidate = \<lparr>version = 1, prev_block_hash = bt_prev template, merkle_root = root,
                 timestamp = bt_timestamp template, bits = target_to_bits (as_bytes (bt_target template)),
                 nonce = 0, height = bt_height template\<rparr>
           in case mine_candidate C pick (Inr ()) candidate (bt_target template) of
                None \<Rightarrow> False
              | Some res \<Rightarrow> expect_ok res (\<lambda>solved.
                  let block = Block_new solved txs in
                  expect_ok (fst (service_submit_block mem_redb C block service)) (\<lambda>result. case result of
                    Accepted _ h \<Rightarrow> h = 1 | Rejected _ \<Rightarrow> False)))))"

lemma test_node_reachable:
  "node_reachable id (id :: store \<Rightarrow> store) (id :: store \<Rightarrow> store) C (test_node C clock)"
proof (rule node_reachable.boot [OF mem.redb_laws_axioms])
  show "db_create mem_redb ''aurion.redb'' = Inr (\<lambda>_. None)" "id (\<lambda>_. None) = (\<lambda>_. None)"
    by (simp_all add: mem_redb_def)
  show "execute_node mem_redb C ''aurion.redb'' False clock = Inr (test_node C clock)"
    by (simp add: execute_node_def mem_open mem_initialize test_node_def)
qed

text \<open>The test passes exactly when the search for a nonce ends.\<close>

lemma passes_mined_height1_block_accepted:
  assumes pick: "\<And>xs. xs \<noteq> [] \<Longrightarrow> pick xs \<in> set xs"
    and t: "build_template mem_redb (test_node C (Inr now)) = Inr t"
  shows "test_mined_height1_block_accepted_via_miner_loop C pick (Inr now) \<longleftrightarrow>
    mine_block C pick (Inr ()) [0x51] 1 t \<noteq> None"
proof -
  let ?n = "test_node C (Inr now)"
  obtain target where target: "compact_to_target MAX_TARGET_BITS = Inr target" using max_target_ok by blast
  have f: "bt_height t = 1" "bt_transactions t = []"
    using test_node_template [OF target, of C now "bt_height t = 1"] test_node_template [OF target, of C now "bt_transactions t = []"] t
    by simp_all
  obtain cb where cb: "build_coinbase_transaction 1 [0x51] (coinbase_subsidy t) QUANTUM_ZERO 1 = Inr cb"
    using coinbase_total by blast
  define candidate where "candidate = \<lparr>version = 1, prev_block_hash = bt_prev t,
      merkle_root = compute_merkle_root C (map (txid C) [cb]), timestamp = bt_timestamp t,
      bits = target_to_bits (as_bytes (bt_target t)), nonce = 0, height = 1\<rparr>"
  have a: "assemble_candidate C [0x51] 1 t = Inr (candidate, [cb])"
    by (simp add: assemble_candidate_def f cb candidate_def)
  have test: "test_mined_height1_block_accepted_via_miner_loop C pick (Inr now) \<longleftrightarrow>
      (case mine_candidate C pick (Inr ()) candidate (bt_target t) of
         None \<Rightarrow> False
       | Some res \<Rightarrow> expect_ok res (\<lambda>solved.
           expect_ok (fst (service_submit_block mem_redb C (Block_new solved [cb]) ?n)) (\<lambda>result. case result of
             Accepted _ h \<Rightarrow> h = 1 | Rejected _ \<Rightarrow> False)))"
    by (simp only: test_mined_height1_block_accepted_via_miner_loop_def candidate_def build_service_ok expect_simps
        service_get_block_template_def fst_conv t f cb Let_def simp_thms)
  show ?thesis
  proof (cases "mine_loop C pick candidate (as_bytes (bt_target t)) 0")
    case None
    then show ?thesis by (simp add: test mine_block_def a mine_candidate_def)
  next
    case (Some solved)
    let ?block = "Block_new solved [cb]"
    have m: "mine_block C pick (Inr ()) [0x51] 1 t = Some (Inr ?block)"
      by (simp add: mine_block_def a mine_candidate_def Some Block_new_def)
    have "accepted (fst (service_submit_block mem_redb C ?block ?n))"
      by (rule mined_accepted [OF mem.redb_healthy_axioms test_node_reachable _ t _ pick m])
        (simp_all add: test_node_fields f)
    moreover obtain n where "solved = candidate\<lparr>nonce := n\<rparr>" using mine_loop_sound [OF Some pick] by blast
    then have "height (header ?block) = 1" by (simp add: Block_new_def candidate_def)
    ultimately have "\<exists>hash. fst (service_submit_block mem_redb C ?block ?n) = Inr (Accepted hash 1)"
      by (auto simp: accepted_def service_submit_block_def split: prod.splits sum.splits if_splits)
    then show ?thesis by (auto simp: test mine_candidate_def Some m)
  qed
qed

end
