(* ===== verification/Tests_Script.thy ===== *)
theory Tests_Script
  imports Script Tests_Core
begin

text \<open>
  The unit tests of the script engine (\<open>aurion-script/src/engine.rs\<close>), run against the model. The
  signing half of \<open>ed25519-dalek\<close>, which the node never calls, is a parameter of the one test that
  signs; what the test needs of it is the hypothesis of its lemma.
\<close>

section \<open>Single opcodes\<close>

definition test_op_true_evaluation :: "'vk crypto \<Rightarrow> bool" where
  "test_op_true_evaluation C =
     (let locking = [opcode_u8 OpTrue] in is_ok (verify C [] locking ZERO_HASH))"

definition test_op_false_fails :: "'vk crypto \<Rightarrow> bool" where
  "test_op_false_fails C =
     (let locking = [opcode_u8 OpFalse] in expect_err (verify C [] locking ZERO_HASH) (\<lambda>e. e = ScriptFailed))"

definition test_op_return_rejection :: "'vk crypto \<Rightarrow> bool" where
  "test_op_return_rejection C =
     (let locking = [opcode_u8 OpReturn] in expect_err (verify C [] locking ZERO_HASH) (\<lambda>e. e = OpReturnTriggered))"

lemma passes_single_opcodes:
  "test_op_true_evaluation C" "test_op_false_fails C" "test_op_return_rejection C"
  by (simp_all add: test_op_true_evaluation_def test_op_false_fails_def test_op_return_rejection_def verify_def
      ScriptEngine_with_sighash_def execute_op script_limits stack_push_def is_truthy_def Let_def map_err_def
      is_ok_iff del: opcode_u8.simps)

section \<open>Locks\<close>

definition test_hash256_equalverify_flow :: "'vk crypto \<Rightarrow> bool" where
  "test_hash256_equalverify_flow C =
     (let secret = str_bytes ''aurion-truth-preimage'';
          hash = digest C secret;
          locking = [opcode_u8 OpDup, opcode_u8 OpHash256, 32] @ as_bytes hash @ [opcode_u8 OpEqualVerify];
          unlocking = of_nat (length secret) # secret
      in is_ok (verify C unlocking locking ZERO_HASH))"

lemma passes_hash256_equalverify_flow: "test_hash256_equalverify_flow C"
proof -
  define secret where "secret = str_bytes ''aurion-truth-preimage''"
  have "length secret = 21" "is_truthy secret"
    by (simp_all add: secret_def is_truthy_def str_bytes_def)
  then show ?thesis
    by (simp add: test_hash256_equalverify_flow_def secret_def [symmetric] verify_def
        ScriptEngine_with_sighash_def execute_op script_limits stack_push_def stack_dup_def Let_def is_ok_iff
        del: opcode_u8.simps)
qed

definition test_ed25519_checksig_flow :: "'vk crypto \<Rightarrow> bytes \<Rightarrow> (bytes \<Rightarrow> bytes) \<Rightarrow> bool" where
  "test_ed25519_checksig_flow C verifying_key sign =
     (let sh = digest C (str_bytes ''canonical-tx-spend-bytes'');
          signature = sign (as_bytes sh);
          locking = [32] @ verifying_key @ [opcode_u8 OpCheckSig];
          unlocking = [64] @ signature
      in is_ok (verify C unlocking locking sh))"

lemma passes_ed25519_checksig_flow:
  assumes "length verifying_key = 32" "\<And>m. length (sign m) = 64"
    and "vk_from_bytes C verifying_key = Some vk" "\<And>m. vk_verify_strict C vk m (sign m)"
  shows "test_ed25519_checksig_flow C verifying_key sign"
  using assms
  by (simp add: test_ed25519_checksig_flow_def verify_def ScriptEngine_with_sighash_def execute_op script_limits
      stack_push_def bool_item_def is_truthy_def verify_ed25519_def Let_def is_ok_iff del: opcode_u8.simps)

section \<open>Introspection\<close>

definition introspection_tx :: transaction where
  "introspection_tx =
     \<lparr>tx_version = 1,
      inputs = [\<lparr>previous_output = OutPoint_new ZERO_HASH 0, unlocking_script = [], sequence = 0xFFFFFFFF,
                 redeemer = None\<rparr>,
                \<lparr>previous_output = OutPoint_new ZERO_HASH 1, unlocking_script = [], sequence = 0xFFFFFFFF,
                 redeemer = None\<rparr>],
      outputs = [\<lparr>out_value = Quantum 100, locking_script = [opcode_u8 OpTrue], out_datum = DatumNone\<rparr>,
                 \<lparr>out_value = Quantum 200, locking_script = [opcode_u8 OpTrue], out_datum = DatumInline [0xAA, 0xBB]\<rparr>],
      locktime = 12345\<rparr>"

definition introspection_context :: script_context where
  "introspection_context =
     \<lparr>ctx_tx = introspection_tx, current_input_index = 1,
      current_spent_utxo = ExtendedUtxo_new (Quantum 500) [opcode_u8 OpTrue] 10 False DatumNone,
      ctx_fee = Quantum 10, validation_height = 999\<rparr>"

text \<open>One block of the test: run a script on a fresh engine, then pop what it pushed.\<close>

definition run_then_pop :: "'vk crypto \<Rightarrow> script_context option \<Rightarrow> bytes \<Rightarrow> (bytes \<Rightarrow> stack \<Rightarrow> bool) \<Rightarrow> bool" where
  "run_then_pop C context locking k =
     expect_ok (execute_bytecode C (ScriptEngine_new C context) locking [] 0) (\<lambda>(st, op_count).
     expect_ok (stack_pop st) (\<lambda>(popped, st). k popped st))"

definition test_introspection_opcodes :: "'vk crypto \<Rightarrow> bool" where
  "test_introspection_opcodes C =
     (let context = Some introspection_context in
      run_then_pop C context [opcode_u8 OpTxInputsCount] (\<lambda>popped _. popped = to_le_bytes (2 :: u32)) \<and>
      run_then_pop C context [opcode_u8 OpCurrentInputIdx] (\<lambda>popped _. popped = to_le_bytes (1 :: u32)) \<and>
      run_then_pop C context [opcode_u8 OpTxOutputsCount] (\<lambda>popped _. popped = to_le_bytes (2 :: u32)) \<and>
      run_then_pop C context [1, 1, opcode_u8 OpTxOutputValue] (\<lambda>popped _. popped = to_le_bytes (200 :: u128)) \<and>
      run_then_pop C context [opcode_u8 OpValidationHeight, opcode_u8 OpTxLocktime] (\<lambda>lock st.
        expect_ok (stack_pop st) (\<lambda>(h, _).
          lock = to_le_bytes (12345 :: u64) \<and> h = to_le_bytes (999 :: u64))) \<and>
      expect_err (execute_bytecode C (ScriptEngine_new C None) [opcode_u8 OpTxOutputsCount] [] 0) (\<lambda>e.
        e = ContextUnavailable))"

lemma index_bytes [simp]: "decode_u32_index [0] = Inr 0" "decode_u32_index [1] = Inr 1"
  by (simp_all add: decode_u32_index_def from_le_bytes_def from_be_bytes_def be_nat_def numeral_eq_Suc)

lemma introspection_facts:
  "length (inputs (ctx_tx introspection_context)) = 2" "current_input_index introspection_context = 1"
  "length (outputs (ctx_tx introspection_context)) = 2"
  "out_value (outputs (ctx_tx introspection_context) ! 1) = Quantum 200"
  "locktime (ctx_tx introspection_context) = 12345" "validation_height introspection_context = 999"
  by (simp_all add: introspection_context_def introspection_tx_def)

lemma passes_introspection_opcodes: "test_introspection_opcodes C"
proof -
  define E where "E = ScriptEngine_new C (Some introspection_context)"
  define E' where "E' = ScriptEngine_new C None"
  have E: "eng_context E = Some introspection_context" "eng_context E' = None"
    by (simp_all add: ScriptEngine_new_def E_def E'_def)
  have push: "execute_bytecode C E [1, 1, opcode_u8 OpTxOutputValue] [] 0
      = execute_bytecode C E [opcode_u8 OpTxOutputValue] [[1]] 1"
    using execute_push [of "[1]" 1 0 "[]" C E "[opcode_u8 OpTxOutputValue]"] by (simp add: script_limits)
  show ?thesis
    unfolding test_introspection_opcodes_def run_then_pop_def Let_def E_def [symmetric] E'_def [symmetric] push
    by (simp add: execute_op E script_limits stack_push_def introspection_facts [simplified]
        u32_try_from_def output_at_def ok_or_def del: opcode_u8.simps)
qed

section \<open>Contracts\<close>

definition covenant_locking :: bytes where
  "covenant_locking =
     [1, 0, opcode_u8 OpTxOutputValue, 16] @ to_le_bytes (500 :: u128) @ [opcode_u8 OpEqual]"

definition covenant_tx :: "u128 \<Rightarrow> transaction" where
  "covenant_tx v =
     \<lparr>tx_version = 1,
      inputs = [\<lparr>previous_output = OutPoint_new ZERO_HASH 0, unlocking_script = [], sequence = 0xFFFFFFFF,
                 redeemer = None\<rparr>],
      outputs = [\<lparr>out_value = Quantum v, locking_script = [opcode_u8 OpTrue], out_datum = DatumNone\<rparr>],
      locktime = 0\<rparr>"

definition test_covenant_output_enforcement :: "'vk crypto \<Rightarrow> bool" where
  "test_covenant_output_enforcement C =
     (let locking = covenant_locking;
          spent_utxo = ExtendedUtxo_new (Quantum 1000) locking 1 False DatumNone;
          context = (\<lambda>v fee. \<lparr>ctx_tx = covenant_tx v, current_input_index = 0, current_spent_utxo = spent_utxo,
                        ctx_fee = Quantum fee, validation_height = 10\<rparr>);
          run = (\<lambda>ctx. execute_contract C (ScriptEngine_new C (Some ctx)) locking [] DatumNone None)
      in expect_ok (run (context 500 500)) (\<lambda>res. res) \<and>
         expect_ok (run (context 400 600)) (\<lambda>res_invalid. \<not> res_invalid))"

lemma covenant_runs:
  assumes "eng_context E = Some ctx" "ctx_tx ctx = covenant_tx v"
  shows "execute_contract C E covenant_locking [] DatumNone None = Inr (v = 500)"
proof -
  have inj: "to_le_bytes (500 :: u128) = to_le_bytes v \<longleftrightarrow> 500 = v"
    by (metis from_to_be_simps(4) rev_rev_ident to_le_bytes_def)
  have "execute_bytecode C E covenant_locking [] 0 =
      execute_bytecode C E (opcode_u8 OpTxOutputValue # 16 # to_le_bytes (500 :: u128) @ [opcode_u8 OpEqual]) [[0]] 1"
    using execute_push [of "[0]" 1 0 "[]" C E "opcode_u8 OpTxOutputValue # 16 # to_le_bytes (500 :: u128) @ [opcode_u8 OpEqual]"]
    by (simp add: covenant_locking_def script_limits)
  also have "\<dots> = Inr ([bool_item (500 = v)], 4)"
    using assms by (simp add: execute_op script_limits stack_push_def output_at_def covenant_tx_def ok_or_def inj
        del: opcode_u8.simps) (auto simp: bool_item_def inj)
  finally show ?thesis
    by (auto simp: execute_contract_def push_datum_def push_redeemer_def)
qed

lemma passes_covenant_output_enforcement: "test_covenant_output_enforcement C"
  by (simp add: test_covenant_output_enforcement_def Let_def ScriptEngine_new_def covenant_runs)

definition test_datum_redeemer_contract_resolution :: "'vk crypto \<Rightarrow> bool" where
  "test_datum_redeemer_contract_resolution C =
     (let locking = [opcode_u8 OpAdd, 8] @ to_le_bytes (15 :: i64) @ [opcode_u8 OpEqual];
          dat = DatumInline (to_le_bytes (10 :: i64));
          run = (\<lambda>redeemer. execute_contract C (ScriptEngine_new C None) locking [] dat (Some redeemer))
      in expect_ok (run (to_le_bytes (5 :: i64))) (\<lambda>res. res) \<and>
         expect_ok (run (to_le_bytes (7 :: i64))) (\<lambda>res_invalid. \<not> res_invalid))"

lemma decode_script_int_le [simp]: "decode_script_int (to_le_bytes (x :: i64)) = Inr x"
proof -
  have "to_le_bytes x \<noteq> []" using length_to_le_bytes [of x] by (intro notI) simp
  then show ?thesis by (simp add: decode_script_int_def from_le_bytes_def to_le_bytes_def)
qed

text \<open>The contract accepts exactly when the checked sum of datum and redeemer is 15.\<close>

lemma adding_contract:
  assumes "checked_add_i64 a b = Some c"
  shows "execute_contract C E ([opcode_u8 OpAdd, 8] @ to_le_bytes (15 :: i64) @ [opcode_u8 OpEqual]) []
      (DatumInline (to_le_bytes a)) (Some (to_le_bytes b)) = Inr (c = 15)"
proof -
  have inj: "to_le_bytes (15 :: i64) = to_le_bytes c \<longleftrightarrow> 15 = c"
    by (metis from_to_be_simps(3) rev_rev_ident to_le_bytes_def)
  have "execute_bytecode C E (opcode_u8 OpAdd # 8 # to_le_bytes (15 :: i64) @ [opcode_u8 OpEqual])
      [to_le_bytes b, to_le_bytes a] 0 = Inr ([bool_item (c = 15)], 3)"
    using assms by (simp add: execute_op script_limits stack_push_def ok_or_def inj del: opcode_u8.simps)
      (auto simp: bool_item_def)
  then show ?thesis
    by (auto simp: execute_contract_def push_datum_def push_redeemer_def script_limits stack_push_def)
qed

lemma passes_datum_redeemer_contract_resolution: "test_datum_redeemer_contract_resolution C"
proof -
  have "checked_add_i64 10 5 = Some 15" "checked_add_i64 10 7 = Some 17"
    by (simp_all add: checked_add_i64_def)
  then show ?thesis
    by (simp add: test_datum_redeemer_contract_resolution_def Let_def adding_contract [simplified])
qed

end
