(* ===== verification/Tests_Pipeline.thy ===== *)
theory Tests_Pipeline
  imports Tests_Ledger
begin

text \<open>
  The end-to-end tests of the authority engine (\<open>aurion-node/tests/canonical_pipeline.rs\<close>): blocks
  are mined by the test's own nonce search and processed by an engine over a fresh database. The
  lemmas say what of Blake3 and Ed25519 the tests rely on: that some nonce solves every header at
  the easiest target, that signatures verify, and that the coinbase of the first block shares its
  id with no transaction of the second.
\<close>

section \<open>Mining\<close>

text \<open>The loop of \<open>mine_block\<close>; \<open>None\<close> is its panic when the nonces run out.\<close>

function search_nonce :: "'vk crypto \<Rightarrow> block_header \<Rightarrow> u64 \<Rightarrow> block_header option" where
  "search_nonce C hdr n =
     (let hdr = hdr\<lparr>nonce := n\<rparr> in
      if is_ok (check_pow (header_hash C hdr) (bits hdr)) then Some hdr
      else case checked_add n 1 of None \<Rightarrow> None | Some n' \<Rightarrow> search_nonce C hdr n')"
  by pat_completeness auto
termination
proof (relation "measure (\<lambda>(C, hdr, n). 2 ^ 64 - unat n)")
  fix n n' :: u64
  assume "checked_add n 1 = Some n'"
  then have "unat n' = unat n + 1" by (simp add: checked_add_Some)
  then show "((C, hdr', n'), (C :: 'a crypto, hdr, n)) \<in> measure (\<lambda>(C, hdr, n). 2 ^ 64 - unat n)" for C hdr hdr'
    using unat_bound [of n'] by simp
qed simp

declare search_nonce.simps [simp del]

definition pipeline_mine_block :: "'vk crypto \<Rightarrow> block_header \<Rightarrow> transaction list \<Rightarrow> block option" where
  "pipeline_mine_block C hdr txs =
     (let hdr = hdr\<lparr>merkle_root := compute_merkle_root C (map (txid C) txs)\<rparr>
      in map_option (\<lambda>hdr. Block_new hdr txs) (search_nonce C hdr 0))"

text \<open>What the hash must offer: every header at the easiest target has a solution.\<close>

definition minable :: "'vk crypto \<Rightarrow> bool" where
  "minable C \<longleftrightarrow> (\<forall>hdr. bits hdr = MAX_TARGET_BITS \<longrightarrow>
     (\<exists>n. is_ok (check_pow (header_hash C (hdr\<lparr>nonce := n\<rparr>)) MAX_TARGET_BITS)))"

lemma search_nonce_finds:
  assumes "n \<le> m" "is_ok (check_pow (header_hash C (hdr\<lparr>nonce := m\<rparr>)) (bits hdr))"
  shows "\<exists>k. search_nonce C hdr n = Some (hdr\<lparr>nonce := k\<rparr>) \<and>
    is_ok (check_pow (header_hash C (hdr\<lparr>nonce := k\<rparr>)) (bits hdr))"
  using assms
proof (induction "unat m - unat n" arbitrary: n hdr)
  case 0
  then have "n = m" by (simp add: word_le_nat_alt word_unat_eq_iff)
  with 0 show ?case by (auto simp: search_nonce.simps)
next
  case (Suc d)
  show ?case
  proof (cases "is_ok (check_pow (header_hash C (hdr\<lparr>nonce := n\<rparr>)) (bits hdr))")
    case True
    then show ?thesis by (auto simp: search_nonce.simps)
  next
    case False
    from Suc.hyps(2) have lt: "unat n + 1 \<le> unat m" by simp
    then have "unat n + 1 < 2 ^ 64" using order_le_less_trans [OF lt unat_bound [of m]] by simp
    then have n: "unat (n + 1) = unat n + 1" by (simp add: unat_word_ariths)
    then have "checked_add n 1 = Some (n + 1)" by (simp add: checked_add_Some)
    moreover have "\<exists>k. search_nonce C (hdr\<lparr>nonce := n\<rparr>) (n + 1) = Some (hdr\<lparr>nonce := k\<rparr>) \<and>
        is_ok (check_pow (header_hash C (hdr\<lparr>nonce := k\<rparr>)) (bits hdr))"
      using Suc.hyps(1) [of "n + 1" "hdr\<lparr>nonce := n\<rparr>"] Suc.hyps(2) Suc.prems lt n
      by (simp add: word_le_nat_alt)
    ultimately show ?thesis
      using False by (simp add: search_nonce.simps [of C hdr n] Let_def)
  qed
qed

text \<open>A mined block of the test passes every structural rule that does not concern its transactions.\<close>

lemma pipeline_mined:
  assumes "minable C" "bits hdr = MAX_TARGET_BITS"
  obtains block where "pipeline_mine_block C hdr txs = Some block" "transactions block = txs"
    "height (header block) = height hdr" "prev_block_hash (header block) = prev_block_hash hdr"
    "timestamp (header block) = timestamp hdr"
    "\<And>h. height hdr = h \<Longrightarrow> txs \<noteq> [] \<Longrightarrow> is_coinbase (hd txs) \<Longrightarrow> list_all (\<lambda>tx. \<not> is_coinbase tx) (tl txs) \<Longrightarrow>
       output_total (hd txs) \<le> unat (allowed_subsidy h) \<Longrightarrow> block_structure_ok C block h"
proof -
  let ?h = "hdr\<lparr>merkle_root := compute_merkle_root C (map (txid C) txs)\<rparr>"
  from assms obtain m where "is_ok (check_pow (header_hash C (?h\<lparr>nonce := m\<rparr>)) (bits ?h))"
    unfolding minable_def by (metis block_header.select_convs(5) block_header.surjective block_header.update_convs(3))
  with search_nonce_finds [of 0 m C ?h] obtain k where
    k: "search_nonce C ?h 0 = Some (?h\<lparr>nonce := k\<rparr>)"
      "is_ok (check_pow (header_hash C (?h\<lparr>nonce := k\<rparr>)) (bits ?h))" by auto
  from k(2) have pow: "compact_valid (bits hdr)" "unat (header_hash C (?h\<lparr>nonce := k\<rparr>)) \<le> target_value (bits hdr)"
    by (auto simp: is_ok_iff check_pow_ok_iff)
  from k(1) have "pipeline_mine_block C hdr txs = Some \<lparr>header = ?h\<lparr>nonce := k\<rparr>, transactions = txs\<rparr>"
    by (simp add: pipeline_mine_block_def Block_new_def)
  then show thesis
    by (rule that) (use pow in \<open>simp_all add: block_structure_ok_def block_hash_def calculate_merkle_root_def\<close>)
qed

section \<open>The tests\<close>

definition test_header :: "hash256 \<Rightarrow> u64 \<Rightarrow> u64 \<Rightarrow> block_header" where
  "test_header prev ts h =
     \<lparr>version = 1, prev_block_hash = prev, merkle_root = ZERO_HASH, timestamp = ts, bits = MAX_TARGET_BITS,
      nonce = 0, height = h\<rparr>"

definition pipeline_coinbase :: "bytes \<Rightarrow> u32 \<Rightarrow> bytes \<Rightarrow> transaction" where
  "pipeline_coinbase unlocking seqn locking =
     \<lparr>tx_version = 1,
      inputs = [\<lparr>previous_output = OutPoint_new ZERO_HASH 0xFFFFFFFF, unlocking_script = unlocking,
                 sequence = seqn, redeemer = None\<rparr>],
      outputs = [\<lparr>out_value = Quantum INITIAL_SUBSIDY, locking_script = locking, out_datum = DatumNone\<rparr>],
      locktime = 0\<rparr>"

definition genesis_spend :: "outpoint \<Rightarrow> u32 \<Rightarrow> transaction" where
  "genesis_spend op seqn =
     \<lparr>tx_version = 1,
      inputs = [\<lparr>previous_output = op, unlocking_script = [], sequence = seqn, redeemer = None\<rparr>],
      outputs = [\<lparr>out_value = Quantum INITIAL_SUBSIDY, locking_script = [opcode_u8 OpTrue], out_datum = DatumNone\<rparr>],
      locktime = 0\<rparr>"

definition test_double_spend_rejection_protects_canonical_ledger :: "'vk crypto \<Rightarrow> bool" where
  "test_double_spend_rejection_protects_canonical_ledger C =
     expect_ok (StorageEngine_open mem_redb ''tempfile'') (\<lambda>storage.
       let (initialized, authority) = initialize_genesis mem_redb C (AuthorityEngine_new storage);
           genesis = create_genesis_block C;
           genesis_outpoint = OutPoint_new (txid C (transactions genesis ! 0)) 0;
           tx1 = genesis_spend genesis_outpoint 0;
           tx2 = genesis_spend genesis_outpoint 1;
           coinbase = pipeline_coinbase [] 0 [opcode_u8 OpTrue];
           hdr = test_header (block_hash C genesis) (timestamp (header genesis) + 600) 1
       in is_ok initialized \<and>
          (case pipeline_mine_block C hdr [coinbase, tx1, tx2] of
             None \<Rightarrow> False
           | Some bad_block \<Rightarrow>
               (let (res, authority) = process_and_commit_block mem_redb C authority bad_block
                in expect_err res (\<lambda>e. e = AuthInvariant (DuplicateInputSpend genesis_outpoint)) \<and>
                   expect_ok (get_tip mem_redb (auth_storage authority)) (\<lambda>tip. case tip of
                     None \<Rightarrow> False | Some (h, _) \<Rightarrow> h = 0))))"

lemma amount_INITIAL_SUBSIDY: "amount (Quantum INITIAL_SUBSIDY) = 9900000000"
  using monetary_constants(3) by (simp add: INITIAL_SUBSIDY_def)

lemma pipeline_coinbase_facts:
  "is_coinbase (pipeline_coinbase u q l)" "output_total (pipeline_coinbase u q l) = 9900000000"
  "tx_spends (pipeline_coinbase u q l) = [OutPoint_new ZERO_HASH 0xFFFFFFFF]"
  by (simp_all add: pipeline_coinbase_def is_coinbase_def OutPoint_new_def output_total_def
      amount_INITIAL_SUBSIDY [simplified] tx_spends_def)

lemma genesis_spend_facts:
  assumes "op_txid op \<noteq> ZERO_HASH"
  shows "\<not> is_coinbase (genesis_spend op q)" "output_total (genesis_spend op q) = 9900000000"
    "inputs (genesis_spend op q) = [\<lparr>previous_output = op, unlocking_script = [], sequence = q, redeemer = None\<rparr>]"
    "sum_outputs (genesis_spend op q) = Inr (Quantum INITIAL_SUBSIDY)"
  using assms by (simp_all add: genesis_spend_def is_coinbase_def output_total_def sum_outputs_Inr
      amount_INITIAL_SUBSIDY [simplified])

text \<open>The second spender of an output anyone can spend is refused by name.\<close>

lemma second_genesis_spend_refused:
  assumes "op_txid op \<noteq> ZERO_HASH" "lookup op = Some out" "out = outputs genesis_coinbase ! 0"
    and "transactions block = [pipeline_coinbase u q l, genesis_spend op 0, genesis_spend op 1]"
  shows "verify_block_invariants C block lookup = Inl (DuplicateInputSpend op)"
proof -
  have am: "amount (out_value out) = 1980000000000000"
    using assms(3) by (simp add: genesis_coinbase_def saturating_mul_def CREATOR_ALLOCATION_AUR_def QUANTA_PER_AUR_def)
  have add: "quantum_checked_add QUANTUM_ZERO (out_value out) = Inr (out_value out)" by simp
  have le: "\<not> out_value out < Quantum INITIAL_SUBSIDY"
    unfolding quantum_less_amount am amount_INITIAL_SUBSIDY by simp
  have "quantum_checked_sub (out_value out) (Quantum INITIAL_SUBSIDY) = Inr (Quantum (of_nat 1979990100000000))"
    by (simp only: quantum_checked_sub_Inr am amount_INITIAL_SUBSIDY) simp
  then obtain fee where fee: "quantum_checked_sub (out_value out) (Quantum INITIAL_SUBSIDY) = Inr fee" by blast
  have "locking_script out = [0x51] \<and> out_datum out = DatumNone"
    using assms(3) by (simp add: genesis_coinbase_def)
  then have verdict: "input_verdict C tx f h i \<lparr>previous_output = op, unlocking_script = [], sequence = 0, redeemer = None\<rparr> out
      = Inr True" for tx f h i
    using op_true_contract by (simp add: input_verdict_def from_output_def)
  show ?thesis
    by (simp add: verify_block_invariants_def assms(2,4) enumerate_from_def pipeline_coinbase_facts
        genesis_spend_facts [OF assms(1)] add le fee verdict del: quantum_checked_add_Inr quantum_checked_sub_Inr)
qed

text \<open>The engine after \<open>initialize_genesis\<close>.\<close>

abbreviation genesis_store :: "'vk crypto \<Rightarrow> store" where
  "genesis_store C \<equiv> apply_block C (create_genesis_block C) [] (\<lambda>_. None)"

lemma first_block_structure:
  assumes "minable C" "list_all (\<lambda>tx. \<not> is_coinbase tx) txs"
  obtains block where "pipeline_mine_block C (test_header prev ts 1) (pipeline_coinbase u q l # txs) = Some block"
    "transactions block = pipeline_coinbase u q l # txs" "height (header block) = 1"
    "prev_block_hash (header block) = prev" "timestamp (header block) = ts" "block_structure_ok C block 1"
proof -
  have "9900000000 \<le> unat (allowed_subsidy 1)" by (simp add: unat_allowed_subsidy subsidy_spec_def)
  with assms(2) show thesis
    using pipeline_mined [OF assms(1), of "test_header prev ts 1" "pipeline_coinbase u q l # txs"] that
    by (auto simp: test_header_def pipeline_coinbase_facts)
qed

lemma passes_double_spend_rejection:
  assumes "minable C" "txid C genesis_coinbase \<noteq> ZERO_HASH"
  shows "test_double_spend_rejection_protects_canonical_ledger C"
proof -
  let ?op = "OutPoint_new (txid C genesis_coinbase) 0" and ?s = "genesis_store C"
  let ?hash = "block_hash C (create_genesis_block C)"
  have op: "op_txid ?op \<noteq> ZERO_HASH" using assms(2) by (simp add: OutPoint_new_def)
  obtain block where b: "pipeline_mine_block C (test_header ?hash (timestamp (header (create_genesis_block C)) + 600) 1)
      (pipeline_coinbase [] 0 [opcode_u8 OpTrue] # [genesis_spend ?op 0, genesis_spend ?op 1]) = Some block"
    "transactions block = [pipeline_coinbase [] 0 [opcode_u8 OpTrue], genesis_spend ?op 0, genesis_spend ?op 1]"
    "height (header block) = 1" "prev_block_hash (header block) = ?hash" "block_structure_ok C block 1"
    by (rule first_block_structure [OF assms(1), of "[genesis_spend ?op 0, genesis_spend ?op 1]"])
      (use genesis_spend_facts(1) [OF op] in simp_all)
  have tip: "store_tip ?s = Inr (Some (0, ?hash))"
    by (simp add: apply_block_tip genesis_fields)
  have "canonical_lookup mem_redb ?s ?op = Some (outputs genesis_coinbase ! 0)"
    using genesis_utxos [of 0 C "\<lambda>_. None"] by (simp add: mem.canonical_lookup_ok store_lookup_def)
  then have inv: "verify_block_invariants C block (canonical_lookup mem_redb ?s) = Inl (DuplicateInputSpend ?op)"
    by (rule second_genesis_spend_refused [OF op _ refl b(2)])
  have "verify_block_structure C block 1 = Inr ()" using b(5) by (simp add: verify_block_structure_ok_iff)
  moreover have "expected_next (Some (0, ?hash)) = Inr (1, ?hash)"
    by (simp add: expected_next_def checked_add_def)
  ultimately have "process_and_commit_block mem_redb C
      \<lparr>auth_state = Running, auth_storage = ?s, cancel_signal = False\<rparr> block =
    (Inl (AuthInvariant (DuplicateInputSpend ?op)), \<lparr>auth_state = Running, auth_storage = ?s, cancel_signal = False\<rparr>)"
    by (simp add: process_and_commit_block_def validate_block_def enforce_operational_def mem.get_tip_ok tip b(4) inv)
  then show ?thesis
    by (simp add: test_double_spend_rejection_protects_canonical_ledger_def mem_open mem_initialize genesis_fields
        b(1) mem.get_tip_ok tip Let_def del: opcode_u8.simps)
qed

section \<open>The life of a chain\<close>

text \<open>Miner A's key pair: the public key and the signing function.\<close>

definition miner_locking_script :: "bytes \<Rightarrow> bytes" where
  "miner_locking_script miner_pk = 0x20 # miner_pk @ [opcode_u8 OpCheckSig]"

definition unsigned_spend :: "outpoint \<Rightarrow> bytes \<Rightarrow> transaction" where
  "unsigned_spend b1_coinbase_op locking =
     \<lparr>tx_version = 1,
      inputs = [\<lparr>previous_output = b1_coinbase_op, unlocking_script = [], sequence = 0, redeemer = None\<rparr>],
      outputs = [\<lparr>out_value = Quantum 2000000000, locking_script = [opcode_u8 OpTrue], out_datum = DatumNone\<rparr>,
                 \<lparr>out_value = Quantum 7900000000, locking_script = locking, out_datum = DatumNone\<rparr>],
      locktime = 0\<rparr>"

definition signed_spend :: "'vk crypto \<Rightarrow> (bytes \<Rightarrow> bytes) \<Rightarrow> outpoint \<Rightarrow> bytes \<Rightarrow> transaction" where
  "signed_spend C sign b1_coinbase_op locking =
     (let spend_tx = unsigned_spend b1_coinbase_op locking;
          sig = sign (as_bytes (sighash C spend_tx 0))
      in spend_tx\<lparr>inputs := [hd (inputs spend_tx)\<lparr>unlocking_script := 0x40 # sig\<rparr>]\<rparr>)"

definition utxo_of_value :: "store \<Rightarrow> outpoint \<Rightarrow> u128 \<Rightarrow> bool" where
  "utxo_of_value storage op v \<longleftrightarrow>
     expect_ok (get_utxo mem_redb storage op) (\<lambda>u. case u of
       None \<Rightarrow> False | Some utxo \<Rightarrow> out_value utxo = Quantum v)"

definition test_end_to_end_canonical_chain_lifecycle :: "'vk crypto \<Rightarrow> bytes \<Rightarrow> (bytes \<Rightarrow> bytes) \<Rightarrow> bool" where
  "test_end_to_end_canonical_chain_lifecycle C miner_pk sign =
     expect_ok (StorageEngine_open mem_redb ''tempfile'') (\<lambda>storage.
       let (initialized, authority) = initialize_genesis mem_redb C (AuthorityEngine_new storage);
           genesis = create_genesis_block C;
           locking = miner_locking_script miner_pk;
           coinbase_b1 = pipeline_coinbase (str_bytes ''Mined by Miner A'') 0xFFFFFFFF locking;
           b1_coinbase_op = OutPoint_new (txid C coinbase_b1) 0;
           spend_tx = signed_spend C sign b1_coinbase_op locking;
           coinbase_b2 = pipeline_coinbase (str_bytes ''Coinbase B2'') 0xFFFFFFFF locking
       in is_ok initialized \<and> is_operational (auth_state authority) \<and>
          get_tip mem_redb (auth_storage authority) = Inr (Some (0, block_hash C genesis)) \<and>
          (case pipeline_mine_block C (test_header (block_hash C genesis) (timestamp (header genesis) + 600) 1)
                  [coinbase_b1] of
             None \<Rightarrow> False
           | Some block_1 \<Rightarrow>
             (let (res, authority) = process_and_commit_block mem_redb C authority block_1
              in is_ok res \<and>
                 get_tip mem_redb (auth_storage authority) = Inr (Some (1, block_hash C block_1)) \<and>
                 utxo_of_value (auth_storage authority) b1_coinbase_op INITIAL_SUBSIDY \<and>
                 (case pipeline_mine_block C
                         (test_header (block_hash C block_1) (timestamp (header block_1) + 600) 2)
                         [coinbase_b2, spend_tx] of
                    None \<Rightarrow> False
                  | Some block_2 \<Rightarrow>
                    (let (res, authority) = process_and_commit_block mem_redb C authority block_2
                     in is_ok res \<and>
                        get_tip mem_redb (auth_storage authority) = Inr (Some (2, block_hash C block_2)) \<and>
                        get_utxo mem_redb (auth_storage authority) b1_coinbase_op = Inr None \<and>
                        utxo_of_value (auth_storage authority) (OutPoint_new (txid C spend_tx) 0) 2000000000 \<and>
                        utxo_of_value (auth_storage authority) (OutPoint_new (txid C spend_tx) 1) 7900000000)))))"

text \<open>A block that passes every rule is applied.\<close>

lemma mem_process:
  assumes "store_tip s = Inr (Some (h, prev_block_hash (header block)))"
    and "unat (height (header block)) = Suc (unat h)" "block_structure_ok C block (height (header block))"
    and "block_invariants_ok C block (store_lookup s)"
  shows "process_and_commit_block mem_redb C \<lparr>auth_state = Running, auth_storage = s, cancel_signal = b\<rparr> block =
    (Inr (), \<lparr>auth_state = Running, auth_storage = apply_block C block (block_spends block) s, cancel_signal = b\<rparr>)"
proof -
  have "validate_block mem_redb C \<lparr>auth_state = Running, auth_storage = s, cancel_signal = b\<rparr> block =
      (Inr (block_spends block), \<lparr>auth_state = Running, auth_storage = s, cancel_signal = b\<rparr>)"
    using assms by (auto simp: validate_block_Inr mem.get_tip_ok expected_next_Inr mem.canonical_lookup_ok)
  then show ?thesis
    by (simp add: process_and_commit_block_def commit_validated_def mem_commit)
qed

text \<open>A spend signed with the key of a pay-to-public-key output is authorised.\<close>

lemma signed_spend_facts:
  assumes "op_txid op \<noteq> ZERO_HASH"
  shows "\<not> is_coinbase (signed_spend C sign op l)" "tx_spends (signed_spend C sign op l) = [op]"
    "output_total (signed_spend C sign op l) = 9900000000" "outputs (signed_spend C sign op l) = outputs (unsigned_spend op l)"
    "inputs (signed_spend C sign op l) =
       [\<lparr>previous_output = op, unlocking_script = 0x40 # sign (as_bytes (sighash C (unsigned_spend op l) 0)),
         sequence = 0, redeemer = None\<rparr>]"
    "sighash C (signed_spend C sign op l) 0 = sighash C (unsigned_spend op l) 0"
  using assms by (simp_all add: signed_spend_def unsigned_spend_def is_coinbase_def tx_spends_def output_total_def
      sighash_def sighash_preimage_def clear_unlocking_def Let_def)

lemma signed_spend_authorized:
  assumes "\<And>m. verify_ed25519 C pk (sign m) m" "length pk = 32" "\<And>m. length (sign m) = 64" "op_txid op \<noteq> ZERO_HASH"
    and "locking_script out = miner_locking_script pk" "out_datum out = DatumNone"
  shows "input_verdict C (signed_spend C sign op l) f h 0
    \<lparr>previous_output = op, unlocking_script = 0x40 # sign (as_bytes (sighash C (unsigned_spend op l) 0)),
      sequence = 0, redeemer = None\<rparr> out = Inr True"
  using assms by (simp add: input_verdict_def from_output_def miner_locking_script_def p2pk_contract
      signed_spend_facts del: opcode_u8.simps)

lemma created_utxo:
  "map_of (rev (block_outputs C block)) op = Some out \<Longrightarrow> wf_tx_output out \<Longrightarrow>
     store_utxo (apply_block C block spent s) op = Inr (Some out)"
  by (simp add: store_utxo_def apply_block_utxo tx_output.roundtrip)

lemma pipeline_outputs:
  "transactions block = [pipeline_coinbase u q l] \<Longrightarrow> block_outputs C block =
     [(OutPoint_new (txid C (pipeline_coinbase u q l)) 0,
       \<lparr>out_value = Quantum INITIAL_SUBSIDY, locking_script = l, out_datum = DatumNone\<rparr>)]"
  "transactions block = [pipeline_coinbase u q l, tx] \<Longrightarrow> outputs tx = outputs (unsigned_spend op l) \<Longrightarrow>
   block_outputs C block =
     [(OutPoint_new (txid C (pipeline_coinbase u q l)) 0,
       \<lparr>out_value = Quantum INITIAL_SUBSIDY, locking_script = l, out_datum = DatumNone\<rparr>),
      (OutPoint_new (txid C tx) 0,
       \<lparr>out_value = Quantum 2000000000, locking_script = [opcode_u8 OpTrue], out_datum = DatumNone\<rparr>),
      (OutPoint_new (txid C tx) 1,
       \<lparr>out_value = Quantum 7900000000, locking_script = l, out_datum = DatumNone\<rparr>)]"
  by (simp_all add: block_outputs_def created_outputs_def enumerate_from_def pipeline_coinbase_def unsigned_spend_def
      del: opcode_u8.simps)

lemma second_block_valid:
  assumes "\<And>m. verify_ed25519 C pk (sign m) m" "length pk = 32" "\<And>m. length (sign m) = 64" "op_txid op \<noteq> ZERO_HASH"
    and "lookup op = Some \<lparr>out_value = Quantum INITIAL_SUBSIDY, locking_script = miner_locking_script pk, out_datum = DatumNone\<rparr>"
    and "transactions block = [pipeline_coinbase u q l, signed_spend C sign op (miner_locking_script pk)]"
  shows "block_spends block = [op]" "block_invariants_ok C block lookup"
proof -
  show sp: "block_spends block = [op]"
    using assms(6) by (simp add: block_spends_def pipeline_coinbase_facts signed_spend_facts assms(4))
  let ?tx = "signed_spend C sign op (miner_locking_script pk)"
  have tot: "input_total lookup ?tx = 9900000000"
    using assms(5) amount_INITIAL_SUBSIDY
    by (simp add: input_total_def lookup_amount_def signed_spend_facts assms(4))
  then have "tx_conserves lookup ?tx"
    using assms(5) by (simp add: tx_conserves_def signed_spend_facts assms(4))
  moreover have "tx_authorized C lookup h ?tx" for h
    using signed_spend_authorized [OF assms(1-4)] assms(5)
    by (simp add: tx_authorized_def signed_spend_facts assms(4))
  ultimately show "block_invariants_ok C block lookup"
    using sp assms(6) by (simp add: block_invariants_ok_def pipeline_coinbase_facts)
qed

lemma passes_end_to_end_canonical_chain_lifecycle:
  assumes mine: "minable C" and sig: "\<And>m. verify_ed25519 C pk (sign m) m" "length pk = 32" "\<And>m. length (sign m) = 64"
    and cb1: "cb1 = pipeline_coinbase (str_bytes ''Mined by Miner A'') 0xFFFFFFFF (miner_locking_script pk)"
    and nz: "txid C cb1 \<noteq> ZERO_HASH"
    and new: "txid C (signed_spend C sign (OutPoint_new (txid C cb1) 0) (miner_locking_script pk)) \<noteq> txid C cb1"
      "txid C (pipeline_coinbase (str_bytes ''Coinbase B2'') 0xFFFFFFFF (miner_locking_script pk)) \<noteq> txid C cb1"
  shows "test_end_to_end_canonical_chain_lifecycle C pk sign"
proof -
  let ?l = "miner_locking_script pk" and ?s0 = "genesis_store C" and ?g = "create_genesis_block C"
  let ?cb2 = "pipeline_coinbase (str_bytes ''Coinbase B2'') 0xFFFFFFFF ?l"
  let ?op = "OutPoint_new (txid C cb1) 0"
  let ?tx = "signed_spend C sign ?op ?l"
  let ?out = "\<lparr>out_value = Quantum INITIAL_SUBSIDY, locking_script = ?l, out_datum = DatumNone\<rparr>"
  have op: "op_txid ?op \<noteq> ZERO_HASH" using nz by (simp add: OutPoint_new_def)
  have wf: "wf_tx_output ?out" "wf_tx_output (?out\<lparr>out_value := Quantum 7900000000\<rparr>)"
    "wf_tx_output \<lparr>out_value = Quantum 2000000000, locking_script = [opcode_u8 OpTrue], out_datum = DatumNone\<rparr>"
    using sig(2) by (simp_all add: wf_defs miner_locking_script_def)
  have tip0: "store_tip ?s0 = Inr (Some (0, block_hash C ?g))" by (simp add: apply_block_tip genesis_fields)
  obtain b1 where b1: "pipeline_mine_block C (test_header (block_hash C ?g) (timestamp (header ?g) + 600) 1) [cb1] = Some b1"
    "transactions b1 = [cb1]" "height (header b1) = 1" "prev_block_hash (header b1) = block_hash C ?g"
    "block_structure_ok C b1 1"
    unfolding cb1 by (rule first_block_structure [OF mine, of "[]"]) simp_all
  have s1: "block_spends b1 = []" "block_invariants_ok C b1 lookup" for lookup
    by (simp_all add: block_spends_def block_invariants_ok_def b1(2) cb1 pipeline_coinbase_facts)
  let ?s1 = "apply_block C b1 [] ?s0"
  have p1: "process_and_commit_block mem_redb C \<lparr>auth_state = Running, auth_storage = ?s0, cancel_signal = False\<rparr> b1 =
      (Inr (), \<lparr>auth_state = Running, auth_storage = ?s1, cancel_signal = False\<rparr>)"
    using mem_process [of ?s0 0 b1 C False] tip0 b1 s1 by simp
  have u1: "store_utxo ?s1 ?op = Inr (Some ?out)"
    by (rule created_utxo) (simp_all add: pipeline_outputs(1) [OF b1(2) [unfolded cb1]] wf cb1)
  have tip1: "store_tip ?s1 = Inr (Some (1, block_hash C b1))" by (simp add: apply_block_tip b1(3))
  let ?h2 = "test_header (block_hash C b1) (timestamp (header b1) + 600) 2"
  obtain b2 where b2: "pipeline_mine_block C ?h2 [?cb2, ?tx] = Some b2" "transactions b2 = [?cb2, ?tx]"
    "height (header b2) = 2" "prev_block_hash (header b2) = block_hash C b1" "block_structure_ok C b2 2"
  proof -
    have "9900000000 \<le> unat (allowed_subsidy 2)" by (simp add: unat_allowed_subsidy subsidy_spec_def)
    moreover note spend = signed_spend_facts(1) [OF op, of C sign ?l]
    ultimately show thesis
      using pipeline_mined [OF mine, of ?h2 "[?cb2, ?tx]"] that
      by (auto simp: test_header_def pipeline_coinbase_facts)
  qed
  have look: "store_lookup ?s1 ?op = Some ?out" by (simp add: store_lookup_def u1)
  note s2 = second_block_valid [where lookup = "store_lookup ?s1", OF sig op look b2(2)]
  let ?s2 = "apply_block C b2 [?op] ?s1"
  have p2: "process_and_commit_block mem_redb C \<lparr>auth_state = Running, auth_storage = ?s1, cancel_signal = False\<rparr> b2 =
      (Inr (), \<lparr>auth_state = Running, auth_storage = ?s2, cancel_signal = False\<rparr>)"
    using mem_process [of ?s1 1 b2 C False] tip1 b2 s2 by simp
  have tip2: "store_tip ?s2 = Inr (Some (2, block_hash C b2))" by (simp add: apply_block_tip b2(3))
  note outs = pipeline_outputs(2) [OF b2(2) signed_spend_facts(4) [OF op], of C]
  have u2: "store_utxo ?s2 ?op = Inr None"
    using new by (simp add: store_utxo_def apply_block_utxo outs OutPoint_new_def)
  have "store_utxo ?s2 (OutPoint_new (txid C ?tx) 0) =
      Inr (Some \<lparr>out_value = Quantum 2000000000, locking_script = [opcode_u8 OpTrue], out_datum = DatumNone\<rparr>)"
    by (rule created_utxo [OF _ wf(3)]) (simp add: outs OutPoint_new_def)
  moreover have "store_utxo ?s2 (OutPoint_new (txid C ?tx) 1) = Inr (Some (?out\<lparr>out_value := Quantum 7900000000\<rparr>))"
    by (rule created_utxo [OF _ wf(2)]) (simp add: outs OutPoint_new_def)
  ultimately show ?thesis
    by (simp add: test_end_to_end_canonical_chain_lifecycle_def mem_open mem_initialize Let_def mem.get_tip_ok tip0 b1(1)
        p1 tip1 utxo_of_value_def cb1 [symmetric] mem.get_utxo_ok u1 b2(1) p2 tip2 u2)
qed

end
