(* ===== verification/Spec2Isabelle.thy ===== *)
theory Spec2Isabelle
  imports Daemon Mesh Concurrency Cli Tests_Node Tests_Script Tests_Pipeline
begin

text \<open>
  A verification library for Aurion, a monolithic proof-of-work ledger node written in Rust
  (the crates under \<open>src/crates\<close> and the binary \<open>src/bin/aurion\<close>).

  Parts and how they interact. Transactions and blocks (\<open>aurion-core\<close>) over hashes and amounts
  (\<open>aurion-primitives\<close>) travel as canonical bytes. A block reaches the authority engine
  (\<open>aurion-node/authority\<close>) by RPC from a miner or from the peer mesh; the engine reads the tip
  from storage (\<open>aurion-storage\<close>), checks the structure of the block (\<open>aurion-consensus\<close>) and
  its invariants against the UTXO set, running the contract of each input (\<open>aurion-script\<close>), and
  commits it in one database transaction. The pool (\<open>aurion-node/mempool\<close>) admits transactions
  against a view of the same UTXO set with the checks of \<open>aurion-eutxo\<close> and feeds block templates.
  The RPC layer (\<open>aurion-rpc\<close>) and the mesh (\<open>aurion-network\<close>) carry framed messages. The binary
  joins these into the node daemon and the miner.

  Theories, in the order of imports:

  \<^item> \<open>Prelude\<close>: results as sums, checked and saturating arithmetic of machine words, big-endian
    bytes, the cursor parsers and the locale \<open>codec\<close> of a canonical encoding with its round trip.
  \<^item> \<open>Primitives\<close> (\<open>codec.rs\<close>, \<open>hash.rs\<close>, \<open>quantum.rs\<close>): the record \<open>crypto\<close> of the foreign
    functions, 256-bit hashes as words, checked amounts.
  \<^item> \<open>Core_Tx\<close>, \<open>Core_Block\<close> (\<open>tx.rs\<close>, \<open>outpoint.rs\<close>, \<open>block.rs\<close>, \<open>merkle.rs\<close>): data, codecs,
    txid, sighash, Merkle root. Each codec is an interpretation of \<open>codec\<close>; decoding is shown to
    accept exactly the encodings of well-formed values, and hashes to bind contents up to
    collisions that are exhibited.
  \<^item> \<open>Consensus\<close> (\<open>difficulty.rs\<close>, \<open>subsidy.rs\<close>, \<open>genesis.rs\<close>, \<open>verification.rs\<close>): compact
    targets, emission, genesis, structural verification with its exact declarative meaning.
  \<^item> \<open>Eutxo\<close> (\<open>state.rs\<close>, \<open>view.rs\<close>, \<open>maturity.rs\<close>, \<open>locktime.rs\<close>, \<open>fee.rs\<close>).
  \<^item> \<open>Script\<close> (crate \<open>aurion-script\<close>): the stack machine with every opcode, resource bounds and
    the meaning of the standard contracts.
  \<^item> \<open>Storage\<close> (\<open>aurion-storage/engine.rs\<close>): commit and readers over an abstract database. The
    locale \<open>redb_laws\<close> states what the ledger needs of \<open>redb\<close> whatever calls fail, \<open>redb_healthy\<close>
    adds that none fails; both are interpreted on a database in memory. A commit refines the
    table update \<open>apply_block\<close>.
  \<^item> \<open>Authority\<close>, \<open>Ledger\<close> (\<open>authority/engine.rs\<close>, \<open>authority/invariants.rs\<close>, \<open>lifecycle\<close>): the
    engine, its life cycle and the ledger invariant: supply cap, no double spend over any run,
    fail-stop, atomicity of a single call, and the race between the checks and the commit.
  \<^item> \<open>Fee_Rate\<close>, \<open>Mempool\<close> (\<open>mempool\<close>): exact fee-rate comparison by 256-bit products, the locale
    of an ordered set for the fee index, the six gates, admission, eviction, selection and
    clean-up with the invariant \<open>pool_inv\<close> that ties the four indices together.
  \<^item> \<open>Network\<close> (\<open>frame.rs\<close>, \<open>gossip.rs\<close>, \<open>query.rs\<close>, \<open>session.rs\<close>), \<open>Rpc\<close> (crate \<open>aurion-rpc\<close>):
    frames, publishing and receiving, the synchronisation queries; requests, responses, the loop
    of one connection and the client. The locale \<open>handler_contract\<close> states what a service keeps
    on decoded requests and shows that a connection keeps it on any bytes.
  \<^item> \<open>Node_Service\<close> (\<open>rpc_handler.rs\<close>, \<open>commands/node.rs\<close>): the service as an instance of the
    handler record of \<open>Rpc\<close>, the two peer listeners, start-up. \<open>Node_System\<close>: the node as a step
    relation over requests, peer frames, clock and restarts, the invariant \<open>node_inv\<close> that links
    tables, life cycle and pool, and the properties that span components.
  \<^item> \<open>Chain\<close>: the history behind the tables. The ledger of every reachable node is the replay of a
    valid chain from genesis, it only grows, nodes with one tip agree up to hash collisions, and
    the supply is accounted for exactly. \<open>Mesh\<close> (the broadcast tasks of \<open>rpc_handler.rs\<close>, \<open>gossip.rs\<close>
    and the listeners of \<open>commands/node.rs\<close>): several nodes over a lossy, reordering transport as a
    labelled step relation; provenance of blocks, consistency with one producer, how far a peer
    follows its subscription, stalls.
  \<^item> \<open>Concurrency\<close> (\<open>authority/engine.rs\<close>, \<open>rpc_handler.rs\<close>, \<open>commands/node.rs\<close>): the handlers of
    blocks and transactions taken apart at the calls between which tasks interleave, the write
    lock of the pool, what every interleaving keeps, and what holds only as long as commits do
    not race. Run without interruption, the parts are the handlers of \<open>Node_Service\<close>.
  \<^item> \<open>Miner\<close> (\<open>commands/mine\<close>): coinbase, compact encoding, nonce search, the mining loop, and the
    proof that the node accepts what is mined on its template.
  \<^item> \<open>Daemon\<close> (\<open>run\<close> and \<open>bootstrap_gossip\<close> of \<open>commands/node.rs\<close>, \<open>PeerNetworkSession::bootstrap\<close>,
    \<open>RpcServer::run\<close>): start-up, the accept loop and the interleaving of connections, as a step
    relation over the node of \<open>Node_System\<close>, with answers that are sent in part when a write
    fails; the miner as a client over the wire.
  \<^item> \<open>Cli\<close> (\<open>main.rs\<close>, \<open>commands/wallet.rs\<close>, \<open>commands/indexer.rs\<close>, the argument records): the
    commands with their defaults and exit status, the probe for a GPU (\<open>init_gpu\<close>), and the fate of
    rewards paid to the miner's default script.
  \<^item> \<open>Tests_Core\<close>, \<open>Tests_Net\<close>, \<open>Tests_Script\<close>, \<open>Tests_Mempool\<close>, \<open>Tests_Ledger\<close>, \<open>Tests_Node\<close>,
    \<open>Tests_Pipeline\<close>: the unit tests of the repository and the end-to-end tests of
    \<open>canonical_pipeline.rs\<close>, translated to predicates over the definitions of the other
    theories, one \<open>test_<name>\<close> per test function, with lemmas \<open>passes_...\<close>. They tie the model
    to the expectations of its authors. What a test computes with Blake3 or Ed25519 is a hypothesis
    or a parameter of the lemma.

  Correspondence. Structs are records, enums datatypes, errors the left side of a sum with the
  constructors of the code; \<open>u8\<close> to \<open>u128\<close> are words of that width, \<open>usize\<close> is a natural number
  with its 64-bit limits written out. Panics that the code can reach are error values
  (\<open>SlicePanic\<close>, \<open>AuthorityPanic\<close>).

  Granularity. In \<open>Node_System\<close>, \<open>Chain\<close>, \<open>Mesh\<close> and \<open>Daemon\<close> one handler call, one frame of a
  peer and one genesis initialisation are each one step. The code holds no lock over a whole
  handler, so these theories describe the daemon as long as no two blocks are processed at the
  same time. \<open>Concurrency\<close> drops that assumption: each call of the storage engine in
  \<open>process_and_commit_block\<close> and the clean-up of the pool are steps of their own. There the
  tables, the pool's indices and the link between pool and ledger survive every interleaving, and
  the chain and the supply survive as long as no block is committed between another's reading of
  the tip and its commit; \<open>Ledger.interleaved_commits_race\<close> shows a run in which one is.

  Parameters for code that is not under \<open>src\<close>: Blake3 and Ed25519 (\<open>crypto\<close>, no law is assumed;
  collisions are explicit hypotheses or disjuncts), the database (\<open>redb\<close>, with the laws of
  \<open>Storage\<close>), the transport of zenoh (functions from requests to replies), sockets (records
  \<open>reader\<close> and \<open>writer\<close>; a write may fail after any number of bytes), the system clock, and the thread pool of rayon (the outcome of building
  it and the choice \<open>pick\<close> among several solutions of a batch, which must be one of them).

  Bounds and fuel. No fuel is used. Loops over data are structural; \<open>mtp_samples\<close>, the reading loop
  of a connection and the interpreter have termination measures. The nonce search may run for
  ever: it is a \<open>partial_function (option)\<close>, and it is shown to return exactly when a solution
  exists.

  Not modelled: the transport inside zenoh beyond the outcomes of its calls; the scheduler
  of tokio beyond the free interleaving of turns; templates and mining while other tasks run; the
  Ctrl-C wait; logging, except the
  events of the placeholder commands and of the GPU probe; the parsing of the command line (crate
  \<open>clap\<close>). Timing (sleeps, time-outs) and memory limits are outside the model.
\<close>

end
